(* ===== verification/C_Prelude.thy ===== *)
theory C_Prelude
  imports Main "HOL-Library.Word"
begin

text \<open>
  Shared ground of the development: the machine integer types of the simulator's C code, the
  outcome of a piece of C code, C's shift operators with their domain, and the generic word and
  list lemmas that the component theories use.

  A C function that only computes is a HOL function. A C function that can run into undefined
  behaviour (a shift by a count outside \<open>0..31\<close>, an access outside an array, the value of an
  uninitialised variable) or that can call \<open>exit\<close> returns a \<open>cres\<close>: \<open>Ret v\<close> when it returns
  \<open>v\<close>, \<open>Exit\<close> when it ends the process, \<open>Undef\<close> when C gives it no meaning. \<open>cbind\<close> is
  sequencing. The implementation-defined choices are those of GCC, which the build uses: \<open>int\<close> has
  32 bits, a right shift of a negative \<open>int\<close> is arithmetic, and a left shift that
  loses bits is a shift of the bit pattern.
\<close>

unbundle bit_operations_syntax

type_synonym u8 = "8 word"
type_synonym u16 = "16 word"
type_synonym u32 = "32 word"

section \<open>Outcomes\<close>

datatype 'a cres = Ret 'a | Exit | Undef

definition cbind :: "'a cres \<Rightarrow> ('a \<Rightarrow> 'b cres) \<Rightarrow> 'b cres" where
  "cbind m f = (case m of Ret x \<Rightarrow> f x | Exit \<Rightarrow> Exit | Undef \<Rightarrow> Undef)"

fun ret_value :: "'a cres \<Rightarrow> 'a" where
  "ret_value (Ret v) = v"
| "ret_value _ = undefined"

lemma cbind_simps [simp]:
  "cbind (Ret x) f = f x"
  "cbind Exit f = Exit"
  "cbind Undef f = Undef"
  by (simp_all add: cbind_def)

lemma cbind_eq_Ret [simp]: "cbind m f = Ret y \<longleftrightarrow> (\<exists>x. m = Ret x \<and> f x = Ret y)"
  by (cases m) simp_all

lemma cbind_eq_Undef: "cbind m f = Undef \<longleftrightarrow> m = Undef \<or> (\<exists>x. m = Ret x \<and> f x = Undef)"
  by (cases m) simp_all

lemma cbind_assoc: "cbind (cbind m f) g = cbind m (\<lambda>x. cbind (f x) g)"
  by (cases m) simp_all

lemma cbind_Ret_right [simp]: "cbind m Ret = m"
  by (cases m) simp_all

section \<open>Rule collections\<close>

named_theorems frame_simps \<open>what an operation leaves unchanged\<close>
named_theorems flag_simps \<open>the status flags after an operation\<close>
named_theorems wf_intros \<open>preservation of well-formedness\<close>

section \<open>Shifts of C\<close>

definition c_shl :: "u32 \<Rightarrow> int \<Rightarrow> u32 cres" where
  "c_shl x n = (if 0 \<le> n \<and> n < 32 then Ret (push_bit (nat n) x) else Undef)"

definition c_shr :: "u32 \<Rightarrow> int \<Rightarrow> u32 cres" where
  "c_shr x n = (if 0 \<le> n \<and> n < 32 then Ret (drop_bit (nat n) x) else Undef)"

lemma c_shl_Ret [simp]: "0 \<le> n \<Longrightarrow> n < 32 \<Longrightarrow> c_shl x n = Ret (push_bit (nat n) x)"
  by (simp add: c_shl_def)

lemma c_shr_Ret [simp]: "0 \<le> n \<Longrightarrow> n < 32 \<Longrightarrow> c_shr x n = Ret (drop_bit (nat n) x)"
  by (simp add: c_shr_def)

lemma c_shl_not_Exit [simp]: "c_shl x n \<noteq> Exit"
  by (simp add: c_shl_def)

lemma c_shr_not_Exit [simp]: "c_shr x n \<noteq> Exit"
  by (simp add: c_shr_def)

lemma c_shr_uint: "c_shr x (uint (n :: 'a::len word)) =
    (if unat n < 32 then Ret (drop_bit (unat n) x) else Undef)"
  using nat_less_iff [of "uint n" 32] by (simp add: c_shr_def)

lemma c_shl_uint: "c_shl x (uint (n :: 'a::len word)) =
    (if unat n < 32 then Ret (push_bit (unat n) x) else Undef)"
  using nat_less_iff [of "uint n" 32] by (simp add: c_shl_def)

lemma c_shl_32_minus: "c_shl x (32 - uint (n :: 'a::len word)) =
    (if 0 < unat n \<and> unat n \<le> 32 then Ret (push_bit (32 - unat n) x) else Undef)"
  using zless_nat_eq_int_zless [of 0 "uint n"] nat_less_iff [of "uint n" 33]
  by (auto simp: c_shl_def nat_diff_distrib')

section \<open>Words\<close>

lemma word_and_1_eq: "(x :: 'a::len word) AND 1 = of_bool (bit x 0)"
  by (simp add: and_one_eq mod_2_eq_odd bit_0)

lemma of_bool_word_eq_1 [simp]: "(of_bool b :: 'a::len word) = 1 \<longleftrightarrow> b"
  by (cases b) simp_all

lemma of_bool_word_eq_0 [simp]: "(of_bool b :: 'a::len word) = 0 \<longleftrightarrow> \<not> b"
  by (cases b) simp_all

lemma u32_msb_sint: "bit (x :: u32) 31 \<longleftrightarrow> sint x < 0"
  using bit_last_iff [of x] by simp

lemma u32_msb_unat: "bit (x :: u32) 31 \<longleftrightarrow> 2 ^ 31 \<le> unat x"
proof -
  have "unat x < 2 ^ 32" using unsigned_less [of x] by simp
  then have "unat x div 2 ^ 31 < 2" by (simp add: less_mult_imp_div_less)
  then have "odd (unat x div 2 ^ 31) \<longleftrightarrow> 2 ^ 31 \<le> unat x"
    by (cases "unat x < 2 ^ 31") (auto simp: not_less div_greater_zero_iff
        dest!: less_2_cases)
  moreover have "bit x 31 \<longleftrightarrow> bit (unat x) 31"
    by (simp add: bit_unsigned_iff)
  ultimately show ?thesis by (simp add: bit_iff_odd)
qed

lemma mod_square: "y < m \<Longrightarrow> (x * m + y) mod (m * m) = (x mod m) * m + (y :: nat)"
  by (simp add: mod_mult2_eq)

end
