(* ===== verification/Util.thy ===== *)
theory Util
  imports C_Prelude
begin

text \<open>
  The bit macros of \<^verbatim>\<open>util.h\<close> and the functions of \<^verbatim>\<open>util.c\<close>: single bits and bit fields,
  byte reversal, arithmetic shift and rotation, the host's byte order, and the condition field of
  an instruction. The macro parameters are the bit positions the code passes, all constants below
  32. The lemmas say what each macro computes in terms of \<open>bit\<close>, and where \<open>asr\<close> and \<open>ror\<close> are
  defined.
\<close>

section \<open>The macros of util.h\<close>

definition get_bit :: "u32 \<Rightarrow> nat \<Rightarrow> u32" where
  "get_bit x i = drop_bit i x AND 1"

definition set_bit_c :: "u32 \<Rightarrow> nat \<Rightarrow> u32" where
  "set_bit_c x i = x OR push_bit i 1"

definition clr_bit :: "u32 \<Rightarrow> nat \<Rightarrow> u32" where
  "clr_bit x i = x AND NOT (push_bit i 1)"

definition get_bits :: "u32 \<Rightarrow> nat \<Rightarrow> nat \<Rightarrow> u32" where
  "get_bits x h l =
     drop_bit l x AND NOT (push_bit (h - l + 1) (signed_drop_bit (h - l + 1) (NOT 0)))"

definition set_bits_c :: "u32 \<Rightarrow> nat \<Rightarrow> nat \<Rightarrow> u32 \<Rightarrow> u32" where
  "set_bits_c x h l bits =
     ((x AND NOT (push_bit l (signed_drop_bit l (NOT 0)))) OR
      (x AND push_bit (h + 1) (signed_drop_bit (h + 1) (NOT 0)))) OR
     push_bit l bits"

definition reverse_2 :: "u16 \<Rightarrow> u16" where
  "reverse_2 x = push_bit 8 (x AND 0xFF) OR (drop_bit 8 x AND 0xFF)"

definition reverse_4 :: "u32 \<Rightarrow> u32" where
  "reverse_4 x =
     push_bit 24 (x AND 0xFF) OR push_bit 16 (drop_bit 8 x AND 0xFF) OR
     push_bit 8 (drop_bit 16 x AND 0xFF) OR (drop_bit 24 x AND 0xFF)"

section \<open>Shifts and rotations of util.c\<close>

text \<open>The second operand of \<open>|\<close> in \<^verbatim>\<open>asr\<close> is evaluated only when bit 31 is set.\<close>

definition asr :: "u32 \<Rightarrow> u8 \<Rightarrow> u32 cres" where
  "asr value shift =
     cbind (c_shr value (uint shift)) (\<lambda>lo.
       cbind (if get_bit value 31 \<noteq> 0 then c_shl (NOT 0) (32 - uint shift) else Ret 0) (\<lambda>hi.
         Ret (lo OR hi)))"

definition ror :: "u32 \<Rightarrow> u8 \<Rightarrow> u32 cres" where
  "ror value rotation =
     cbind (c_shr value (uint rotation)) (\<lambda>lo.
       cbind (c_shl value (32 - uint rotation)) (\<lambda>hi. Ret (lo OR hi)))"

section \<open>Byte order of the host\<close>

text \<open>
  \<^verbatim>\<open>is_big_endian\<close> looks at the first byte of the object representation of \<^verbatim>\<open>1\<close>. The
  representation of an integer in the host's memory is \<open>bytes_of_u32\<close> and \<open>bytes_of_u16\<close>, for
  either kind of host.
\<close>

datatype host = LittleEndianHost | BigEndianHost

definition bytes_of_u32 :: "host \<Rightarrow> u32 \<Rightarrow> u8 list" where
  "bytes_of_u32 h v =
     (let le = [ucast v, ucast (drop_bit 8 v), ucast (drop_bit 16 v), ucast (drop_bit 24 v)]
      in case h of LittleEndianHost \<Rightarrow> le | BigEndianHost \<Rightarrow> rev le)"

definition bytes_of_u16 :: "host \<Rightarrow> u16 \<Rightarrow> u8 list" where
  "bytes_of_u16 h v =
     (let le = [ucast v, ucast (drop_bit 8 v)]
      in case h of LittleEndianHost \<Rightarrow> le | BigEndianHost \<Rightarrow> rev le)"

fun u32_of_le :: "u8 list \<Rightarrow> u32" where
  "u32_of_le [] = 0"
| "u32_of_le (b # bs) = ucast b OR push_bit 8 (u32_of_le bs)"

fun u16_of_le :: "u8 list \<Rightarrow> u16" where
  "u16_of_le [] = 0"
| "u16_of_le (b # bs) = ucast b OR push_bit 8 (u16_of_le bs)"

definition u32_of_bytes :: "host \<Rightarrow> u8 list \<Rightarrow> u32" where
  "u32_of_bytes h bs = u32_of_le (case h of LittleEndianHost \<Rightarrow> bs | BigEndianHost \<Rightarrow> rev bs)"

definition u16_of_bytes :: "host \<Rightarrow> u8 list \<Rightarrow> u16" where
  "u16_of_bytes h bs = u16_of_le (case h of LittleEndianHost \<Rightarrow> bs | BigEndianHost \<Rightarrow> rev bs)"

definition is_big_endian :: "host \<Rightarrow> int" where
  "is_big_endian h = (if hd (bytes_of_u32 h 1) = 0 then 1 else 0)"

section \<open>Condition field\<close>

datatype cond = EQ | NE | CS_HS | CC_LO | MI | PL | VS | VC | HI | LS | GE | LT | GT | LE | AL

text \<open>
  The enumeration has fifteen constants. The value 15 of the field is none of them (\<open>None\<close>) and
  reaches the \<^verbatim>\<open>default\<close> branch of \<^verbatim>\<open>ConditionPassed\<close>.
\<close>

definition cond_of_nat :: "nat \<Rightarrow> cond option" where
  "cond_of_nat n =
     (let cs = [EQ, NE, CS_HS, CC_LO, MI, PL, VS, VC, HI, LS, GE, LT, GT, LE, AL]
      in if n < length cs then Some (cs ! n) else None)"

definition arm_get_cond :: "u32 \<Rightarrow> cond option" where
  "arm_get_cond ins = (let val = ucast (drop_bit 28 (ins AND 0xf0000000)) :: u8
                       in cond_of_nat (unat val))"

abbreviation (input) "N_bit \<equiv> 31 :: nat"
abbreviation (input) "Z_bit \<equiv> 30 :: nat"
abbreviation (input) "C_bit \<equiv> 29 :: nat"
abbreviation (input) "V_bit \<equiv> 28 :: nat"
abbreviation (input) "T_bit \<equiv> 5 :: nat"

definition ConditionPassed :: "u32 \<Rightarrow> u32 \<Rightarrow> bool" where
  "ConditionPassed cpsr ins =
     (case arm_get_cond ins of
        Some EQ \<Rightarrow> get_bit cpsr Z_bit \<noteq> 0
      | Some NE \<Rightarrow> \<not> get_bit cpsr Z_bit \<noteq> 0
      | Some CS_HS \<Rightarrow> get_bit cpsr C_bit \<noteq> 0
      | Some CC_LO \<Rightarrow> \<not> get_bit cpsr C_bit \<noteq> 0
      | Some MI \<Rightarrow> get_bit cpsr N_bit \<noteq> 0
      | Some PL \<Rightarrow> \<not> get_bit cpsr N_bit \<noteq> 0
      | Some VS \<Rightarrow> get_bit cpsr V_bit \<noteq> 0
      | Some VC \<Rightarrow> \<not> get_bit cpsr V_bit \<noteq> 0
      | Some HI \<Rightarrow> get_bit cpsr C_bit \<noteq> 0 \<and> \<not> get_bit cpsr Z_bit \<noteq> 0
      | Some LS \<Rightarrow> \<not> get_bit cpsr C_bit \<noteq> 0 \<or> get_bit cpsr Z_bit \<noteq> 0
      | Some GE \<Rightarrow> get_bit cpsr N_bit = get_bit cpsr V_bit
      | Some LT \<Rightarrow> get_bit cpsr N_bit \<noteq> get_bit cpsr V_bit
      | Some GT \<Rightarrow> \<not> get_bit cpsr Z_bit \<noteq> 0 \<and> get_bit cpsr N_bit = get_bit cpsr V_bit
      | Some LE \<Rightarrow> get_bit cpsr Z_bit \<noteq> 0 \<or> get_bit cpsr N_bit \<noteq> get_bit cpsr V_bit
      | Some AL \<Rightarrow> True
      | None \<Rightarrow> False)"

section \<open>What the macros compute\<close>

lemma get_bit_eq [simp]: "get_bit x i = of_bool (bit x i)"
  by (simp add: get_bit_def word_and_1_eq bit_drop_bit_eq)

lemma bit_set_bit_c [simp]: "bit (set_bit_c x i) n \<longleftrightarrow> bit x n \<or> n = i \<and> i < 32"
  by (auto simp: set_bit_c_def bit_simps)

lemma bit_clr_bit [simp]: "bit (clr_bit x i) n \<longleftrightarrow> bit x n \<and> n \<noteq> i"
  by (auto simp: clr_bit_def bit_simps dest: bit_imp_le_length)

lemma get_bits_eq: "get_bits x h l = take_bit (h - l + 1) (drop_bit l x)"
  by (rule bit_word_eqI) (auto simp: get_bits_def bit_simps)

lemma bit_get_bits [simp]: "bit (get_bits x h l) n \<longleftrightarrow> n < h - l + 1 \<and> bit x (l + n)"
  by (simp add: get_bits_eq bit_take_bit_iff bit_drop_bit_eq)

lemma unat_get_bits: "unat (get_bits x h l) = unat x div 2 ^ l mod 2 ^ (h - l + 1)"
  unfolding get_bits_eq unsigned_take_bit_eq unat_drop_bit_eq
  by (simp only: take_bit_eq_mod drop_bit_eq_div)

lemma unat_get_bits_less: "unat (get_bits x h l) < 2 ^ (h - l + 1)"
  by (simp add: unat_get_bits)

lemma bit_set_bits_c:
  assumes "l \<le> h" and "h < 31" and "take_bit (h - l + 1) bits = bits"
  shows "bit (set_bits_c x h l bits) n \<longleftrightarrow>
    (if l \<le> n \<and> n \<le> h then bit bits (n - l) else bit x n)"
proof -
  have "\<not> bit bits m" if "h - l + 1 \<le> m" for m
    using assms(3) that bit_take_bit_iff [of "h - l + 1" bits m] by simp
  then have "\<not> bit bits (n - l)" if "h < n" using assms(1) that by simp
  then show ?thesis
    using assms(1,2) by (auto simp: set_bits_c_def bit_simps not_le dest: bit_imp_le_length)
qed

section \<open>Where the shifts are defined and what they compute\<close>

lemma uint_u8_less: "uint (n :: u8) < 256"
  using unsigned_less [of n, where 'a = int] by simp

lemma asr_Undef_iff: "asr value shift = Undef \<longleftrightarrow> 32 \<le> unat shift \<or> shift = 0 \<and> bit value 31"
  by (auto simp: asr_def c_shr_uint c_shl_32_minus unat_eq_zero)

lemma ror_Undef_iff: "ror value rotation = Undef \<longleftrightarrow> rotation = 0 \<or> 32 \<le> unat rotation"
  by (auto simp: ror_def c_shr_uint c_shl_32_minus unat_eq_zero)

lemma asr_not_Exit [simp]: "asr value shift \<noteq> Exit"
  by (simp add: asr_def c_shr_def c_shl_def)

lemma ror_not_Exit [simp]: "ror value rotation \<noteq> Exit"
  by (simp add: ror_def c_shr_def c_shl_def)

lemma asr_Ret:
  assumes "0 < unat shift" and "unat shift < 32"
  shows "asr value shift = Ret (signed_drop_bit (unat shift) value)"
proof -
  have "drop_bit (unat shift) value OR push_bit (32 - unat shift) (- 1) =
      signed_drop_bit (unat shift) value" if "bit value 31"
    using that assms by (intro bit_word_eqI) (auto simp: bit_simps)
  moreover have "drop_bit (unat shift) value = signed_drop_bit (unat shift) value"
    if "\<not> bit value 31"
    using that assms by (intro bit_word_eqI) (auto simp: bit_simps dest: bit_imp_le_length)
  ultimately show ?thesis using assms by (simp add: asr_def c_shr_uint c_shl_32_minus)
qed

lemma or_shifts_eq_rotr:
  assumes "0 < k" and "k < 32"
  shows "drop_bit k value OR push_bit (32 - k) value = word_rotr k (value :: u32)"
proof (rule bit_word_eqI)
  fix n assume "n < LENGTH(32)"
  then have n: "n < 32" by simp
  show "bit (drop_bit k value OR push_bit (32 - k) value) n = bit (word_rotr k value) n"
  proof (cases "n + k < 32")
    case True
    then show ?thesis using n assms by (auto simp: bit_simps add.commute)
  next
    case False
    then have "(n + k) mod 32 = n + k - 32" using n assms by (simp add: mod_if)
    then show ?thesis using n assms False
      by (auto simp: bit_simps not_less add.commute dest: bit_imp_le_length)
  qed
qed

lemma ror_Ret:
  assumes "0 < unat rotation" and "unat rotation < 32"
  shows "ror value rotation = Ret (word_rotr (unat rotation) value)"
  using assms or_shifts_eq_rotr [OF assms] by (simp add: ror_def c_shr_uint c_shl_32_minus)

section \<open>Byte order\<close>

lemma is_big_endian_simps [simp]:
  "is_big_endian LittleEndianHost = 0"
  "is_big_endian BigEndianHost = 1"
  by (simp_all add: is_big_endian_def bytes_of_u32_def)

lemma length_bytes_of_u32 [simp]: "length (bytes_of_u32 h v) = 4"
  by (cases h) (simp_all add: bytes_of_u32_def)

lemma length_bytes_of_u16 [simp]: "length (bytes_of_u16 h v) = 2"
  by (cases h) (simp_all add: bytes_of_u16_def)

lemma length_4_E:
  assumes "length xs = 4"
  obtains a b c d where "xs = [a, b, c, d]"
  using assms by (auto simp: numeral_eq_Suc length_Suc_conv)

lemma length_2_E:
  assumes "length xs = 2"
  obtains a b where "xs = [a, b]"
  using assms by (auto simp: numeral_eq_Suc length_Suc_conv)

lemma bit_u32_of_le_4:
  "bit (u32_of_le [a, b, c, d]) n \<longleftrightarrow>
     (if n < 8 then bit a n else if n < 16 then bit b (n - 8)
      else if n < 24 then bit c (n - 16) else n < 32 \<and> bit d (n - 24))"
  by (auto simp: bit_simps not_less dest: bit_imp_le_length)

lemma bit_u16_of_le_2:
  "bit (u16_of_le [a, b]) n \<longleftrightarrow> (if n < 8 then bit a n else n < 16 \<and> bit b (n - 8))"
  by (auto simp: bit_simps not_less dest: bit_imp_le_length)

lemma bytes_of_u32_of_le:
  "length bs = 4 \<Longrightarrow> bytes_of_u32 LittleEndianHost (u32_of_le bs) = bs"
  by (elim length_4_E)
    (auto simp: bytes_of_u32_def bit_simps bit_u32_of_le_4 simp del: u32_of_le.simps
      intro!: bit_word_eqI)

lemma u32_of_le_bytes_of: "u32_of_le (bytes_of_u32 LittleEndianHost v) = v"
  by (rule bit_word_eqI)
    (auto simp: bytes_of_u32_def bit_u32_of_le_4 bit_simps simp del: u32_of_le.simps)

lemma bytes_of_u16_of_le:
  "length bs = 2 \<Longrightarrow> bytes_of_u16 LittleEndianHost (u16_of_le bs) = bs"
  by (elim length_2_E)
    (auto simp: bytes_of_u16_def bit_simps bit_u16_of_le_2 simp del: u16_of_le.simps
      intro!: bit_word_eqI)

lemma u16_of_le_bytes_of: "u16_of_le (bytes_of_u16 LittleEndianHost v) = v"
  by (rule bit_word_eqI)
    (auto simp: bytes_of_u16_def bit_u16_of_le_2 bit_simps simp del: u16_of_le.simps)

lemma reverse_4_of_le: "length bs = 4 \<Longrightarrow> reverse_4 (u32_of_le bs) = u32_of_le (rev bs)"
proof (elim length_4_E)
  fix a b c d :: u8 assume bs: "bs = [a, b, c, d]"
  have ff: "(0xFF :: u32) = mask 8" by (simp add: mask_eq_exp_minus_1)
  show ?thesis unfolding bs rev.simps append.simps
  proof (rule bit_word_eqI)
    fix n assume "n < LENGTH(32)"
    then show "bit (reverse_4 (u32_of_le [a, b, c, d])) n = bit (u32_of_le [d, c, b, a]) n"
      unfolding reverse_4_def ff
      by (auto simp: bit_simps bit_u32_of_le_4 simp del: u32_of_le.simps dest: bit_imp_le_length)
  qed
qed

lemma reverse_2_of_le: "length bs = 2 \<Longrightarrow> reverse_2 (u16_of_le bs) = u16_of_le (rev bs)"
proof (elim length_2_E)
  fix a b :: u8 assume bs: "bs = [a, b]"
  have ff: "(0xFF :: u16) = mask 8" by (simp add: mask_eq_exp_minus_1)
  show ?thesis unfolding bs rev.simps append.simps
  proof (rule bit_word_eqI)
    fix n assume "n < LENGTH(16)"
    then show "bit (reverse_2 (u16_of_le [a, b])) n = bit (u16_of_le [b, a]) n"
      unfolding reverse_2_def ff
      by (auto simp: bit_simps bit_u16_of_le_2 simp del: u16_of_le.simps dest: bit_imp_le_length)
  qed
qed

section \<open>Conditions\<close>

lemma u32_nibble_less: "unat (drop_bit 28 (ins :: u32)) < 16"
  using unsigned_less [of ins, where 'a = nat] unfolding unat_drop_bit_eq
  by (simp only: drop_bit_eq_div) (simp add: less_mult_imp_div_less)

lemma arm_get_cond_eq: "arm_get_cond ins = cond_of_nat (unat (drop_bit 28 ins))"
proof -
  have m: "(0xf0000000 :: u32) = push_bit 28 (mask 4)"
    by (simp add: mask_eq_exp_minus_1 push_bit_eq_mult)
  have "drop_bit 28 (ins AND 0xf0000000) = drop_bit 28 ins"
    unfolding m by (rule bit_word_eqI) (auto simp: bit_simps dest: bit_imp_le_length)
  then show ?thesis
    using u32_nibble_less [of ins]
    by (simp add: arm_get_cond_def unsigned_ucast_eq take_bit_eq_mod)
qed

lemma less_16_cases: "(n :: nat) < 16 \<Longrightarrow>
    n \<in> {0, 1, 2, 3, 4, 5, 6, 7, 8, 9, 10, 11, 12, 13, 14, 15}"
  by (simp, arith)

lemma cond_of_nat_simps [simp]:
  "cond_of_nat 0 = Some EQ" "cond_of_nat (Suc 0) = Some NE" "cond_of_nat 1 = Some NE"
  "cond_of_nat 2 = Some CS_HS" "cond_of_nat 3 = Some CC_LO" "cond_of_nat 4 = Some MI"
  "cond_of_nat 5 = Some PL" "cond_of_nat 6 = Some VS" "cond_of_nat 7 = Some VC"
  "cond_of_nat 8 = Some HI" "cond_of_nat 9 = Some LS" "cond_of_nat 10 = Some GE"
  "cond_of_nat 11 = Some LT" "cond_of_nat 12 = Some GT" "cond_of_nat 13 = Some LE"
  "cond_of_nat 14 = Some AL" "cond_of_nat 15 = None"
  by (simp_all add: cond_of_nat_def Let_def)

text \<open>The field as a number, for instructions given by their encoding.\<close>

definition condition_field :: "u32 \<Rightarrow> nat" where
  "condition_field ins = unat (drop_bit 28 ins)"

lemma condition_field_less: "condition_field ins < 16"
  by (simp add: condition_field_def u32_nibble_less)

lemma ConditionPassed_cases:
  "condition_field ins = 14 \<Longrightarrow> ConditionPassed cpsr ins"
  "condition_field ins = 15 \<Longrightarrow> \<not> ConditionPassed cpsr ins"
  "condition_field ins = 10 \<Longrightarrow> ConditionPassed cpsr ins \<longleftrightarrow> bit cpsr 31 = bit cpsr 28"
  "condition_field ins = 11 \<Longrightarrow> ConditionPassed cpsr ins \<longleftrightarrow> bit cpsr 31 \<noteq> bit cpsr 28"
  by (simp_all add: ConditionPassed_def arm_get_cond_eq condition_field_def)

text \<open>
  Fact: conditions come in pairs. For every code below 14 the code with its lowest bit
  flipped passes exactly when the code itself does not, in every state of the flags.
\<close>

theorem condition_complement:
  assumes "condition_field ins < 14"
    and "condition_field ins' = (if even (condition_field ins) then condition_field ins + 1
                                 else condition_field ins - 1)"
  shows "ConditionPassed cpsr ins' \<longleftrightarrow> \<not> ConditionPassed cpsr ins"
proof -
  define n where "n = condition_field ins"
  have "n \<in> {0, 1, 2, 3, 4, 5, 6, 7, 8, 9, 10, 11, 12, 13}"
    using assms(1) less_16_cases [of n] unfolding n_def by auto
  with assms(2) show ?thesis
    unfolding ConditionPassed_def arm_get_cond_eq n_def [symmetric] condition_field_def [symmetric]
    by (elim insertE emptyE) auto
qed

theorem condition_complement_witness:
  "ConditionPassed 0x40000000 0x0A000000 \<longleftrightarrow> \<not> ConditionPassed 0x40000000 0x1A000000"
  using condition_complement [of "0x1A000000" "0x0A000000" "0x40000000"]
  by (simp add: condition_field_def unat_drop_bit_eq drop_bit_eq_div)

text \<open>
  Fact: where \<^verbatim>\<open>asr\<close> and \<^verbatim>\<open>ror\<close> are defined and what they compute: for the counts 1 to 31
  they are the arithmetic shift of the signed value and the rotation to the right, and the only
  other defined case is an arithmetic shift by 0 of a value that is not negative.
\<close>

theorem asr_ror_total:
  "asr x n =
     (if 0 < unat n \<and> unat n < 32 then Ret (signed_drop_bit (unat n) x)
      else if n = 0 \<and> 0 \<le> sint x then Ret x else Undef) \<and>
   ror x n = (if 0 < unat n \<and> unat n < 32 then Ret (word_rotr (unat n) x) else Undef)"
proof
  show "ror x n = (if 0 < unat n \<and> unat n < 32 then Ret (word_rotr (unat n) x) else Undef)"
    using ror_Ret [of n x] ror_Undef_iff [of x n] by (auto simp: unat_gt_0)
next
  have "asr x 0 = Ret x" if "\<not> bit x 31"
    using that by (simp add: asr_def c_shr_def)
  then show "asr x n =
     (if 0 < unat n \<and> unat n < 32 then Ret (signed_drop_bit (unat n) x)
      else if n = 0 \<and> 0 \<le> sint x then Ret x else Undef)"
    using asr_Ret [of n x] asr_Undef_iff [of x n] u32_msb_sint [of x]
    by (auto simp: unat_gt_0 not_less)
qed

end
