(* ===== verification/Memory.thy ===== *)
theory Memory
  imports Util
begin

text \<open>
  The simulated memory of \<^verbatim>\<open>memory.c\<close>: a block of bytes with a size and a byte order, read and
  written by bytes, half-words and words. Every operation takes the host, because the code reads
  the block through \<^verbatim>\<open>uint16_t*\<close> and \<^verbatim>\<open>uint32_t*\<close> pointers and reverses the bytes when the host's
  order is not the simulated one. A read returns \<open>None\<close> for the status \<^verbatim>\<open>-1\<close>, which leaves the
  caller's variable alone; a write returns the status and the memory. An access outside the block,
  which the code's tests exclude only for the first byte, is \<open>Undef\<close>.

  The lemmas show that in a well-formed memory (a whole number of words) no access is undefined,
  what each access does on every branch, that the result does not depend on the host, and the
  laws of the interface \<open>mem_port\<close> that the processor relies on.
\<close>

section \<open>Data\<close>

record memory_data =
  mem_size :: nat
  mem_is_big_endian :: int
  mem_data :: "u8 list"

text \<open>\<^verbatim>\<open>malloc\<close> leaves the block's contents open: \<open>junk\<close> is whatever it holds.\<close>

definition memory_create :: "(nat \<Rightarrow> u8) \<Rightarrow> nat \<Rightarrow> int \<Rightarrow> memory_data" where
  "memory_create junk sz is_be =
     \<lparr>mem_size = sz, mem_is_big_endian = is_be, mem_data = map junk [0..<sz]\<rparr>"

definition memory_get_size :: "memory_data \<Rightarrow> nat" where
  "memory_get_size m = mem_size m"

definition load_bytes :: "memory_data \<Rightarrow> nat \<Rightarrow> nat \<Rightarrow> u8 list cres" where
  "load_bytes m i n =
     (if i + n \<le> length (mem_data m) then Ret (take n (drop i (mem_data m))) else Undef)"

definition store_byte :: "memory_data \<Rightarrow> nat \<Rightarrow> u8 \<Rightarrow> memory_data cres" where
  "store_byte m i b =
     (if i < length (mem_data m) then Ret (m\<lparr>mem_data := (mem_data m)[i := b]\<rparr>) else Undef)"

text \<open>The loops of the half-word and word writes: \<^verbatim>\<open>mem->data[address+i]\<close> for each byte.\<close>

fun store_bytes :: "memory_data \<Rightarrow> u32 \<Rightarrow> u8 list \<Rightarrow> memory_data cres" where
  "store_bytes m address [] = Ret m"
| "store_bytes m address (b # bs) =
     cbind (store_byte m (unat address) b) (\<lambda>m'. store_bytes m' (address + 1) bs)"

section \<open>Operations\<close>

definition memory_read_byte :: "memory_data \<Rightarrow> u32 \<Rightarrow> u8 option cres" where
  "memory_read_byte m address =
     (if memory_get_size m \<le> unat address then Ret None
      else cbind (load_bytes m (unat address) 1) (\<lambda>bs. Ret (Some (hd bs))))"

definition memory_read_half :: "host \<Rightarrow> memory_data \<Rightarrow> u32 \<Rightarrow> u16 option cres" where
  "memory_read_half h m address =
     (if memory_get_size m \<le> unat address then Ret None
      else if address mod 2 \<noteq> 0 then Ret None
      else cbind (load_bytes m (unat address) 2) (\<lambda>bs.
        let value = u16_of_bytes h bs in
        Ret (Some (if is_big_endian h \<noteq> mem_is_big_endian m then reverse_2 value else value))))"

definition memory_read_word :: "host \<Rightarrow> memory_data \<Rightarrow> u32 \<Rightarrow> u32 option cres" where
  "memory_read_word h m address =
     (if memory_get_size m \<le> unat address then Ret None
      else if address mod 4 \<noteq> 0 then Ret None
      else cbind (load_bytes m (unat address) 4) (\<lambda>bs.
        let value = u32_of_bytes h bs in
        Ret (Some (if is_big_endian h \<noteq> mem_is_big_endian m then reverse_4 value else value))))"

definition memory_write_byte :: "memory_data \<Rightarrow> u32 \<Rightarrow> u8 \<Rightarrow> (int \<times> memory_data) cres" where
  "memory_write_byte m address value =
     (if memory_get_size m \<le> unat address then Ret (- 1, m)
      else cbind (store_byte m (unat address) value) (\<lambda>m'. Ret (0, m')))"

definition memory_write_half ::
    "host \<Rightarrow> memory_data \<Rightarrow> u32 \<Rightarrow> u16 \<Rightarrow> (int \<times> memory_data) cres" where
  "memory_write_half h m address value =
     (if memory_get_size m \<le> unat address then Ret (- 1, m)
      else if address mod 2 \<noteq> 0 then Ret (- 1, m)
      else let value = (if is_big_endian h \<noteq> mem_is_big_endian m then reverse_2 value else value)
           in cbind (store_bytes m address (bytes_of_u16 h value)) (\<lambda>m'. Ret (0, m')))"

definition memory_write_word ::
    "host \<Rightarrow> memory_data \<Rightarrow> u32 \<Rightarrow> u32 \<Rightarrow> (int \<times> memory_data) cres" where
  "memory_write_word h m address value =
     (if memory_get_size m \<le> unat address then Ret (- 1, m)
      else if address mod 4 \<noteq> 0 then Ret (- 1, m)
      else let value = (if is_big_endian h \<noteq> mem_is_big_endian m then reverse_4 value else value)
           in cbind (store_bytes m address (bytes_of_u32 h value)) (\<lambda>m'. Ret (0, m')))"

section \<open>Well-formed memories\<close>

definition mem_wf :: "memory_data \<Rightarrow> bool" where
  "mem_wf m \<longleftrightarrow> length (mem_data m) = mem_size m \<and> mem_size m mod 4 = 0 \<and>
     (mem_is_big_endian m = 0 \<or> mem_is_big_endian m = 1)"

lemma memory_create_wf: "sz mod 4 = 0 \<Longrightarrow> be = 0 \<or> be = 1 \<Longrightarrow> mem_wf (memory_create junk sz be)"
  by (simp add: mem_wf_def memory_create_def)

text \<open>The bytes of a block in the simulated order, least significant first.\<close>

definition in_order :: "memory_data \<Rightarrow> 'a list \<Rightarrow> 'a list" where
  "in_order m bs = (if mem_is_big_endian m = 1 then rev bs else bs)"

definition put_bytes :: "memory_data \<Rightarrow> nat \<Rightarrow> u8 list \<Rightarrow> memory_data" where
  "put_bytes m i bs =
     m\<lparr>mem_data := take i (mem_data m) @ bs @ drop (i + length bs) (mem_data m)\<rparr>"

definition peek :: "memory_data \<Rightarrow> nat \<Rightarrow> nat \<Rightarrow> u8 list" where
  "peek m i n = in_order m (take n (drop i (mem_data m)))"

definition aligned :: "nat \<Rightarrow> memory_data \<Rightarrow> u32 \<Rightarrow> bool" where
  "aligned n m a \<longleftrightarrow> unat a < mem_size m \<and> unat a mod n = 0"

lemma put_bytes_sel [simp]:
  "mem_size (put_bytes m i bs) = mem_size m"
  "mem_is_big_endian (put_bytes m i bs) = mem_is_big_endian m"
  by (simp_all add: put_bytes_def)

lemma aligned_put_bytes [simp]: "aligned n (put_bytes m i bs) = aligned n m"
  by (simp add: aligned_def fun_eq_iff)

lemma put_bytes_wf [wf_intros]:
  "mem_wf m \<Longrightarrow> i + length bs \<le> mem_size m \<Longrightarrow> mem_wf (put_bytes m i bs)"
  by (auto simp: mem_wf_def put_bytes_def)

lemma in_order_simps [simp]:
  "length (in_order m bs) = length bs"
  "in_order m (in_order m bs) = bs"
  "in_order (put_bytes m i cs) bs = in_order m bs"
  by (simp_all add: in_order_def)

lemma peek_put_same:
  assumes "i + length bs \<le> length (mem_data m)"
  shows "peek (put_bytes m i bs) i (length bs) = in_order m bs"
  using assms by (simp add: peek_def put_bytes_def in_order_def)

lemma nth_put_bytes:
  assumes "i + length bs \<le> length (mem_data m)" and "j < length (mem_data m)"
  shows "mem_data (put_bytes m i bs) ! j =
    (if i \<le> j \<and> j < i + length bs then bs ! (j - i) else mem_data m ! j)"
  using assms by (auto simp: put_bytes_def nth_append)

lemma length_put_bytes [simp]:
  "i + length bs \<le> length (mem_data m) \<Longrightarrow>
    length (mem_data (put_bytes m i bs)) = length (mem_data m)"
  by (simp add: put_bytes_def)

lemma peek_put_other:
  assumes "i + length bs \<le> length (mem_data m)" and "j + n \<le> length (mem_data m)"
    and "j + n \<le> i \<or> i + length bs \<le> j"
  shows "peek (put_bytes m i bs) j n = peek m j n"
proof -
  have "take n (drop j (mem_data (put_bytes m i bs))) = take n (drop j (mem_data m))"
    using assms by (intro nth_equalityI) (auto simp: nth_put_bytes)
  then show ?thesis by (simp add: peek_def in_order_def)
qed

text \<open>The byte loop writes the block in one piece.\<close>

lemma store_bytes_Ret:
  "unat a + length bs \<le> length (mem_data m) \<Longrightarrow> unat a + length bs \<le> 2 ^ 32 \<Longrightarrow>
    store_bytes m a bs = Ret (put_bytes m (unat a) bs)"
proof (induction bs arbitrary: m a)
  case Nil
  then show ?case by (simp add: put_bytes_def)
next
  case (Cons b bs)
  let ?m = "m\<lparr>mem_data := (mem_data m)[unat a := b]\<rparr>"
  show ?case
  proof (cases "bs = []")
    case True
    with Cons.prems show ?thesis
      by (simp add: store_byte_def put_bytes_def upd_conv_take_nth_drop)
  next
    case False
    with Cons.prems have a: "unat (a + 1) = Suc (unat a)"
      by (cases bs) (auto simp: unat_word_ariths)
    then have "store_bytes ?m (a + 1) bs = Ret (put_bytes ?m (Suc (unat a)) bs)"
      using Cons.prems by (subst Cons.IH) simp_all
    with Cons.prems show ?thesis
      by (simp add: store_byte_def put_bytes_def upd_conv_take_nth_drop take_Suc_conv_app_nth
          add.commute)
  qed
qed

section \<open>What each access does in a well-formed memory\<close>

lemma unat_mod_numeral [simp]: "unat (a mod numeral k :: u32) = unat a mod unat (numeral k :: u32)"
  by (simp add: unat_mod_distrib)

lemma u32_mod_eq_0: "(a :: u32) mod 4 = 0 \<longleftrightarrow> unat a mod 4 = 0" "a mod 2 = 0 \<longleftrightarrow> unat a mod 2 = 0"
  by (simp_all add: unat_eq_0 [symmetric] unat_mod_distrib)

lemma multiple_fits:
  fixes i n s :: nat
  assumes "i < s" and "i mod n = 0" and "s mod n = 0"
  shows "i + n \<le> s"
proof -
  obtain k l where "i = n * k" "s = n * l" using assms(2,3) by (auto simp: mod_eq_0_iff_dvd elim!: dvdE)
  with assms(1) have "n * Suc k \<le> n * l" by (intro mult_le_mono2) simp
  with \<open>i = n * k\<close> \<open>s = n * l\<close> show ?thesis by simp
qed

lemma mem_wf_size_mod: "mem_wf m \<Longrightarrow> n = 1 \<or> n = 2 \<or> n = 4 \<Longrightarrow> mem_size m mod n = 0"
  by (auto simp: mem_wf_def mod_eq_0_iff_dvd intro: dvd_trans [of 2 4])

lemma aligned_le:
  assumes "mem_wf m" and "aligned n m a" and "n = 1 \<or> n = 2 \<or> n = 4"
  shows "unat a + n \<le> mem_size m" and "unat a + n \<le> 2 ^ 32"
proof -
  have a: "unat a < mem_size m" "unat a mod n = 0" "unat a < 2 ^ 32"
    using assms(2) unsigned_less [of a] by (simp_all add: aligned_def)
  have "(2 :: nat) ^ 32 mod n = 0" using assms(3) by auto
  with a show "unat a + n \<le> 2 ^ 32" by (intro multiple_fits)
  from a mem_wf_size_mod [OF assms(1,3)] show "unat a + n \<le> mem_size m"
    by (intro multiple_fits)
qed

lemma load_bytes_Ret: "i + n \<le> length (mem_data m) \<Longrightarrow> load_bytes m i n = Ret (in_order m (peek m i n))"
  by (simp add: load_bytes_def peek_def)

lemma length_peek: "i + n \<le> length (mem_data m) \<Longrightarrow> length (peek m i n) = n"
  by (simp add: peek_def)

text \<open>The choice between reading and reversing, by host and memory order, is the memory's order.\<close>

lemma ordered_u32:
  assumes "mem_wf m" and "length bs = 4"
  shows "(if is_big_endian h \<noteq> mem_is_big_endian m then reverse_4 (u32_of_bytes h (in_order m bs))
          else u32_of_bytes h (in_order m bs)) = u32_of_le bs"
  using assms
  by (cases h) (auto simp: mem_wf_def in_order_def u32_of_bytes_def reverse_4_of_le)

lemma ordered_u16:
  assumes "mem_wf m" and "length bs = 2"
  shows "(if is_big_endian h \<noteq> mem_is_big_endian m then reverse_2 (u16_of_bytes h (in_order m bs))
          else u16_of_bytes h (in_order m bs)) = u16_of_le bs"
  using assms
  by (cases h) (auto simp: mem_wf_def in_order_def u16_of_bytes_def reverse_2_of_le)

lemma ordered_bytes_u32:
  assumes "mem_wf m"
  shows "bytes_of_u32 h (if is_big_endian h \<noteq> mem_is_big_endian m then reverse_4 v else v) =
    in_order m (bytes_of_u32 LittleEndianHost v)"
proof -
  let ?bs = "bytes_of_u32 LittleEndianHost v"
  have v: "v = u32_of_le ?bs" by (simp add: u32_of_le_bytes_of)
  have "bytes_of_u32 LittleEndianHost (reverse_4 v) = rev ?bs"
    by (subst v, subst reverse_4_of_le) (simp_all add: bytes_of_u32_of_le)
  moreover have "bytes_of_u32 BigEndianHost w = rev (bytes_of_u32 LittleEndianHost w)" for w
    by (simp add: bytes_of_u32_def Let_def)
  ultimately show ?thesis
    using assms by (cases h) (auto simp: mem_wf_def in_order_def)
qed

lemma ordered_bytes_u16:
  assumes "mem_wf m"
  shows "bytes_of_u16 h (if is_big_endian h \<noteq> mem_is_big_endian m then reverse_2 v else v) =
    in_order m (bytes_of_u16 LittleEndianHost v)"
proof -
  let ?bs = "bytes_of_u16 LittleEndianHost v"
  have v: "v = u16_of_le ?bs" by (simp add: u16_of_le_bytes_of)
  have "bytes_of_u16 LittleEndianHost (reverse_2 v) = rev ?bs"
    by (subst v, subst reverse_2_of_le) (simp_all add: bytes_of_u16_of_le)
  moreover have "bytes_of_u16 BigEndianHost w = rev (bytes_of_u16 LittleEndianHost w)" for w
    by (simp add: bytes_of_u16_def Let_def)
  ultimately show ?thesis
    using assms by (cases h) (auto simp: mem_wf_def in_order_def)
qed

lemma wf_room:
  assumes "mem_wf m" and "aligned n m a" and "n = 1 \<or> n = 2 \<or> n = 4"
  shows "unat a + n \<le> length (mem_data m)"
  using aligned_le(1) [OF assms] assms(1) by (simp add: mem_wf_def)

lemma memory_read_byte_wf:
  assumes "mem_wf m"
  shows "memory_read_byte m a =
    Ret (if aligned 1 m a then Some (mem_data m ! unat a) else None)"
  using assms
  by (auto simp: memory_read_byte_def memory_get_size_def aligned_def load_bytes_def mem_wf_def
      hd_drop_conv_nth take_Suc)

lemma memory_read_half_wf:
  assumes "mem_wf m"
  shows "memory_read_half h m a =
    Ret (if aligned 2 m a then Some (u16_of_le (peek m (unat a) 2)) else None)"
proof (cases "aligned 2 m a")
  case True
  with wf_room [OF assms True] show ?thesis
    using ordered_u16 [OF assms, of "peek m (unat a) 2" h]
    by (auto simp: memory_read_half_def memory_get_size_def aligned_def u32_mod_eq_0 Let_def
        load_bytes_Ret length_peek)
qed (auto simp: memory_read_half_def memory_get_size_def aligned_def u32_mod_eq_0)

lemma memory_read_word_wf:
  assumes "mem_wf m"
  shows "memory_read_word h m a =
    Ret (if aligned 4 m a then Some (u32_of_le (peek m (unat a) 4)) else None)"
proof (cases "aligned 4 m a")
  case True
  with wf_room [OF assms True] show ?thesis
    using ordered_u32 [OF assms, of "peek m (unat a) 4" h]
    by (auto simp: memory_read_word_def memory_get_size_def aligned_def u32_mod_eq_0 Let_def
        load_bytes_Ret length_peek)
qed (auto simp: memory_read_word_def memory_get_size_def aligned_def u32_mod_eq_0)

lemma memory_write_byte_wf:
  assumes "mem_wf m"
  shows "memory_write_byte m a v =
    Ret (if aligned 1 m a then (0, put_bytes m (unat a) [v]) else (- 1, m))"
  using assms
  by (auto simp: memory_write_byte_def memory_get_size_def aligned_def store_byte_def mem_wf_def
      put_bytes_def upd_conv_take_nth_drop)

lemma memory_write_half_wf:
  assumes "mem_wf m"
  shows "memory_write_half h m a v =
    Ret (if aligned 2 m a then (0, put_bytes m (unat a) (in_order m (bytes_of_u16 LittleEndianHost v)))
         else (- 1, m))"
proof (cases "aligned 2 m a")
  case True
  with wf_room [OF assms True] aligned_le [OF assms True] show ?thesis
    by (auto simp: memory_write_half_def memory_get_size_def aligned_def u32_mod_eq_0 Let_def
        ordered_bytes_u16 [OF assms, simplified] store_bytes_Ret)
qed (auto simp: memory_write_half_def memory_get_size_def aligned_def u32_mod_eq_0)

lemma memory_write_word_wf:
  assumes "mem_wf m"
  shows "memory_write_word h m a v =
    Ret (if aligned 4 m a then (0, put_bytes m (unat a) (in_order m (bytes_of_u32 LittleEndianHost v)))
         else (- 1, m))"
proof (cases "aligned 4 m a")
  case True
  with wf_room [OF assms True] aligned_le [OF assms True] show ?thesis
    by (auto simp: memory_write_word_def memory_get_size_def aligned_def u32_mod_eq_0 Let_def
        ordered_bytes_u32 [OF assms, simplified] store_bytes_Ret)
qed (auto simp: memory_write_word_def memory_get_size_def aligned_def u32_mod_eq_0)

section \<open>The interface the processor uses\<close>

text \<open>
  A port of a memory: a read, a write, the addresses it grants, the well-formedness it keeps and
  what of the state a write leaves alone. The laws are those of the header of \<^verbatim>\<open>memory.h\<close>: a
  refused access reports failure and changes nothing, a granted write is seen by a read at the
  same address and by no other read.
\<close>

locale mem_port =
  fixes rd :: "'m \<Rightarrow> u32 \<Rightarrow> 'v option cres"
    and wr :: "'m \<Rightarrow> u32 \<Rightarrow> 'v \<Rightarrow> (int \<times> 'm) cres"
    and ok :: "'m \<Rightarrow> u32 \<Rightarrow> bool"
    and wf :: "'m \<Rightarrow> bool"
    and rest :: "'m \<Rightarrow> 'r"
  assumes rd_refused: "wf m \<Longrightarrow> \<not> ok m a \<Longrightarrow> rd m a = Ret None"
    and rd_granted: "wf m \<Longrightarrow> ok m a \<Longrightarrow> \<exists>v. rd m a = Ret (Some v)"
    and wr_refused: "wf m \<Longrightarrow> \<not> ok m a \<Longrightarrow> wr m a v = Ret (- 1, m)"
    and wr_granted: "wf m \<Longrightarrow> ok m a \<Longrightarrow> \<exists>m'. wr m a v = Ret (0, m') \<and> wf m' \<and> ok m' = ok m \<and>
      rest m' = rest m \<and> rd m' a = Ret (Some v) \<and> (\<forall>b. b \<noteq> a \<longrightarrow> rd m' b = rd m b)"

text \<open>A sequence of writes whose statuses nobody looks at, as the store instructions make.\<close>

fun write_block ::
    "('m \<Rightarrow> u32 \<Rightarrow> 'v \<Rightarrow> (int \<times> 'm) cres) \<Rightarrow> 'm \<Rightarrow> (u32 \<times> 'v) list \<Rightarrow> 'm cres" where
  "write_block wr m [] = Ret m"
| "write_block wr m ((a, v) # avs) = cbind (wr m a v) (\<lambda>(_, m'). write_block wr m' avs)"

context mem_port
begin

lemma wr_total: "wf m \<Longrightarrow> \<exists>s m'. wr m a v = Ret (s, m') \<and> wf m' \<and> ok m' = ok m \<and> rest m' = rest m"
  using wr_granted [of m a v] wr_refused [of m a v] by (cases "ok m a") auto

lemma write_block_total:
  "wf m \<Longrightarrow> \<exists>m'. write_block wr m avs = Ret m' \<and> wf m' \<and> ok m' = ok m \<and> rest m' = rest m"
proof (induction avs arbitrary: m)
  case (Cons av avs)
  obtain a v where av: "av = (a, v)" by force
  from wr_total [OF Cons.prems] obtain s m' where m':
    "wr m a v = Ret (s, m')" "wf m'" "ok m' = ok m" "rest m' = rest m" by blast
  from Cons.IH [OF m'(2)] m' av show ?case by auto
qed simp

lemma write_block_reads:
  assumes "wf m" and "distinct (map fst avs)" and "\<forall>av \<in> set avs. ok m (fst av)"
  shows "\<exists>m'. write_block wr m avs = Ret m' \<and> wf m' \<and> ok m' = ok m \<and> rest m' = rest m \<and>
    (\<forall>(a, v) \<in> set avs. rd m' a = Ret (Some v)) \<and>
    (\<forall>b. b \<notin> fst ` set avs \<longrightarrow> rd m' b = rd m b)"
  using assms
proof (induction avs arbitrary: m)
  case (Cons av avs)
  obtain a v where av: "av = (a, v)" by force
  with Cons.prems have "ok m a" by simp
  with wr_granted Cons.prems(1) obtain m' where m': "wr m a v = Ret (0, m')" "wf m'" "ok m' = ok m"
    "rest m' = rest m" "rd m' a = Ret (Some v)" "\<forall>b. b \<noteq> a \<longrightarrow> rd m' b = rd m b" by blast
  have "distinct (map fst avs)" "\<forall>av \<in> set avs. ok m' (fst av)"
    using Cons.prems m'(3) by simp_all
  from Cons.IH [OF m'(2) this] obtain m'' where m'': "write_block wr m' avs = Ret m''" "wf m''"
    "ok m'' = ok m'" "rest m'' = rest m'" "\<forall>(a, v) \<in> set avs. rd m'' a = Ret (Some v)"
    "\<forall>b. b \<notin> fst ` set avs \<longrightarrow> rd m'' b = rd m' b" by blast
  have "a \<notin> fst ` set avs" using Cons.prems(2) av by simp
  with m' m'' av show ?case by (intro exI [of _ m'']) auto
qed simp

lemma last_write_wins:
  assumes "wf m" and "ok m a"
  shows "\<exists>m'. write_block wr m [(a, v), (a, w)] = Ret m' \<and> rd m' a = Ret (Some w)"
proof -
  from wr_granted [OF assms] obtain m1 where "wr m a v = Ret (0, m1)" "wf m1" "ok m1 = ok m" by blast
  moreover from this wr_granted [of m1 a w] assms obtain m2
    where "wr m1 a w = Ret (0, m2)" "rd m2 a = Ret (Some w)" by auto
  ultimately show ?thesis by simp
qed

end

lemma aligned_apart:
  assumes "aligned n m a" and "aligned n m b" and "a \<noteq> b"
  shows "unat a + n \<le> unat b \<or> unat b + n \<le> unat a"
proof -
  have "unat a \<noteq> unat b" using assms(3) by (simp add: word_unat_eq_iff)
  then show ?thesis
    using assms(1,2) multiple_fits [of "unat a" "unat b" n] multiple_fits [of "unat b" "unat a" n]
    by (auto simp: aligned_def linorder_neq_iff)
qed

lemma peek_put_aligned:
  assumes "mem_wf m" and "aligned n m a" and "length bs = n" and "n = 1 \<or> n = 2 \<or> n = 4"
  shows "peek (put_bytes m (unat a) bs) (unat a) n = in_order m bs"
    and "aligned n m b \<Longrightarrow> b \<noteq> a \<Longrightarrow>
      peek (put_bytes m (unat a) bs) (unat b) n = peek m (unat b) n"
proof -
  note room = wf_room [OF assms(1) _ assms(4)]
  show "peek (put_bytes m (unat a) bs) (unat a) n = in_order m bs"
    using peek_put_same [of "unat a" bs m] room [OF assms(2)] assms(3) by simp
  assume b: "aligned n m b" "b \<noteq> a"
  then show "peek (put_bytes m (unat a) bs) (unat b) n = peek m (unat b) n"
    using aligned_apart [OF b(1) assms(2) b(2)] room [OF assms(2)] room [OF b(1)] assms(3)
    by (intro peek_put_other) auto
qed

abbreviation mem_kind :: "memory_data \<Rightarrow> nat \<times> int" where
  "mem_kind m \<equiv> (mem_size m, mem_is_big_endian m)"

interpretation word_port: mem_port "memory_read_word h" "memory_write_word h" "aligned 4" mem_wf mem_kind
  for h
proof
  fix m a and v :: u32 assume wf: "mem_wf m" and ok: "aligned 4 m a"
  let ?m = "put_bytes m (unat a) (in_order m (bytes_of_u32 LittleEndianHost v))"
  have wf': "mem_wf ?m" using aligned_le [OF wf ok] wf by (intro put_bytes_wf) auto
  have "memory_read_word h ?m b = memory_read_word h m b" if "b \<noteq> a" for b
    using that peek_put_aligned(2) [OF wf ok] by (simp add: memory_read_word_wf wf wf')
  moreover have "memory_read_word h ?m a = Ret (Some v)"
    using ok peek_put_aligned(1) [OF wf ok]
    by (simp add: memory_read_word_wf wf wf' u32_of_le_bytes_of)
  ultimately show "\<exists>m'. memory_write_word h m a v = Ret (0, m') \<and> mem_wf m' \<and>
      aligned 4 m' = aligned 4 m \<and> mem_kind m' = mem_kind m \<and>
      memory_read_word h m' a = Ret (Some v) \<and>
      (\<forall>b. b \<noteq> a \<longrightarrow> memory_read_word h m' b = memory_read_word h m b)"
    using wf wf' ok by (auto simp: memory_write_word_wf)
qed (simp_all add: memory_read_word_wf memory_write_word_wf)

interpretation half_port: mem_port "memory_read_half h" "memory_write_half h" "aligned 2" mem_wf mem_kind
  for h
proof
  fix m a and v :: u16 assume wf: "mem_wf m" and ok: "aligned 2 m a"
  let ?m = "put_bytes m (unat a) (in_order m (bytes_of_u16 LittleEndianHost v))"
  have wf': "mem_wf ?m" using aligned_le [OF wf ok] wf by (intro put_bytes_wf) auto
  have "memory_read_half h ?m b = memory_read_half h m b" if "b \<noteq> a" for b
    using that peek_put_aligned(2) [OF wf ok] by (simp add: memory_read_half_wf wf wf')
  moreover have "memory_read_half h ?m a = Ret (Some v)"
    using ok peek_put_aligned(1) [OF wf ok]
    by (simp add: memory_read_half_wf wf wf' u16_of_le_bytes_of)
  ultimately show "\<exists>m'. memory_write_half h m a v = Ret (0, m') \<and> mem_wf m' \<and>
      aligned 2 m' = aligned 2 m \<and> mem_kind m' = mem_kind m \<and>
      memory_read_half h m' a = Ret (Some v) \<and>
      (\<forall>b. b \<noteq> a \<longrightarrow> memory_read_half h m' b = memory_read_half h m b)"
    using wf wf' ok by (auto simp: memory_write_half_wf)
qed (simp_all add: memory_read_half_wf memory_write_half_wf)

interpretation byte_port: mem_port memory_read_byte memory_write_byte "aligned 1" mem_wf mem_kind
proof
  fix m a and v :: u8 assume wf: "mem_wf m" and ok: "aligned 1 m a"
  let ?m = "put_bytes m (unat a) [v]"
  have room: "unat a < length (mem_data m)" using wf_room [OF wf ok] by simp
  have wf': "mem_wf ?m" using aligned_le [OF wf ok] wf by (intro put_bytes_wf) auto
  have "mem_data ?m ! unat b = mem_data m ! unat b" if "b \<noteq> a" "aligned 1 m b" for b
    using that wf_room [OF wf that(2)] room
    by (subst nth_put_bytes) (auto simp: word_unat_eq_iff)
  moreover have "mem_data ?m ! unat a = v" using room by (simp add: nth_put_bytes)
  ultimately show "\<exists>m'. memory_write_byte m a v = Ret (0, m') \<and> mem_wf m' \<and>
      aligned 1 m' = aligned 1 m \<and> mem_kind m' = mem_kind m \<and>
      memory_read_byte m' a = Ret (Some v) \<and>
      (\<forall>b. b \<noteq> a \<longrightarrow> memory_read_byte m' b = memory_read_byte m b)"
    using wf wf' ok by (auto simp: memory_write_byte_wf memory_read_byte_wf)
qed (simp_all add: memory_read_byte_wf memory_write_byte_wf)

text \<open>
  A state that holds a memory in one of its fields has a port too: its accesses go to that field
  and leave the other fields alone.
\<close>

locale held_port = mem_port rd wr ok wf rest
  for rd :: "'m \<Rightarrow> u32 \<Rightarrow> 'v option cres"
    and wr :: "'m \<Rightarrow> u32 \<Rightarrow> 'v \<Rightarrow> (int \<times> 'm) cres"
    and ok :: "'m \<Rightarrow> u32 \<Rightarrow> bool"
    and wf :: "'m \<Rightarrow> bool"
    and rest :: "'m \<Rightarrow> 'r" +
  fixes get :: "'s \<Rightarrow> 'm"
    and put :: "'m \<Rightarrow> 's \<Rightarrow> 's"
    and others :: "'s \<Rightarrow> 'o"
    and good :: "'o \<Rightarrow> bool"
  assumes get_put [simp]: "get (put m s) = m"
    and put_get [simp]: "put (get s) s = s"
    and others_put [simp]: "others (put m s) = others s"

sublocale held_port \<subseteq> held: mem_port
  "\<lambda>s. rd (get s)"
  "\<lambda>s a v. cbind (wr (get s) a v) (\<lambda>(result, m). Ret (result, put m s))"
  "\<lambda>s. ok (get s)" "\<lambda>s. wf (get s) \<and> good (others s)" "\<lambda>s. (others s, rest (get s))"
proof
  fix s a v assume "wf (get s) \<and> good (others s)" and "ok (get s) a"
  moreover from this wr_granted [of "get s" a v] obtain m where
    "wr (get s) a v = Ret (0, m)" "wf m" "ok m = ok (get s)" "rest m = rest (get s)"
    "rd m a = Ret (Some v)" "\<forall>b. b \<noteq> a \<longrightarrow> rd m b = rd (get s) b" by blast
  ultimately show "\<exists>s'. cbind (wr (get s) a v) (\<lambda>(result, m). Ret (result, put m s)) = Ret (0, s') \<and>
      (wf (get s') \<and> good (others s')) \<and> ok (get s') = ok (get s) \<and>
      (others s', rest (get s')) = (others s, rest (get s)) \<and> rd (get s') a = Ret (Some v) \<and>
      (\<forall>b. b \<noteq> a \<longrightarrow> rd (get s') b = rd (get s) b)"
    by (intro exI [of _ "put m s"]) auto
qed (auto simp: rd_refused rd_granted wr_refused)


section \<open>Byte orders\<close>

text \<open>
  Property C22: the simulated memory does not depend on the host. On a well-formed memory every half-word
  and word access gives the same status, the same value and the same memory on a little-endian and on
  a big-endian host, granted or refused.
\<close>

theorem host_independence:
  assumes "mem_wf m"
  shows "memory_read_half h m a = memory_read_half h' m a \<and>
    memory_read_word h m a = memory_read_word h' m a \<and>
    memory_write_half h m a hv = memory_write_half h' m a hv \<and>
    memory_write_word h m a v = memory_write_word h' m a v"
  by (simp add: memory_read_half_wf [OF assms] memory_read_word_wf [OF assms]
      memory_write_half_wf [OF assms] memory_write_word_wf [OF assms])

theorem host_independence_witness:
  "memory_read_word LittleEndianHost (memory_create (\<lambda>i. of_nat i) 8 1) 4 =
     memory_read_word BigEndianHost (memory_create (\<lambda>i. of_nat i) 8 1) 4"
proof -
  have "mem_wf (memory_create (\<lambda>i. of_nat i) 8 1)" by (rule memory_create_wf) simp_all
  from host_independence [OF this, of LittleEndianHost 4 BigEndianHost 0 0] show ?thesis by simp
qed

text \<open>
  Fact: a word in the simulated memory is the representation the word has on a machine of the
  memory's byte order: the byte read at each of its four addresses is that byte of the representation,
  most significant first exactly when the memory is big-endian.
\<close>

theorem word_is_its_bytes:
  assumes "mem_wf m" and "memory_read_word h m a = Ret (Some w)" and "i < 4"
  shows "memory_read_byte m (a + of_nat i) =
    Ret (Some (bytes_of_u32 (if mem_is_big_endian m = 1 then BigEndianHost else LittleEndianHost) w ! i))"
proof -
  have al: "aligned 4 m a" and w: "w = u32_of_le (peek m (unat a) 4)"
    using assms(2) by (auto simp: memory_read_word_wf [OF assms(1)] split: if_splits)
  have room: "unat a + 4 \<le> length (mem_data m)" using wf_room [OF assms(1) al] by simp
  have "bytes_of_u32 LittleEndianHost w = peek m (unat a) 4"
    unfolding w by (rule bytes_of_u32_of_le) (simp add: length_peek room)
  then have "bytes_of_u32 (if mem_is_big_endian m = 1 then BigEndianHost else LittleEndianHost) w =
      take 4 (drop (unat a) (mem_data m))"
    by (simp add: bytes_of_u32_def Let_def peek_def in_order_def split: if_splits)
  moreover have u: "unat (a + of_nat i) = unat a + i"
  proof -
    have "unat a + i < 2 ^ 32" using aligned_le(2) [OF assms(1) al] assms(3) by simp
    moreover have "unat (of_nat i :: u32) = i" using assms(3) by (simp add: unat_of_nat take_bit_nat_eq_self)
    ultimately show ?thesis by (simp add: unat_word_ariths)
  qed
  ultimately show ?thesis
    using assms(1,3) room by (simp add: memory_read_byte_wf aligned_def mem_wf_def u)
qed

theorem word_is_its_bytes_witness:
  "memory_read_byte (memory_create (\<lambda>i. of_nat i) 8 1) 4 =
     Ret (Some (bytes_of_u32 BigEndianHost 0x04050607 ! 0))"
proof -
  let ?m = "memory_create (\<lambda>i. of_nat i) 8 1"
  have wf: "mem_wf ?m" by (rule memory_create_wf) simp_all
  have "memory_read_word LittleEndianHost ?m 4 = Ret (Some 0x04050607)" by code_simp
  from word_is_its_bytes [OF wf this, of 0] show ?thesis by (simp add: memory_create_def)
qed

end
