(* ===== verification/Registers.thy ===== *)
theory Registers
  imports C_Prelude
begin

text \<open>
  The register file of \<^verbatim>\<open>registers.c\<close>: eighteen words (\<open>r0\<close> to \<open>r15\<close>, CPSR at 16, SPSR at 17) and
  the processor mode. The array is a function of the index; the code only uses the indices below
  18. The mode is a field of its own, set once at creation: no operation here writes it, and
  writing CPSR does not change it. The interface \<open>register_file\<close> states the laws the processor
  relies on.
\<close>

section \<open>Processor modes\<close>

definition USR :: u8 where "USR = 0x10"
definition FIQ :: u8 where "FIQ = 0x11"
definition IRQ :: u8 where "IRQ = 0x12"
definition SVC :: u8 where "SVC = 0x13"
definition ABT :: u8 where "ABT = 0x17"
definition UND :: u8 where "UND = 0x1b"
definition SYS :: u8 where "SYS = 0x1f"

lemmas mode_defs = USR_def FIQ_def IRQ_def SVC_def ABT_def UND_def SYS_def

section \<open>Data and operations\<close>

record registers =
  reg_data :: "nat \<Rightarrow> u32"
  reg_mode :: u8

definition registers_create :: registers where
  "registers_create = \<lparr>reg_data = (\<lambda>_. 0), reg_mode = USR\<rparr>"

definition get_mode :: "registers \<Rightarrow> u8" where
  "get_mode r = reg_mode r"

definition current_mode_has_spsr :: "registers \<Rightarrow> int" where
  "current_mode_has_spsr r = (let tmp = IRQ in if reg_mode r \<noteq> tmp then 1 else 0)"

definition in_a_privileged_mode :: "registers \<Rightarrow> int" where
  "in_a_privileged_mode r = (let tmp = SYS in if reg_mode r \<noteq> tmp then 1 else 0)"

definition read_register :: "registers \<Rightarrow> u8 \<Rightarrow> u32" where
  "read_register r n = (if n < 16 then reg_data r (unat n) else 0)"

definition read_usr_register :: "registers \<Rightarrow> u8 \<Rightarrow> u32" where
  "read_usr_register r n = (if n < 16 \<and> reg_mode r = USR then reg_data r (unat n) else 0)"

definition read_cpsr :: "registers \<Rightarrow> u32" where
  "read_cpsr r = reg_data r 16"

definition read_spsr :: "registers \<Rightarrow> u32" where
  "read_spsr r = reg_data r 17"

definition write_register :: "registers \<Rightarrow> u8 \<Rightarrow> u32 \<Rightarrow> registers" where
  "write_register r n v = (if n < 16 then r\<lparr>reg_data := (reg_data r)(unat n := v)\<rparr> else r)"

definition write_usr_register :: "registers \<Rightarrow> u8 \<Rightarrow> u32 \<Rightarrow> registers" where
  "write_usr_register r n v =
     (if n < 16 \<and> reg_mode r = USR then r\<lparr>reg_data := (reg_data r)(unat n := v)\<rparr> else r)"

definition write_cpsr :: "registers \<Rightarrow> u32 \<Rightarrow> registers" where
  "write_cpsr r v = r\<lparr>reg_data := (reg_data r)(16 := v)\<rparr>"

definition write_spsr :: "registers \<Rightarrow> u32 \<Rightarrow> registers" where
  "write_spsr r v = r\<lparr>reg_data := (reg_data r)(17 := v)\<rparr>"

section \<open>Reads after writes\<close>

lemma reg_index: "(n :: u8) < 16 \<Longrightarrow> unat n < 16"
  by (simp add: word_less_nat_alt)

lemma get_mode_writes [simp, frame_simps]:
  "get_mode (write_register r n v) = get_mode r"
  "get_mode (write_usr_register r n v) = get_mode r"
  "get_mode (write_cpsr r v) = get_mode r"
  "get_mode (write_spsr r v) = get_mode r"
  by (simp_all add: get_mode_def write_register_def write_usr_register_def write_cpsr_def
      write_spsr_def)

lemma read_register_writes [simp]:
  "read_register (write_register r n v) k = (if k = n \<and> n < 16 then v else read_register r k)"
  "read_register (write_cpsr r v) k = read_register r k"
  "read_register (write_spsr r v) k = read_register r k"
  by (auto simp: read_register_def write_register_def write_cpsr_def write_spsr_def
      simp flip: word_unat_eq_iff dest: reg_index)

lemma write_register_invalid: "\<not> n < 16 \<Longrightarrow> write_register r n v = r"
  by (simp add: write_register_def)

lemma read_cpsr_writes [simp]:
  "read_cpsr (write_register r n v) = read_cpsr r"
  "read_cpsr (write_cpsr r v) = v"
  "read_cpsr (write_spsr r v) = read_cpsr r"
  by (auto simp: read_cpsr_def write_register_def write_cpsr_def write_spsr_def dest: reg_index)

lemma read_spsr_writes [simp]:
  "read_spsr (write_register r n v) = read_spsr r"
  "read_spsr (write_cpsr r v) = read_spsr r"
  "read_spsr (write_spsr r v) = v"
  by (auto simp: read_spsr_def write_register_def write_cpsr_def write_spsr_def dest: reg_index)

lemma usr_register_in_usr_mode:
  "get_mode r = USR \<Longrightarrow> read_usr_register r n = read_register r n"
  "get_mode r = USR \<Longrightarrow> write_usr_register r n v = write_register r n v"
  by (simp_all add: get_mode_def read_usr_register_def write_usr_register_def read_register_def
      write_register_def)

lemma usr_register_in_other_mode:
  "get_mode r \<noteq> USR \<Longrightarrow> read_usr_register r n = 0"
  "get_mode r \<noteq> USR \<Longrightarrow> write_usr_register r n v = r"
  by (simp_all add: get_mode_def read_usr_register_def write_usr_register_def)

lemma write_register_twice [simp]:
  "write_register (write_register r n v) n w = write_register r n w"
  by (simp add: write_register_def)

lemma write_cpsr_twice [simp]: "write_cpsr (write_cpsr r v) w = write_cpsr r w"
  by (simp add: write_cpsr_def)

lemma write_cpsr_same [simp]: "write_cpsr r (read_cpsr r) = r"
  by (simp add: write_cpsr_def read_cpsr_def)

lemma write_register_cpsr_commute:
  "write_cpsr (write_register r n v) w = write_register (write_cpsr r w) n v"
  by (auto simp: write_register_def write_cpsr_def fun_upd_twist dest: reg_index)

section \<open>Interface\<close>

locale register_file =
  fixes rd :: "'s \<Rightarrow> 'i \<Rightarrow> 'v"
    and wr :: "'s \<Rightarrow> 'i \<Rightarrow> 'v \<Rightarrow> 's"
    and valid :: "'i \<Rightarrow> bool"
    and status :: "'s \<Rightarrow> 't"
  assumes rd_wr_same: "valid n \<Longrightarrow> rd (wr s n v) n = v"
    and rd_wr_other: "k \<noteq> n \<Longrightarrow> rd (wr s n v) k = rd s k"
    and wr_invalid: "\<not> valid n \<Longrightarrow> wr s n v = s"
    and status_wr: "status (wr s n v) = status s"

text \<open>Writing a list of registers, as a block load does.\<close>

definition write_all :: "('s \<Rightarrow> 'i \<Rightarrow> 'v \<Rightarrow> 's) \<Rightarrow> ('i \<times> 'v) list \<Rightarrow> 's \<Rightarrow> 's" where
  "write_all wr nvs s = foldl (\<lambda>s (n, v). wr s n v) s nvs"

lemma write_all_simps [simp]:
  "write_all wr [] s = s"
  "write_all wr ((n, v) # nvs) s = write_all wr nvs (wr s n v)"
  by (simp_all add: write_all_def)

context register_file
begin

lemma status_write_all: "status (write_all wr nvs s) = status s"
  by (induction nvs arbitrary: s) (auto simp: status_wr)

lemma rd_write_all_other: "k \<notin> fst ` set nvs \<Longrightarrow> rd (write_all wr nvs s) k = rd s k"
  by (induction nvs arbitrary: s) (auto simp: rd_wr_other)

lemma rd_write_all:
  "distinct (map fst nvs) \<Longrightarrow> (k, v) \<in> set nvs \<Longrightarrow> valid k \<Longrightarrow> rd (write_all wr nvs s) k = v"
proof (induction nvs arbitrary: s)
  case (Cons nv nvs)
  obtain n w where nv: "nv = (n, w)" by force
  show ?case
  proof (cases "k = n")
    case True
    with Cons.prems nv have "k \<notin> fst ` set nvs" "v = w" by (force simp: image_iff)+
    with True nv Cons.prems(3) show ?thesis by (simp add: rd_write_all_other rd_wr_same)
  next
    case False
    with Cons nv show ?thesis by auto
  qed
qed simp

end

interpretation regs: register_file read_register write_register "\<lambda>n. n < 16" "\<lambda>r. (get_mode r, read_cpsr r, read_spsr r)"
  by unfold_locales (simp_all add: write_register_invalid)

end
