(* ===== verification/Arm_Constants.thy ===== *)
theory Arm_Constants
  imports Registers
begin

text \<open>
  The exception numbers of \<^verbatim>\<open>arm_constants.h\<close> and the name tables of \<^verbatim>\<open>arm_constants.c\<close>. A \<^verbatim>\<open>NULL\<close>
  name is \<open>None\<close>; the tables of modes and registers are indexed without a test, so an index past
  their end is \<open>Undef\<close>.
\<close>

definition RESET :: int where "RESET = 1"
definition UNDEFINED_INSTRUCTION :: int where "UNDEFINED_INSTRUCTION = 2"
definition SOFTWARE_INTERRUPT :: int where "SOFTWARE_INTERRUPT = 3"
definition PREFETCH_ABORT :: int where "PREFETCH_ABORT = 4"
definition DATA_ABORT :: int where "DATA_ABORT = 5"
definition INTERRUPT :: int where "INTERRUPT = 6"
definition FAST_INTERRUPT :: int where "FAST_INTERRUPT = 7"

lemmas exception_defs = RESET_def UNDEFINED_INSTRUCTION_def SOFTWARE_INTERRUPT_def
  PREFETCH_ABORT_def DATA_ABORT_def INTERRUPT_def FAST_INTERRUPT_def

definition LSL :: u8 where "LSL = 0"
definition LSR :: u8 where "LSR = 1"
definition ASR :: u8 where "ASR = 2"
definition ROR :: u8 where "ROR = 3"

lemmas shift_kind_defs = LSL_def LSR_def ASR_def ROR_def

definition UnallocMask :: u32 where "UnallocMask = 0x0FFFFF00"
definition UserMask :: u32 where "UserMask = 0xF0000000"
definition PrivMask :: u32 where "PrivMask = 0x0000000F"
definition StateMask :: u32 where "StateMask = 0x00000020"

definition arm_mode_names :: "string option list" where
  "arm_mode_names =
     replicate 16 None @
     [Some ''USR'', Some ''FIQ'', Some ''IRQ'', Some ''SVC'', None, None, None,
      Some ''ABT'', None, None, None, Some ''UND'', None, None, None, Some ''SYS'']"

definition arm_register_names :: "string list" where
  "arm_register_names =
     [''R00'', ''R01'', ''R02'', ''R03'', ''R04'', ''R05'', ''R06'', ''R07'', ''R08'', ''R09'',
      ''R10'', ''R11'', ''R12'', ''SP'', ''LR'', ''PC'', ''CPSR'', ''SPSR'']"

definition arm_exception_names :: "string option list" where
  "arm_exception_names =
     [None, Some ''reset'', Some ''undefined instruction'', Some ''software interrupt'',
      Some ''prefetch abort'', Some ''data abort'', Some ''interrupt'', Some ''fast interrupt'']"

definition table_entry :: "'a list \<Rightarrow> nat \<Rightarrow> 'a cres" where
  "table_entry xs i = (if i < length xs then Ret (xs ! i) else Undef)"

definition arm_get_exception_name :: "u8 \<Rightarrow> string option" where
  "arm_get_exception_name ex = (if ex < 8 then arm_exception_names ! unat ex else None)"

definition arm_get_mode_name :: "u8 \<Rightarrow> string option cres" where
  "arm_get_mode_name mode = table_entry arm_mode_names (unat mode)"

definition arm_get_register_name :: "u8 \<Rightarrow> string cres" where
  "arm_get_register_name r = table_entry arm_register_names (unat r)"

text \<open>Exactly the seven modes have a name, and the names tell them apart.\<close>

lemma mode_names_defined: "mode < 32 \<Longrightarrow> arm_get_mode_name mode \<noteq> Undef"
  by (simp add: arm_get_mode_name_def table_entry_def arm_mode_names_def word_less_nat_alt)

lemma mode_names:
  "map arm_get_mode_name [USR, FIQ, IRQ, SVC, ABT, UND, SYS] =
     map (Ret \<circ> Some) [''USR'', ''FIQ'', ''IRQ'', ''SVC'', ''ABT'', ''UND'', ''SYS'']"
  by code_simp

end
