(* ===== verification/Arm_Core.thy ===== *)
theory Arm_Core
  imports Memory Registers
begin

text \<open>
  The processor state of \<^verbatim>\<open>arm_core.c\<close>: a cycle counter, the registers and the memory, and the
  accesses the instructions make to them. The program counter is read as the address of the
  executing instruction plus 8: the fetch has already added 4 to it, and a read adds 4 more and
  clears bit 1. Every access is traced by the code; the trace writes text to a file and nothing
  reads it back, so the calls of the trace are not part of this state; theory \<open>Trace\<close> has the accesses
  with their trace and shows that they compute what these compute.

  The lemmas read each part of the state after each write, show what a fetch does on both
  branches, and give the processor's accesses to memory the laws of the interface \<open>mem_port\<close>.
\<close>

section \<open>State\<close>

record arm_core =
  cycle_count :: u32
  core_reg :: registers
  core_mem :: memory_data

text \<open>The simulator runs on a little-endian host; the memory laws hold for both kinds.\<close>

definition build_host :: host where
  "build_host = LittleEndianHost"

section \<open>Operations\<close>

definition arm_current_mode_has_spsr :: "arm_core \<Rightarrow> int" where
  "arm_current_mode_has_spsr p = current_mode_has_spsr (core_reg p)"

definition arm_in_a_privileged_mode :: "arm_core \<Rightarrow> int" where
  "arm_in_a_privileged_mode p = in_a_privileged_mode (core_reg p)"

definition arm_get_cycle_count :: "arm_core \<Rightarrow> u32" where
  "arm_get_cycle_count p = cycle_count p"

definition arm_read_register :: "arm_core \<Rightarrow> u8 \<Rightarrow> u32" where
  "arm_read_register p n =
     (let value = read_register (core_reg p) n
      in if n = 15 then (value + 4) AND 0xFFFFFFFD else value)"

definition arm_read_usr_register :: "arm_core \<Rightarrow> u8 \<Rightarrow> u32" where
  "arm_read_usr_register p n =
     (let value = read_usr_register (core_reg p) n
      in if n = 15 then (value + 4) AND 0xFFFFFFFD else value)"

definition arm_read_cpsr :: "arm_core \<Rightarrow> u32" where
  "arm_read_cpsr p = read_cpsr (core_reg p)"

definition arm_read_spsr :: "arm_core \<Rightarrow> u32" where
  "arm_read_spsr p = read_spsr (core_reg p)"

definition arm_write_register :: "arm_core \<Rightarrow> u8 \<Rightarrow> u32 \<Rightarrow> arm_core" where
  "arm_write_register p n v = p\<lparr>core_reg := write_register (core_reg p) n v\<rparr>"

definition arm_write_usr_register :: "arm_core \<Rightarrow> u8 \<Rightarrow> u32 \<Rightarrow> arm_core" where
  "arm_write_usr_register p n v = p\<lparr>core_reg := write_usr_register (core_reg p) n v\<rparr>"

definition arm_write_cpsr :: "arm_core \<Rightarrow> u32 \<Rightarrow> arm_core" where
  "arm_write_cpsr p v = p\<lparr>core_reg := write_cpsr (core_reg p) v\<rparr>"

definition arm_write_spsr :: "arm_core \<Rightarrow> u32 \<Rightarrow> arm_core" where
  "arm_write_spsr p v = p\<lparr>core_reg := write_spsr (core_reg p) v\<rparr>"

definition arm_fetch :: "arm_core \<Rightarrow> (u32 option \<times> arm_core) cres" where
  "arm_fetch p =
     (let p = p\<lparr>cycle_count := cycle_count p + 1\<rparr>;
          address = arm_read_register p 15 - 4
      in cbind (memory_read_word build_host (core_mem p) address) (\<lambda>value.
           Ret (value, arm_write_register p 15 (address + 4))))"

definition arm_read_byte :: "arm_core \<Rightarrow> u32 \<Rightarrow> u8 option cres" where
  "arm_read_byte p address = memory_read_byte (core_mem p) address"

definition arm_read_half :: "arm_core \<Rightarrow> u32 \<Rightarrow> u16 option cres" where
  "arm_read_half p address = memory_read_half build_host (core_mem p) address"

definition arm_read_word :: "arm_core \<Rightarrow> u32 \<Rightarrow> u32 option cres" where
  "arm_read_word p address = memory_read_word build_host (core_mem p) address"

definition arm_write_byte :: "arm_core \<Rightarrow> u32 \<Rightarrow> u8 \<Rightarrow> (int \<times> arm_core) cres" where
  "arm_write_byte p address value =
     cbind (memory_write_byte (core_mem p) address value)
       (\<lambda>(result, m). Ret (result, p\<lparr>core_mem := m\<rparr>))"

definition arm_write_half :: "arm_core \<Rightarrow> u32 \<Rightarrow> u16 \<Rightarrow> (int \<times> arm_core) cres" where
  "arm_write_half p address value =
     cbind (memory_write_half build_host (core_mem p) address value)
       (\<lambda>(result, m). Ret (result, p\<lparr>core_mem := m\<rparr>))"

definition arm_write_word :: "arm_core \<Rightarrow> u32 \<Rightarrow> u32 \<Rightarrow> (int \<times> arm_core) cres" where
  "arm_write_word p address value =
     cbind (memory_write_word build_host (core_mem p) address value)
       (\<lambda>(result, m). Ret (result, p\<lparr>core_mem := m\<rparr>))"

section \<open>Reads after writes\<close>

lemma core_sel [simp, frame_simps]:
  "core_mem (arm_write_register p n v) = core_mem p"
  "core_mem (arm_write_usr_register p n v) = core_mem p"
  "core_mem (arm_write_cpsr p v) = core_mem p"
  "core_mem (arm_write_spsr p v) = core_mem p"
  "cycle_count (arm_write_register p n v) = cycle_count p"
  "cycle_count (arm_write_usr_register p n v) = cycle_count p"
  "cycle_count (arm_write_cpsr p v) = cycle_count p"
  "cycle_count (arm_write_spsr p v) = cycle_count p"
  "get_mode (core_reg (arm_write_register p n v)) = get_mode (core_reg p)"
  "get_mode (core_reg (arm_write_usr_register p n v)) = get_mode (core_reg p)"
  "get_mode (core_reg (arm_write_cpsr p v)) = get_mode (core_reg p)"
  "get_mode (core_reg (arm_write_spsr p v)) = get_mode (core_reg p)"
  by (simp_all add: arm_write_register_def arm_write_usr_register_def arm_write_cpsr_def
      arm_write_spsr_def)

lemma arm_read_register_writes [simp]:
  "arm_read_register (arm_write_register p n v) k =
     (if k = n \<and> n < 16 then (if n = 15 then (v + 4) AND 0xFFFFFFFD else v)
      else arm_read_register p k)"
  "arm_read_register (arm_write_cpsr p v) k = arm_read_register p k"
  "arm_read_register (arm_write_spsr p v) k = arm_read_register p k"
  "arm_read_register (p\<lparr>core_mem := m\<rparr>) k = arm_read_register p k"
  "arm_read_register (p\<lparr>cycle_count := c\<rparr>) k = arm_read_register p k"
  by (simp_all add: arm_read_register_def arm_write_register_def arm_write_cpsr_def
      arm_write_spsr_def)

lemma arm_read_cpsr_writes [simp]:
  "arm_read_cpsr (arm_write_register p n v) = arm_read_cpsr p"
  "arm_read_cpsr (arm_write_cpsr p v) = v"
  "arm_read_cpsr (arm_write_spsr p v) = arm_read_cpsr p"
  "arm_read_cpsr (p\<lparr>core_mem := m\<rparr>) = arm_read_cpsr p"
  "arm_read_cpsr (p\<lparr>cycle_count := c\<rparr>) = arm_read_cpsr p"
  by (simp_all add: arm_read_cpsr_def arm_write_register_def arm_write_cpsr_def arm_write_spsr_def)

lemma arm_write_cpsr_twice [simp]: "arm_write_cpsr (arm_write_cpsr p v) w = arm_write_cpsr p w"
  by (simp add: arm_write_cpsr_def)

lemma arm_write_cpsr_same [simp]: "arm_write_cpsr p (arm_read_cpsr p) = p"
  by (simp add: arm_write_cpsr_def arm_read_cpsr_def)

lemma arm_write_register_cpsr:
  "arm_write_cpsr (arm_write_register p n v) w = arm_write_register (arm_write_cpsr p w) n v"
  by (simp add: arm_write_register_def arm_write_cpsr_def write_register_cpsr_commute)

text \<open>The program counter as the instructions see it.\<close>

lemma bit_1_add_4: "bit ((x :: u32) + 4) 1 = bit x 1"
proof -
  have as_nat: "bit y 1 = bit (unat y) 1" for y :: u32
    by (simp add: bit_unsigned_iff)
  have "unat (x + 4) = take_bit 32 (unat x + 4)"
    by (simp add: unat_word_ariths take_bit_eq_mod)
  then have "bit (unat (x + 4)) 1 = bit (unat x + 4) 1"
    by (simp add: bit_take_bit_iff)
  also have "\<dots> = odd ((unat x + 4) div 2)" by (simp add: bit_iff_odd)
  also have "\<dots> = odd (unat x div 2)" by presburger
  also have "\<dots> = bit (unat x) 1" by (simp add: bit_iff_odd)
  finally show ?thesis by (simp only: as_nat)
qed

lemma clear_bit_1_add_4: "((x :: u32) + 4) AND 0xFFFFFFFD = (x AND 0xFFFFFFFD) + 4"
proof -
  have split: "y AND 0xFFFFFFFD = y - (y AND 2)" for y :: u32
  proof -
    have "y - (y AND 2) = y AND NOT (y AND 2)"
      by (rule disjunctive_diff_eq_and_not) (rule bit_word_eqI, auto simp: bit_simps)
    also have "\<dots> = y AND NOT 2" by (rule bit_word_eqI) (auto simp: bit_simps)
    also have "NOT 2 = (0xFFFFFFFD :: u32)" by simp
    finally show ?thesis by simp
  qed
  have "(x + 4) AND 2 = x AND 2"
    by (rule bit_word_eqI) (auto simp: bit_simps bit_2_iff bit_1_add_4 [simplified])
  then show ?thesis by (simp add: split)
qed

lemma arm_read_pc: "arm_read_register p 15 = (read_register (core_reg p) 15 AND 0xFFFFFFFD) + 4"
  by (simp add: arm_read_register_def clear_bit_1_add_4)

section \<open>Well-formed states\<close>

text \<open>
  The memory is a whole number of words and the register file is in user mode, the mode it is
  created in and never leaves.
\<close>

definition core_wf :: "arm_core \<Rightarrow> bool" where
  "core_wf p \<longleftrightarrow> mem_wf (core_mem p) \<and> get_mode (core_reg p) = USR"

lemma core_wf_writes [simp, wf_intros]:
  "core_wf (arm_write_register p n v) = core_wf p"
  "core_wf (arm_write_usr_register p n v) = core_wf p"
  "core_wf (arm_write_cpsr p v) = core_wf p"
  "core_wf (arm_write_spsr p v) = core_wf p"
  "core_wf (p\<lparr>cycle_count := c\<rparr>) = core_wf p"
  by (simp_all add: core_wf_def)

lemma usr_register_core_wf:
  "core_wf p \<Longrightarrow> arm_read_usr_register p n = arm_read_register p n"
  "core_wf p \<Longrightarrow> arm_write_usr_register p n v = arm_write_register p n v"
  by (simp_all add: core_wf_def arm_read_usr_register_def arm_read_register_def
      arm_write_usr_register_def arm_write_register_def usr_register_in_usr_mode)

text \<open>The registers of the processor obey the laws of the register file.\<close>

interpretation core_regs: register_file "\<lambda>p. read_register (core_reg p)" arm_write_register
  "\<lambda>n. n < 16" "\<lambda>p. (arm_read_cpsr p, core_mem p, cycle_count p, get_mode (core_reg p))"
  by unfold_locales (auto simp: arm_write_register_def regs.rd_wr_same regs.rd_wr_other
      regs.wr_invalid arm_read_cpsr_def)

lemma arm_read_register_no_pc: "n \<noteq> 15 \<Longrightarrow> arm_read_register p n = read_register (core_reg p) n"
  by (simp add: arm_read_register_def)

section \<open>The processor's memory ports\<close>

abbreviation core_rest :: "arm_core \<Rightarrow> (registers \<times> u32) \<times> nat \<times> int" where
  "core_rest p \<equiv> ((core_reg p, cycle_count p), mem_kind (core_mem p))"

interpretation held_word: held_port "memory_read_word build_host" "memory_write_word build_host"
  "aligned 4" mem_wf mem_kind core_mem "\<lambda>m p. p\<lparr>core_mem := m\<rparr>"
  "\<lambda>p. (core_reg p, cycle_count p)" "\<lambda>q. get_mode (fst q) = USR"
  by unfold_locales simp_all

interpretation held_half: held_port "memory_read_half build_host" "memory_write_half build_host"
  "aligned 2" mem_wf mem_kind core_mem "\<lambda>m p. p\<lparr>core_mem := m\<rparr>"
  "\<lambda>p. (core_reg p, cycle_count p)" "\<lambda>q. get_mode (fst q) = USR"
  by unfold_locales simp_all

interpretation held_byte: held_port memory_read_byte memory_write_byte
  "aligned 1" mem_wf mem_kind core_mem "\<lambda>m p. p\<lparr>core_mem := m\<rparr>"
  "\<lambda>p. (core_reg p, cycle_count p)" "\<lambda>q. get_mode (fst q) = USR"
  by unfold_locales simp_all

lemmas core_access_abs = arm_read_word_def [abs_def] arm_write_word_def [abs_def]
  arm_read_half_def [abs_def] arm_write_half_def [abs_def]
  arm_read_byte_def [abs_def] arm_write_byte_def [abs_def] core_wf_def [abs_def]

interpretation core_word: mem_port arm_read_word arm_write_word "\<lambda>p. aligned 4 (core_mem p)"
  core_wf core_rest
  using held_word.held.mem_port_axioms by (simp add: core_access_abs)

interpretation core_half: mem_port arm_read_half arm_write_half "\<lambda>p. aligned 2 (core_mem p)"
  core_wf core_rest
  using held_half.held.mem_port_axioms by (simp add: core_access_abs)

interpretation core_byte: mem_port arm_read_byte arm_write_byte "\<lambda>p. aligned 1 (core_mem p)"
  core_wf core_rest
  using held_byte.held.mem_port_axioms by (simp add: core_access_abs)

section \<open>Accesses of a well-formed state as functions\<close>

definition word_at :: "arm_core \<Rightarrow> u32 \<Rightarrow> u32 option" where
  "word_at p a = (if aligned 4 (core_mem p) a
     then Some (u32_of_le (peek (core_mem p) (unat a) 4)) else None)"

definition half_at :: "arm_core \<Rightarrow> u32 \<Rightarrow> u16 option" where
  "half_at p a = (if aligned 2 (core_mem p) a
     then Some (u16_of_le (peek (core_mem p) (unat a) 2)) else None)"

definition byte_at :: "arm_core \<Rightarrow> u32 \<Rightarrow> u8 option" where
  "byte_at p a = (if aligned 1 (core_mem p) a then Some (mem_data (core_mem p) ! unat a) else None)"

definition put_mem :: "nat \<Rightarrow> arm_core \<Rightarrow> u32 \<Rightarrow> u8 list \<Rightarrow> arm_core" where
  "put_mem n p a bs = (if aligned n (core_mem p) a
     then p\<lparr>core_mem := put_bytes (core_mem p) (unat a) (in_order (core_mem p) bs)\<rparr> else p)"

definition put_word :: "arm_core \<Rightarrow> u32 \<Rightarrow> u32 \<Rightarrow> arm_core" where
  "put_word p a v = put_mem 4 p a (bytes_of_u32 LittleEndianHost v)"

definition put_half :: "arm_core \<Rightarrow> u32 \<Rightarrow> u16 \<Rightarrow> arm_core" where
  "put_half p a v = put_mem 2 p a (bytes_of_u16 LittleEndianHost v)"

definition put_byte :: "arm_core \<Rightarrow> u32 \<Rightarrow> u8 \<Rightarrow> arm_core" where
  "put_byte p a v = put_mem 1 p a [v]"

lemmas put_defs = put_word_def put_half_def put_byte_def put_mem_def

abbreviation access_status :: "bool \<Rightarrow> int" where
  "access_status granted \<equiv> (if granted then 0 else - 1)"

lemma core_reads_wf:
  assumes "core_wf p"
  shows "arm_read_word p a = Ret (word_at p a)"
    and "arm_read_half p a = Ret (half_at p a)"
    and "arm_read_byte p a = Ret (byte_at p a)"
  using assms
  by (simp_all add: core_wf_def arm_read_word_def word_at_def memory_read_word_wf
      arm_read_half_def half_at_def memory_read_half_wf
      arm_read_byte_def byte_at_def memory_read_byte_wf)

lemma core_writes_wf:
  assumes "core_wf p"
  shows "arm_write_word p a v = Ret (access_status (aligned 4 (core_mem p) a), put_word p a v)"
    and "arm_write_half p a h = Ret (access_status (aligned 2 (core_mem p) a), put_half p a h)"
    and "arm_write_byte p a b = Ret (access_status (aligned 1 (core_mem p) a), put_byte p a b)"
  using assms
  by (simp_all add: core_wf_def arm_write_word_def memory_write_word_wf arm_write_half_def
      memory_write_half_wf arm_write_byte_def memory_write_byte_wf put_defs in_order_def)

lemma put_sel [simp, frame_simps]:
  "core_reg (put_word p a v) = core_reg p" "cycle_count (put_word p a v) = cycle_count p"
  "core_reg (put_half p a h) = core_reg p" "cycle_count (put_half p a h) = cycle_count p"
  "core_reg (put_byte p a b) = core_reg p" "cycle_count (put_byte p a b) = cycle_count p"
  "arm_read_register (put_word p a v) n = arm_read_register p n"
  "arm_read_register (put_half p a h) n = arm_read_register p n"
  "arm_read_register (put_byte p a b) n = arm_read_register p n"
  "arm_read_cpsr (put_word p a v) = arm_read_cpsr p"
  "arm_read_cpsr (put_half p a h) = arm_read_cpsr p"
  "arm_read_cpsr (put_byte p a b) = arm_read_cpsr p"
  by (simp_all add: put_defs)

lemma put_wf [wf_intros]:
  "core_wf p \<Longrightarrow> core_wf (put_word p a v)"
  "core_wf p \<Longrightarrow> core_wf (put_half p a h)"
  "core_wf p \<Longrightarrow> core_wf (put_byte p a b)"
  using core_word.wr_total [of p a v] core_half.wr_total [of p a h] core_byte.wr_total [of p a b]
  by (auto simp: core_writes_wf)

lemma word_at_put_word:
  assumes "core_wf p"
  shows "word_at (put_word p a v) b =
    (if b = a \<and> aligned 4 (core_mem p) a then Some v else word_at p b)"
proof (cases "aligned 4 (core_mem p) a")
  case True
  from core_word.wr_granted [OF assms this, of v] put_wf(1) [OF assms] show ?thesis
    using True assms by (auto simp: core_writes_wf core_reads_wf)
qed (simp add: put_defs)

lemma half_at_put_half:
  assumes "core_wf p"
  shows "half_at (put_half p a v) b =
    (if b = a \<and> aligned 2 (core_mem p) a then Some v else half_at p b)"
proof (cases "aligned 2 (core_mem p) a")
  case True
  from core_half.wr_granted [OF assms this, of v] put_wf(2) [OF assms] show ?thesis
    using True assms by (auto simp: core_writes_wf core_reads_wf)
qed (simp add: put_defs)

lemma byte_at_put_byte:
  assumes "core_wf p"
  shows "byte_at (put_byte p a v) b =
    (if b = a \<and> aligned 1 (core_mem p) a then Some v else byte_at p b)"
proof (cases "aligned 1 (core_mem p) a")
  case True
  from core_byte.wr_granted [OF assms this, of v] put_wf(3) [OF assms] show ?thesis
    using True assms by (auto simp: core_writes_wf core_reads_wf)
qed (simp add: put_defs)

lemma at_writes [simp, frame_simps]:
  "word_at (arm_write_register p n v) a = word_at p a"
  "word_at (arm_write_cpsr p v) a = word_at p a"
  "word_at (p\<lparr>cycle_count := c\<rparr>) a = word_at p a"
  "half_at (arm_write_register p n v) a = half_at p a"
  "half_at (arm_write_cpsr p v) a = half_at p a"
  "byte_at (arm_write_register p n v) a = byte_at p a"
  "byte_at (arm_write_cpsr p v) a = byte_at p a"
  by (simp_all add: word_at_def half_at_def byte_at_def)

lemma aligned_put [simp]:
  "aligned n (core_mem (put_word p a v)) = aligned n (core_mem p)"
  "aligned n (core_mem (put_half p a h)) = aligned n (core_mem p)"
  "aligned n (core_mem (put_byte p a b)) = aligned n (core_mem p)"
  by (simp_all add: put_defs)

section \<open>Fetch\<close>

definition fetch_address :: "arm_core \<Rightarrow> u32" where
  "fetch_address p = read_register (core_reg p) 15 AND 0xFFFFFFFD"

lemma arm_fetch_wf:
  assumes "core_wf p"
  shows "arm_fetch p = Ret (word_at p (fetch_address p),
    arm_write_register (p\<lparr>cycle_count := cycle_count p + 1\<rparr>) 15 (fetch_address p + 4))"
  using core_reads_wf(1) [of "p\<lparr>cycle_count := cycle_count p + 1\<rparr>" "fetch_address p"] assms
  by (simp add: arm_fetch_def Let_def arm_read_pc fetch_address_def arm_read_word_def)

text \<open>After a fetch the program counter reads as the fetched address plus 8.\<close>

lemma fetch_pc:
  "arm_fetch p = Ret (v, p') \<Longrightarrow> arm_read_register p' 15 = fetch_address p + 8"
  by (auto simp: arm_fetch_def Let_def arm_read_pc fetch_address_def clear_bit_1_add_4
      arm_read_register_def arm_write_register_def)

lemma fetch_frame [frame_simps]:
  assumes "arm_fetch p = Ret (v, p')"
  shows "cycle_count p' = cycle_count p + 1" and "core_mem p' = core_mem p"
    and "arm_read_cpsr p' = arm_read_cpsr p" and "core_wf p' = core_wf p"
    and "n \<noteq> 15 \<Longrightarrow> arm_read_register p' n = arm_read_register p n"
  using assms by (auto simp: arm_fetch_def Let_def)

end
