(* ===== verification/Arm_Exception.thy ===== *)
theory Arm_Exception
  imports Arm_Core Arm_Constants
begin

text \<open>
  Exceptions as \<^verbatim>\<open>arm_exception.c\<close> has them: \<^verbatim>\<open>RESET\<close> writes CPSR and clears the program counter,
  every other number does nothing. \<^verbatim>\<open>arm_create\<close> of \<^verbatim>\<open>arm_core.c\<close> ends with a reset and so stands
  here.
\<close>

definition CP15_reg1_EEbit :: u32 where
  "CP15_reg1_EEbit = 0"

definition Exception_bit_9 :: u32 where
  "Exception_bit_9 = push_bit 9 CP15_reg1_EEbit"

definition arm_exception :: "arm_core \<Rightarrow> u8 \<Rightarrow> arm_core" where
  "arm_exception p ex =
     (if uint ex = RESET
      then let p = arm_write_cpsr p (0x1d3 OR Exception_bit_9)
           in arm_write_usr_register p 15 0
      else p)"

text \<open>The counter of a fresh core is set after the reset; \<open>c\<close> is what \<^verbatim>\<open>malloc\<close> left there before.\<close>

definition arm_create :: "u32 \<Rightarrow> memory_data \<Rightarrow> arm_core" where
  "arm_create c m =
     (let p = \<lparr>cycle_count = c, core_reg = registers_create, core_mem = m\<rparr>;
          p = arm_exception p (of_int RESET)
      in p\<lparr>cycle_count := 0\<rparr>)"

lemma arm_exception_reset:
  "core_wf p \<Longrightarrow> arm_exception p 1 = arm_write_register (arm_write_cpsr p 0x1d3) 15 0"
  by (simp add: arm_exception_def Exception_bit_9_def CP15_reg1_EEbit_def usr_register_core_wf RESET_def)

lemma arm_exception_other: "ex \<noteq> 1 \<Longrightarrow> arm_exception p ex = p"
  by (simp add: arm_exception_def RESET_def word_uint_eq_iff)

lemma arm_exception_wf [simp, wf_intros]: "core_wf (arm_exception p ex) = core_wf p"
  by (simp add: arm_exception_def Let_def)

lemma arm_exception_frame [simp, frame_simps]:
  "core_mem (arm_exception p ex) = core_mem p"
  "cycle_count (arm_exception p ex) = cycle_count p"
  "get_mode (core_reg (arm_exception p ex)) = get_mode (core_reg p)"
  by (simp_all add: arm_exception_def Let_def)

lemma arm_create_wf [wf_intros]: "mem_wf m \<Longrightarrow> core_wf (arm_create c m)"
  by (simp add: arm_create_def Let_def) (simp add: core_wf_def registers_create_def get_mode_def)

lemma arm_create_state:
  "read_register (core_reg (arm_create c m)) n = 0"
  "arm_read_cpsr (arm_create c m) = 0x1d3"
  "cycle_count (arm_create c m) = 0"
  "core_mem (arm_create c m) = m"
  by (simp_all add: arm_create_def arm_exception_def Let_def Exception_bit_9_def
      CP15_reg1_EEbit_def registers_create_def arm_write_usr_register_def arm_write_cpsr_def
      write_usr_register_def write_cpsr_def read_register_def arm_read_cpsr_def read_cpsr_def RESET_def fun_upd_def
      reg_index [THEN less_imp_neq])

text \<open>
  A small machine for the concrete instances: 32 bytes of big-endian memory, \<open>r1 = 5\<close>, \<open>r2 = 7\<close>,
  everything else as after a reset.
\<close>

definition sample_core :: arm_core where
  "sample_core = arm_write_register (arm_write_register
     (arm_create 0 (memory_create (\<lambda>_. 0) 32 1)) 1 5) 2 7"

lemma sample_core_wf: "core_wf sample_core"
  unfolding sample_core_def by (simp add: arm_create_wf memory_create_wf)

end
