(* ===== verification/Handler.thy ===== *)
theory Handler
  imports Arm_Core
begin

text \<open>
  The contract of an instruction handler, the functions \<^verbatim>\<open>arm_execute_instruction\<close> chooses from: on a
  well-formed processor a handler that returns leaves a well-formed processor, with the same cycle
  count and a memory of the same size and byte order. A total handler always returns. The
  component theories interpret the contract for their handlers; \<^verbatim>\<open>arm_step\<close> relies on it.
\<close>

definition keeps :: "arm_core \<Rightarrow> arm_core \<Rightarrow> bool" where
  "keeps p q \<longleftrightarrow> (core_wf p \<longrightarrow> core_wf q) \<and> cycle_count q = cycle_count p \<and>
     mem_kind (core_mem q) = mem_kind (core_mem p)"

lemma keeps_refl [simp, intro]: "keeps p p"
  by (simp add: keeps_def)

lemma keeps_trans [trans]: "keeps p q \<Longrightarrow> keeps q r \<Longrightarrow> keeps p r"
  by (simp add: keeps_def)

lemma put_kind [simp]:
  "mem_size (core_mem (put_word p a v)) = mem_size (core_mem p)"
  "mem_is_big_endian (core_mem (put_word p a v)) = mem_is_big_endian (core_mem p)"
  "mem_size (core_mem (put_half p a h)) = mem_size (core_mem p)"
  "mem_is_big_endian (core_mem (put_half p a h)) = mem_is_big_endian (core_mem p)"
  "mem_size (core_mem (put_byte p a b)) = mem_size (core_mem p)"
  "mem_is_big_endian (core_mem (put_byte p a b)) = mem_is_big_endian (core_mem p)"
  by (simp_all add: put_defs)

lemma keeps_writes [simp]:
  "keeps p (arm_write_register q n v) = keeps p q"
  "keeps p (arm_write_usr_register q n v) = keeps p q"
  "keeps p (arm_write_cpsr q v) = keeps p q"
  "keeps p (arm_write_spsr q v) = keeps p q"
  by (simp_all add: keeps_def)

lemma keeps_puts [intro]:
  "keeps p q \<Longrightarrow> keeps p (put_word q a v)"
  "keeps p q \<Longrightarrow> keeps p (put_half q a h)"
  "keeps p q \<Longrightarrow> keeps p (put_byte q a b)"
  by (simp_all add: keeps_def put_wf)

locale handler =
  fixes exec :: "arm_core \<Rightarrow> u32 \<Rightarrow> (int \<times> arm_core) cres"
  assumes returns_keeps: "core_wf p \<Longrightarrow> exec p ins = Ret (status, q) \<Longrightarrow> keeps p q"

locale total_handler = handler +
  assumes returns: "core_wf p \<Longrightarrow> exec p ins \<noteq> Exit \<and> exec p ins \<noteq> Undef"

text \<open>A list of instructions given to one handler, as a straight-line block of one class.\<close>

fun exec_all :: "(arm_core \<Rightarrow> u32 \<Rightarrow> (int \<times> arm_core) cres) \<Rightarrow> arm_core \<Rightarrow> u32 list \<Rightarrow> arm_core cres" where
  "exec_all exec p [] = Ret p"
| "exec_all exec p (i # is) = cbind (exec p i) (\<lambda>(_, q). exec_all exec q is)"

context handler
begin

lemma exec_all_keeps: "core_wf p \<Longrightarrow> exec_all exec p is = Ret q \<Longrightarrow> keeps p q"
proof (induction "is" arbitrary: p)
  case (Cons i "is")
  then obtain s r where r: "exec p i = Ret (s, r)" "exec_all exec r is = Ret q" by auto
  then have "keeps p r" using returns_keeps Cons.prems(1) by blast
  then show ?case using Cons.IH [of r] r(2) Cons.prems(1) keeps_trans [of p r q]
    by (auto simp: keeps_def)
qed simp

lemma returns_wf: "core_wf p \<Longrightarrow> exec p ins = Ret (status, q) \<Longrightarrow> core_wf q"
  using returns_keeps by (auto simp: keeps_def)

end

context total_handler
begin

lemma total: "core_wf p \<Longrightarrow> \<exists>s q. exec p ins = Ret (s, q) \<and> keeps p q"
  using returns [of p ins] returns_keeps [of p ins] by (cases "exec p ins") auto

lemma exec_all_total: "core_wf p \<Longrightarrow> \<exists>q. exec_all exec p is = Ret q \<and> keeps p q"
proof (induction "is" arbitrary: p)
  case (Cons i "is")
  from total [OF Cons.prems] obtain s r where r: "exec p i = Ret (s, r)" "keeps p r" by blast
  with Cons.prems have "core_wf r" by (simp add: keeps_def)
  from Cons.IH [OF this] r show ?case by (auto intro: keeps_trans)
qed auto

end

end
