(* ===== verification/Data_Processing.thy ===== *)
theory Data_Processing
  imports Arm_Exception
begin

text \<open>
  The data-processing instructions of \<^verbatim>\<open>arm_data_processing.c\<close>: one definition per function, the
  writes of CPSR in the order of the code, the decoding of the second operand, the dispatch on the
  opcode, and \<^verbatim>\<open>arm_data_processing_immediate_msr\<close>. The comments of the definitions quote what the
  code does where it is not what the opcode's name suggests; the last sections prove it.
\<close>

section \<open>Flags\<close>

definition updateZN :: "arm_core \<Rightarrow> u32 \<Rightarrow> arm_core" where
  "updateZN p result =
     (let p = (if result = 0 then arm_write_cpsr p (arm_read_cpsr p OR push_bit 30 1)
               else arm_write_cpsr p (arm_read_cpsr p AND NOT (push_bit 30 1)))
      in if get_bit result 31 = 1 then arm_write_cpsr p (arm_read_cpsr p OR push_bit 31 1)
         else arm_write_cpsr p (arm_read_cpsr p AND NOT (push_bit 31 1)))"

definition arm_teq :: "arm_core \<Rightarrow> u32 \<Rightarrow> u32 \<Rightarrow> arm_core" where
  "arm_teq p val1 val2 =
     (let result = val1 XOR val2;
          p = updateZN p result
      in arm_write_cpsr p (arm_read_cpsr p AND NOT (push_bit 29 1)))"

definition arm_tst :: "arm_core \<Rightarrow> u32 \<Rightarrow> u32 \<Rightarrow> arm_core" where
  "arm_tst p val1 val2 =
     (let result = val1 AND val2;
          p = updateZN p result
      in arm_write_cpsr p (arm_read_cpsr p AND NOT (push_bit 29 1)))"

text \<open>The tests of V and C that \<^verbatim>\<open>arm_cmp\<close>, \<^verbatim>\<open>arm_cmn\<close> and \<^verbatim>\<open>arm_rsb\<close> write out three times.\<close>

definition set_V :: "arm_core \<Rightarrow> u32 \<Rightarrow> u32 \<Rightarrow> u32 \<Rightarrow> arm_core" where
  "set_V p val1 val2 result =
     (if get_bit val1 31 = get_bit val2 31 \<and> get_bit val1 31 \<noteq> get_bit result 31
      then arm_write_cpsr p (arm_read_cpsr p OR push_bit 28 1)
      else arm_write_cpsr p (arm_read_cpsr p AND NOT (push_bit 28 1)))"

definition set_C :: "arm_core \<Rightarrow> u32 \<Rightarrow> u32 \<Rightarrow> u8 \<Rightarrow> arm_core" where
  "set_C p left right c =
     (let p = (if left < right \<and> c = 0 then arm_write_cpsr p (set_bit_c (arm_read_cpsr p) 29) else p)
      in if left \<ge> right \<and> c \<noteq> 0 then arm_write_cpsr p (clr_bit (arm_read_cpsr p) 29) else p)"

definition arm_cmp :: "arm_core \<Rightarrow> u32 \<Rightarrow> u32 \<Rightarrow> u8 \<Rightarrow> u8 \<Rightarrow> arm_core" where
  "arm_cmp p val1 val2 c v =
     (let result = val1 - val2;
          p = updateZN p result;
          p = set_V p val1 val2 result
      in set_C p (0xffffffff - val1) (NOT val2 + 1) c)"

definition arm_cmn :: "arm_core \<Rightarrow> u32 \<Rightarrow> u32 \<Rightarrow> u8 \<Rightarrow> arm_core" where
  "arm_cmn p val1 val2 c =
     (let result = val1 + val2;
          p = updateZN p result;
          p = set_V p val1 val2 result
      in set_C p (0xffffffff - val1) val2 c)"

section \<open>Operations\<close>

text \<open>An operation that returns its result returns it with the state.\<close>

definition arm_and :: "arm_core \<Rightarrow> u32 \<Rightarrow> u32 \<Rightarrow> u8 \<Rightarrow> u32 \<times> arm_core" where
  "arm_and p val1 val2 s = (val1 AND val2, if s \<noteq> 0 then arm_tst p val1 val2 else p)"

definition arm_eor :: "arm_core \<Rightarrow> u32 \<Rightarrow> u32 \<Rightarrow> u8 \<Rightarrow> u32 \<times> arm_core" where
  "arm_eor p val1 val2 s = (val1 XOR val2, if s \<noteq> 0 then arm_teq p val1 val2 else p)"

definition arm_sub :: "arm_core \<Rightarrow> u32 \<Rightarrow> u32 \<Rightarrow> u8 \<Rightarrow> u8 \<Rightarrow> u8 \<Rightarrow> u32 \<times> arm_core" where
  "arm_sub p val1 val2 s c v = (val1 - val2, if s \<noteq> 0 then arm_cmp p val1 val2 c v else p)"

definition arm_orr :: "arm_core \<Rightarrow> u32 \<Rightarrow> u32 \<Rightarrow> u8 \<Rightarrow> u32 \<times> arm_core" where
  "arm_orr p val1 val2 s =
     (let result = val1 OR val2 in (result, if s \<noteq> 0 then updateZN p result else p))"

definition arm_add :: "arm_core \<Rightarrow> u32 \<Rightarrow> u32 \<Rightarrow> u8 \<Rightarrow> u8 \<Rightarrow> u8 \<Rightarrow> u32 \<times> arm_core" where
  "arm_add p val1 val2 s c v = (val1 + val2, if s \<noteq> 0 then arm_cmp p val1 val2 c v else p)"

definition arm_bic :: "arm_core \<Rightarrow> u32 \<Rightarrow> u32 \<Rightarrow> u8 \<Rightarrow> u32 \<times> arm_core" where
  "arm_bic p val1 val2 s =
     (val1 AND NOT val2, if s \<noteq> 0 then arm_tst p val1 (NOT val2) else p)"

definition arm_mov :: "arm_core \<Rightarrow> u8 \<Rightarrow> u32 \<Rightarrow> u8 \<Rightarrow> arm_core" where
  "arm_mov p rd val_2 s =
     (let p = arm_write_register p rd val_2;
          result = arm_read_register p rd
      in if s \<noteq> 0 then updateZN p result else p)"

definition arm_mvn :: "arm_core \<Rightarrow> u8 \<Rightarrow> u32 \<Rightarrow> u8 \<Rightarrow> arm_core" where
  "arm_mvn p rd val s =
     (let p = arm_write_register p rd (NOT val);
          result = arm_read_register p rd
      in if s \<noteq> 0 then updateZN p result else p)"

definition arm_sbc :: "arm_core \<Rightarrow> u32 \<Rightarrow> u32 \<Rightarrow> u8 \<Rightarrow> u8 \<Rightarrow> u8 \<Rightarrow> u32 \<times> arm_core" where
  "arm_sbc p val1 val2 c s v =
     (val1 - val2 - of_bool (c = 0),
      if s \<noteq> 0 then arm_cmp p val1 (val2 - NOT (get_bit (arm_read_cpsr p) 29)) c v else p)"

definition arm_adc :: "arm_core \<Rightarrow> u32 \<Rightarrow> u32 \<Rightarrow> u8 \<Rightarrow> u8 \<Rightarrow> u32 \<times> arm_core" where
  "arm_adc p val1 val2 c s =
     (val1 + val2 + ucast c,
      if s \<noteq> 0 then arm_cmn p val1 (val2 + get_bit (arm_read_cpsr p) 29) c else p)"

definition arm_rsb :: "arm_core \<Rightarrow> u8 \<Rightarrow> u32 \<Rightarrow> u32 \<Rightarrow> u8 \<Rightarrow> u8 \<Rightarrow> u8 \<Rightarrow> arm_core" where
  "arm_rsb p rd val_1 val_2 s c v =
     (let result = val_1 - val_2;
          p = arm_write_register p rd result
      in if s \<noteq> 0
         then let p = updateZN p result;
                  p = set_C p (0xffffffff - val_2) (NOT val_1 + 1) c
              in set_V p val_2 val_1 result
         else p)"

text \<open>The last test reads the carry bit of CPSR and compares a bit with its complement.\<close>

definition arm_rsc :: "arm_core \<Rightarrow> u8 \<Rightarrow> u32 \<Rightarrow> u32 \<Rightarrow> u8 \<Rightarrow> u8 \<Rightarrow> arm_core" where
  "arm_rsc p rd val_1 val_2 s c =
     (let result = val_2 - val_1 - of_bool (c = 0);
          p = arm_write_register p rd result
      in if s \<noteq> 0
         then let p = updateZN p result;
                  p = set_C p (0xffffffff - val_2 - ucast c) (NOT val_1 + 2) c
              in if get_bit val_2 31 = get_bit val_2 31 \<and>
                    get_bit val_2 31 = NOT (get_bit (arm_read_cpsr p) 29) \<and>
                    get_bit val_2 31 \<noteq> get_bit result 31
                 then arm_write_cpsr p (arm_read_cpsr p OR push_bit 28 1)
                 else arm_write_cpsr p (arm_read_cpsr p AND NOT (push_bit 28 1))
         else p)"

section \<open>Operand decoding\<close>

text \<open>
  The shifts of \<^verbatim>\<open>apply_rotation_imm\<close> are shifts of an \<^verbatim>\<open>int\<close> with a value below 256; the count of
  the left one is negative when the rotation field exceeds 4.
\<close>

definition apply_rotation_imm :: "u32 \<Rightarrow> u32 cres" where
  "apply_rotation_imm ins =
     (let rotation_imm = ucast (drop_bit 8 (ins AND 0xf00)) :: u8;
          immed_8 = ucast (ins AND 0xff) :: u8
      in if rotation_imm \<noteq> 0
         then cbind (c_shr (ucast immed_8) (uint rotation_imm * 2)) (\<lambda>lo.
              cbind (c_shl (ucast immed_8) (8 - uint rotation_imm * 2)) (\<lambda>hi. Ret (lo OR hi)))
         else Ret (ucast immed_8))"

text \<open>\<open>None\<close> is the return value \<^verbatim>\<open>-1\<close>, after which the caller leaves without using the operands.\<close>

definition decode_operand :: "arm_core \<Rightarrow> u32 \<Rightarrow> (u32 \<times> u32) option cres" where
  "decode_operand p ins =
     (let rn = drop_bit 16 ins AND 0xf;
          bit_25 = ucast (get_bit ins 25) :: u8;
          bit_7 = ucast (get_bit ins 7) :: u8;
          bit_4 = ucast (get_bit ins 4) :: u8;
          val_1 = arm_read_register p (ucast rn)
      in if bit_25 = 1
         then cbind (apply_rotation_imm ins) (\<lambda>val_2. Ret (Some (val_1, val_2)))
         else
           let rm = ins AND 0xf;
               shift = ucast (drop_bit 5 ins AND 2) :: u8;
               val_2 = arm_read_register p (ucast rm);
               shift_by = (\<lambda>val_shift :: u8.
                 cbind (if shift = LSL then c_shl val_2 (uint val_shift)
                        else if shift = LSR then c_shr val_2 (uint val_shift)
                        else if shift = ASR then asr val_2 val_shift
                        else if shift = ROR then ror val_2 val_shift
                        else Ret val_2) (\<lambda>val_2. Ret (Some (val_1, val_2))))
           in if bit_4 = 0 then shift_by (ucast (drop_bit 7 ins AND 31))
              else if bit_7 = 0
              then let rs = drop_bit 8 ins AND 0xf
                   in shift_by (ucast (arm_read_register p (ucast rs)))
              else Ret None)"

section \<open>Dispatch\<close>

text \<open>
  The switch of \<^verbatim>\<open>arm_data_processing_shift\<close>: an opcode that leaves it through \<^verbatim>\<open>break\<close> has its
  result written to \<^verbatim>\<open>rd\<close> after the switch, the others return inside it. The arguments of \<^verbatim>\<open>arm_rsc\<close>
  stand in the order the code passes them, the first operand where the register number belongs.
\<close>

definition dp_switch ::
    "arm_core \<Rightarrow> u8 \<Rightarrow> u8 \<Rightarrow> u32 \<Rightarrow> u32 \<Rightarrow> u8 \<Rightarrow> u8 \<Rightarrow> u8 \<Rightarrow> int \<times> arm_core" where
  "dp_switch p opcode rd val_1 val_2 bit_s bit_c bit_v =
     (let write_rd = (\<lambda>(res, p). (0, arm_write_register p rd res))
      in if opcode = 0 then write_rd (arm_and p val_1 val_2 bit_s)
         else if opcode = 1 then write_rd (arm_eor p val_1 val_2 bit_s)
         else if opcode = 2 then write_rd (arm_sub p val_1 val_2 bit_s bit_c bit_v)
         else if opcode = 3 then (0, arm_rsb p rd val_1 val_2 bit_s bit_c bit_v)
         else if opcode = 4 then write_rd (arm_add p val_1 val_2 bit_s bit_c bit_v)
         else if opcode = 5 then write_rd (arm_adc p val_1 val_2 bit_c bit_s)
         else if opcode = 6 then write_rd (arm_sbc p val_1 val_2 bit_c bit_s bit_v)
         else if opcode = 7 then (0, arm_rsc p (ucast val_1) (ucast rd) val_2 bit_s bit_c)
         else if opcode = 8 then (0, arm_tst p val_1 val_2)
         else if opcode = 9 then (0, arm_teq p val_1 val_2)
         else if opcode = 10 then (0, arm_cmp p val_1 val_2 bit_c bit_v)
         else if opcode = 11 then (0, arm_cmn p val_1 val_2 bit_c)
         else if opcode = 12 then write_rd (arm_orr p val_1 val_2 bit_s)
         else if opcode = 13 then (0, arm_mov p rd val_2 bit_s)
         else if opcode = 14 then write_rd (arm_bic p val_1 val_2 bit_s)
         else if opcode = 15 then (0, arm_mvn p rd val_2 bit_s)
         else (UNDEFINED_INSTRUCTION, p))"

definition arm_data_processing_shift :: "arm_core \<Rightarrow> u32 \<Rightarrow> (int \<times> arm_core) cres" where
  "arm_data_processing_shift p ins =
     (if ConditionPassed (arm_read_cpsr p) ins
      then
        let bit_s = ucast (get_bit ins 20) :: u8;
            bit_c = ucast (get_bit (arm_read_cpsr p) 29) :: u8;
            bit_v = ucast (get_bit (arm_read_cpsr p) 28) :: u8;
            rd = ucast (drop_bit 12 ins AND 0xf) :: u8
        in cbind (decode_operand p ins) (\<lambda>isdataproc.
          case isdataproc of
            None \<Rightarrow> Ret (UNDEFINED_INSTRUCTION, p)
          | Some (val_1, val_2) \<Rightarrow>
             let opcode = ucast (drop_bit 21 ins AND 0xf) :: u8
             in Ret (dp_switch p opcode rd val_1 val_2 bit_s bit_c bit_v))
      else Ret (UNDEFINED_INSTRUCTION, p))"

text \<open>
  In \<^verbatim>\<open>fieldC ? tmp = 0x000000FF : 0x00000000\<close> only a set field assigns its variable; the others are
  read uninitialised. The function is declared in the header and called from nowhere.
\<close>

definition arm_data_processing_immediate_msr :: "arm_core \<Rightarrow> u32 \<Rightarrow> (int \<times> arm_core) cres" where
  "arm_data_processing_immediate_msr p ins =
     cbind (apply_rotation_imm ins) (\<lambda>val_rotated.
       let bit_r = get_bit ins 22;
           fieldC = get_bit ins 16;
           fieldX = get_bit ins 17;
           fieldS = get_bit ins 18;
           fieldF = get_bit ins 19
       in if ConditionPassed (arm_read_cpsr p) ins
          then if get_bits ins 23 5 = 6 \<and> get_bits ins 20 2 = 2
               then if val_rotated AND UnallocMask \<noteq> 0 then Ret (UNDEFINED_INSTRUCTION, p)
                    else if fieldC = 0 \<or> fieldX = 0 \<or> fieldS = 0 \<or> fieldF = 0 then Undef
                    else let bytemask = (0x000000FF OR 0x0000FF00 OR 0x00FF0000 OR 0xFF000000) :: u32
                         in if bit_r = 0
                            then if arm_in_a_privileged_mode p \<noteq> 0
                                 then if val_rotated AND StateMask \<noteq> 0
                                      then Ret (UNDEFINED_INSTRUCTION, p)
                                      else let mask = bytemask AND (UserMask OR PrivMask)
                                           in Ret (0, arm_write_cpsr p ((arm_read_cpsr p AND NOT mask) OR
                                                (val_rotated AND mask)))
                                 else let mask = bytemask AND UserMask
                                      in Ret (0, arm_write_cpsr p ((arm_read_cpsr p AND NOT mask) OR
                                           (val_rotated AND mask)))
                            else if arm_current_mode_has_spsr p \<noteq> 0
                                 then let mask = bytemask AND (UserMask OR PrivMask OR StateMask)
                                      in Ret (0, arm_write_spsr p ((arm_read_spsr p AND NOT mask) OR
                                           (val_rotated AND mask)))
                                 else Ret (UNDEFINED_INSTRUCTION, p)
               else Ret (UNDEFINED_INSTRUCTION, p)
          else Ret (UNDEFINED_INSTRUCTION, p))"

section \<open>CPSR is all the flag operations write\<close>

text \<open>Each flag operation is one write of CPSR; \<open>cpsr_to\<close> names the value it writes.\<close>

definition ZN_of :: "u32 \<Rightarrow> u32 \<Rightarrow> u32" where
  "ZN_of cpsr r =
     (let z = (if r = 0 then set_bit_c cpsr 30 else clr_bit cpsr 30)
      in if bit r 31 then set_bit_c z 31 else clr_bit z 31)"

definition V_of :: "u32 \<Rightarrow> u32 \<Rightarrow> u32 \<Rightarrow> u32 \<Rightarrow> u32" where
  "V_of cpsr a b r =
     (if bit a 31 = bit b 31 \<and> bit a 31 \<noteq> bit r 31 then set_bit_c cpsr 28 else clr_bit cpsr 28)"

definition C_of :: "u32 \<Rightarrow> u32 \<Rightarrow> u32 \<Rightarrow> u8 \<Rightarrow> u32" where
  "C_of cpsr left right c =
     (if left < right \<and> c = 0 then set_bit_c cpsr 29
      else if \<not> left < right \<and> c \<noteq> 0 then clr_bit cpsr 29 else cpsr)"

lemma updateZN_eq: "updateZN p r = arm_write_cpsr p (ZN_of (arm_read_cpsr p) r)"
  by (simp add: updateZN_def ZN_of_def Let_def set_bit_c_def clr_bit_def)

lemma set_V_eq: "set_V p a b r = arm_write_cpsr p (V_of (arm_read_cpsr p) a b r)"
  by (simp add: set_V_def V_of_def set_bit_c_def clr_bit_def)

lemma set_C_eq: "set_C p left right c = arm_write_cpsr p (C_of (arm_read_cpsr p) left right c)"
  by (simp add: set_C_def C_of_def Let_def not_less)

lemma all_ones_minus: "0xffffffff - (a :: u32) = NOT a"
  by (simp add: not_eq_complement)

lemma arm_cmp_eq: "arm_cmp p a b c v = arm_write_cpsr p
    (C_of (V_of (ZN_of (arm_read_cpsr p) (a - b)) a b (a - b)) (NOT a) (- b) c)"
  by (simp add: arm_cmp_def Let_def updateZN_eq set_V_eq set_C_eq all_ones_minus minus_eq_not_plus_1)

lemma arm_cmn_eq: "arm_cmn p a b c = arm_write_cpsr p
    (C_of (V_of (ZN_of (arm_read_cpsr p) (a + b)) a b (a + b)) (NOT a) b c)"
  by (simp add: arm_cmn_def Let_def updateZN_eq set_V_eq set_C_eq all_ones_minus minus_eq_not_plus_1)

lemma arm_teq_eq: "arm_teq p a b = arm_write_cpsr p (clr_bit (ZN_of (arm_read_cpsr p) (a XOR b)) 29)"
  by (simp add: arm_teq_def Let_def updateZN_eq clr_bit_def)

lemma arm_tst_eq: "arm_tst p a b = arm_write_cpsr p (clr_bit (ZN_of (arm_read_cpsr p) (a AND b)) 29)"
  by (simp add: arm_tst_def Let_def updateZN_eq clr_bit_def)

lemmas flag_op_eqs = updateZN_eq set_V_eq set_C_eq arm_cmp_eq arm_cmn_eq arm_teq_eq arm_tst_eq

lemma bit_ZN_of [simp]:
  "bit (ZN_of cpsr r) n \<longleftrightarrow>
    (if n = 31 then bit r 31 else if n = 30 then r = 0 else bit cpsr n)"
  by (auto simp: ZN_of_def Let_def)

lemma bit_V_of [simp]:
  "bit (V_of cpsr a b r) n \<longleftrightarrow>
    (if n = 28 then bit a 31 = bit b 31 \<and> bit a 31 \<noteq> bit r 31 else bit cpsr n)"
  by (auto simp: V_of_def)

lemma bit_C_of:
  "bit (C_of cpsr left right c) n \<longleftrightarrow>
    (if n = 29 then (if c = 0 then left < right \<or> bit cpsr 29 else left < right \<and> bit cpsr 29)
     else bit cpsr n)"
  by (auto simp: C_of_def)

text \<open>With the carry passed in that CPSR holds, the carry out is the comparison.\<close>

lemma bit_C_of_carry [simp]:
  assumes "c \<noteq> 0 \<longleftrightarrow> bit cpsr 29"
  shows "bit (C_of cpsr left right c) n \<longleftrightarrow> (if n = 29 then left < right else bit cpsr n)"
  using assms by (auto simp: bit_C_of)

definition only_cpsr :: "arm_core \<Rightarrow> arm_core \<Rightarrow> bool" where
  "only_cpsr p p' \<longleftrightarrow> p' = arm_write_cpsr p (arm_read_cpsr p') \<and>
     (\<forall>n < 28. bit (arm_read_cpsr p') n = bit (arm_read_cpsr p) n)"

lemma only_cpsr_refl [simp]: "only_cpsr p p"
  by (simp add: only_cpsr_def)

lemma only_cpsr_flag_ops [simp, frame_simps]:
  "only_cpsr p (updateZN p r)"
  "only_cpsr p (arm_cmp p a b c v)"
  "only_cpsr p (arm_cmn p a b c)"
  "only_cpsr p (arm_teq p a b)"
  "only_cpsr p (arm_tst p a b)"
  by (simp_all add: only_cpsr_def flag_op_eqs bit_C_of)

lemma only_cpsr_results [simp, frame_simps]:
  "only_cpsr p (snd (arm_and p a b s))"
  "only_cpsr p (snd (arm_eor p a b s))"
  "only_cpsr p (snd (arm_sub p a b s c v))"
  "only_cpsr p (snd (arm_orr p a b s))"
  "only_cpsr p (snd (arm_add p a b s c v))"
  "only_cpsr p (snd (arm_bic p a b s))"
  "only_cpsr p (snd (arm_sbc p a b c s v))"
  "only_cpsr p (snd (arm_adc p a b c s))"
  by (simp_all add: arm_and_def arm_eor_def arm_sub_def arm_orr_def arm_add_def arm_bic_def
      arm_sbc_def arm_adc_def Let_def)

lemma only_cpsr_frame:
  assumes "only_cpsr p p'"
  shows "core_mem p' = core_mem p" and "cycle_count p' = cycle_count p"
    and "arm_read_register p' n = arm_read_register p n" and "core_wf p' = core_wf p"
proof -
  obtain v where "p' = arm_write_cpsr p v" using assms unfolding only_cpsr_def by blast
  then show "core_mem p' = core_mem p" "cycle_count p' = cycle_count p"
    "arm_read_register p' n = arm_read_register p n" "core_wf p' = core_wf p" by simp_all
qed

lemma only_cpsr_trans: "only_cpsr p q \<Longrightarrow> only_cpsr q r \<Longrightarrow> only_cpsr p r"
  unfolding only_cpsr_def by (metis arm_write_cpsr_twice)

lemma only_cpsr_clr [simp]: "28 \<le> i \<Longrightarrow> only_cpsr p (arm_write_cpsr p (clr_bit (arm_read_cpsr p) i))"
  by (simp add: only_cpsr_def)

lemma only_cpsr_sets [simp, frame_simps]:
  "only_cpsr p (set_V p a b r)"
  "only_cpsr p (set_C p left right c)"
  by (simp_all add: only_cpsr_def flag_op_eqs bit_C_of)

lemma flags_register_commute:
  "updateZN (arm_write_register p n v) r = arm_write_register (updateZN p r) n v"
  "set_V (arm_write_register p n v) a b r = arm_write_register (set_V p a b r) n v"
  "set_C (arm_write_register p n v) left right c = arm_write_register (set_C p left right c) n v"
  by (simp_all add: flag_op_eqs arm_write_register_cpsr)

text \<open>The operations that write \<^verbatim>\<open>rd\<close> themselves, as a change of CPSR and one write.\<close>

lemma arm_mov_eq: "arm_mov p rd a s = arm_write_register
    (if s \<noteq> 0 then updateZN p (arm_read_register (arm_write_register p rd a) rd) else p) rd a"
  by (simp add: arm_mov_def Let_def flags_register_commute)

lemma arm_mvn_eq: "arm_mvn p rd a s = arm_mov p rd (NOT a) s"
  by (simp add: arm_mvn_def arm_mov_def)

lemma arm_rsb_eq: "arm_rsb p rd a b s c w = arm_write_register
    (if s \<noteq> 0 then set_V (set_C (updateZN p (a - b)) (NOT b) (- a) c) b a (a - b) else p) rd (a - b)"
  by (simp add: arm_rsb_def Let_def flags_register_commute all_ones_minus minus_eq_not_plus_1)

lemma bit_not_its_complement: "(of_bool x :: u32) \<noteq> NOT (of_bool y)"
  by (cases x; cases y) simp_all

lemma arm_rsc_eq: "arm_rsc p rd a b s c =
    (let r = b - a - of_bool (c = 0);
         q = set_C (updateZN p r) (NOT b - ucast c) (NOT a + 2) c
     in arm_write_register
       (if s \<noteq> 0 then arm_write_cpsr q (clr_bit (arm_read_cpsr q) 28) else p) rd r)"
  unfolding arm_rsc_def Let_def get_bit_eq
  by (simp add: bit_not_its_complement flags_register_commute all_ones_minus
      arm_write_register_cpsr del: of_bool_eq_iff) (simp add: clr_bit_def arm_write_register_cpsr)

section \<open>What the flags mean\<close>

lemma sint_bounds: "- (2 ^ 31) \<le> sint (a :: u32)" "sint a < 2 ^ 31"
  using sint_greater_eq [of a] sint_less [of a] by simp_all

lemma sint_add_cases:
  "sint ((a :: u32) + b) =
    (let s = sint a + sint b
     in if s < - (2 ^ 31) then s + 2 ^ 32 else if 2 ^ 31 \<le> s then s - 2 ^ 32 else s)"
proof -
  have "sint (a + b) = signed_take_bit 31 (sint a + sint b)"
    by (simp add: sint_word_ariths)
  also have "\<dots> = (sint a + sint b + 2 ^ 31) mod 2 ^ 32 - 2 ^ 31"
    by (simp add: signed_take_bit_eq_take_bit_shift take_bit_eq_mod)
  finally have eq: "sint (a + b) = (sint a + sint b + 2 ^ 31) mod 2 ^ 32 - 2 ^ 31" .
  have wrap: "t mod 2 ^ 32 = (if t < 0 then t + 2 ^ 32 else if 2 ^ 32 \<le> t then t - 2 ^ 32 else t)"
    if "- (2 ^ 32) \<le> t" "t < 2 ^ 33" for t :: int
    using that mod_pos_pos_trivial [of t "2 ^ 32"] mod_pos_pos_trivial [of "t + 2 ^ 32" "2 ^ 32"]
      mod_pos_pos_trivial [of "t - 2 ^ 32" "2 ^ 32"] minus_mod_self2 [of t "2 ^ 32"] by auto
  show ?thesis unfolding eq Let_def
    using sint_bounds [of a] sint_bounds [of b] by (subst wrap) auto
qed

lemma unat_NOT: "unat (NOT (a :: u32)) = 2 ^ 32 - 1 - unat a"
proof -
  have "NOT a = (2 ^ 32 - 1) - a" by (simp add: not_eq_complement)
  also have "unat \<dots> = unat (2 ^ 32 - 1 :: u32) - unat a"
    using unsigned_less [of a, where 'a = nat] by (intro unat_sub) (simp add: word_le_nat_alt)
  finally show ?thesis by simp
qed

lemma carry_of_add: "NOT (a :: u32) < b \<longleftrightarrow> 2 ^ 32 \<le> unat a + unat b"
  using unsigned_less [of a, where 'a = nat] by (auto simp: word_less_nat_alt unat_NOT)

lemma borrow_of_sub: "NOT (a :: u32) < - b \<longleftrightarrow> b \<noteq> 0 \<and> b \<le> a"
proof (cases "b = 0")
  case False
  then have "unat (- b) = 2 ^ 32 - unat b"
    using unat_NOT [of "b - 1"] unat_minus_one [OF False] unat_gt_0 [of b]
    by (simp add: not_eq_complement)
  moreover have "unat b < 2 ^ 32" "0 < unat b"
    using unsigned_less [of b] False by (simp_all add: unat_gt_0)
  ultimately show ?thesis using False by (auto simp: carry_of_add word_le_nat_alt)
qed simp

lemma overflow_of_add:
  "bit (a :: u32) 31 = bit b 31 \<and> bit a 31 \<noteq> bit (a + b) 31 \<longleftrightarrow>
    sint (a + b) \<noteq> sint a + sint b"
  using sint_bounds [of a] sint_bounds [of b]
  by (auto simp: u32_msb_sint sint_add_cases Let_def)

text \<open>The condition flags as four truth values, and those an addition has by the ARM manual.\<close>

record nzcv =
  flag_N :: bool
  flag_Z :: bool
  flag_C :: bool
  flag_V :: bool

definition nzcv_of :: "arm_core \<Rightarrow> nzcv" where
  "nzcv_of p = \<lparr>flag_N = bit (arm_read_cpsr p) 31, flag_Z = bit (arm_read_cpsr p) 30,
     flag_C = bit (arm_read_cpsr p) 29, flag_V = bit (arm_read_cpsr p) 28\<rparr>"

definition add_flags :: "u32 \<Rightarrow> u32 \<Rightarrow> nzcv" where
  "add_flags a b = \<lparr>flag_N = sint (a + b) < 0, flag_Z = a + b = 0,
     flag_C = 2 ^ 32 \<le> unat a + unat b, flag_V = sint (a + b) \<noteq> sint a + sint b\<rparr>"

definition sub_flags :: "u32 \<Rightarrow> u32 \<Rightarrow> nzcv" where
  "sub_flags a b = \<lparr>flag_N = sint (a - b) < 0, flag_Z = a = b,
     flag_C = b \<le> a, flag_V = sint (a - b) \<noteq> sint a - sint b\<rparr>"

definition carry_in :: "arm_core \<Rightarrow> u8" where
  "carry_in p = ucast (get_bit (arm_read_cpsr p) 29)"

lemma carry_in_eq: "carry_in p = of_bool (bit (arm_read_cpsr p) 29)"
  by (simp add: carry_in_def)

lemma carry_in_nonzero [simp]: "carry_in p \<noteq> 0 \<longleftrightarrow> bit (arm_read_cpsr p) 29"
  by (simp add: carry_in_eq)

lemma nzcv_of_cmn [flag_simps]: "nzcv_of (arm_cmn p a b (carry_in p)) = add_flags a b"
  by (simp add: nzcv_of_def add_flags_def arm_cmn_eq carry_of_add overflow_of_add [simplified]
      u32_msb_sint [symmetric])

lemma nzcv_of_cmp [flag_simps]:
  "nzcv_of (arm_cmp p a b (carry_in p) v) =
     (sub_flags a b)\<lparr>flag_C := b \<noteq> 0 \<and> b \<le> a,
       flag_V := bit a 31 = bit b 31 \<and> bit a 31 \<noteq> bit (a - b) 31\<rparr>"
  by (simp add: nzcv_of_def sub_flags_def arm_cmp_eq borrow_of_sub u32_msb_sint [symmetric])

section \<open>Fields of the instruction\<close>

lemma low_mask_eqs:
  "(x :: u32) AND 0xff = take_bit 8 x" "x AND 31 = take_bit 5 x" "x AND 0xf = take_bit 4 x"
  by (simp_all add: take_bit_eq_mask mask_eq_exp_minus_1)

lemma rotation_field: "drop_bit 8 (ins AND 0xf00) = get_bits ins 11 8"
proof -
  have m: "(0xf00 :: u32) = push_bit 8 (mask 4)" by (simp add: mask_eq_exp_minus_1 push_bit_eq_mult)
  show ?thesis unfolding m by (rule bit_word_eqI) (auto simp: bit_simps)
qed

lemma unat_ucast_u8: "unat (x :: u32) < 256 \<Longrightarrow> unat (ucast x :: u8) = unat x"
  by (simp add: unsigned_ucast_eq take_bit_eq_mod)

lemma ucast_ucast_u8: "unat (x :: u32) < 256 \<Longrightarrow> ucast (ucast x :: u8) = x"
  by (simp add: word_unat_eq_iff unsigned_ucast_eq take_bit_eq_mod)

definition rotation :: "u32 \<Rightarrow> nat" where
  "rotation ins = unat (get_bits ins 11 8)"

lemma rotation_less: "rotation ins < 16"
  using unat_get_bits_less [of ins 11 8] by (simp add: rotation_def)

lemma apply_rotation_imm_eq:
  "apply_rotation_imm ins =
     (if 4 < rotation ins then Undef
      else if rotation ins = 0 then Ret (take_bit 8 ins)
      else Ret (drop_bit (2 * rotation ins) (take_bit 8 ins) OR
                push_bit (8 - 2 * rotation ins) (take_bit 8 ins)))"
proof -
  let ?rot = "ucast (get_bits ins 11 8) :: u8"
  have r: "unat ?rot = rotation ins"
    using rotation_less [of ins] by (subst unat_ucast_u8) (simp_all add: rotation_def)
  then have ui: "uint ?rot = int (rotation ins)" by (simp only: uint_nat)
  have z: "?rot = 0 \<longleftrightarrow> rotation ins = 0" by (simp add: unat_eq_0 flip: r)
  have imm: "ucast (ucast (take_bit 8 ins) :: u8) = take_bit 8 ins"
    by (rule bit_word_eqI) (auto simp: bit_simps)
  show ?thesis
    unfolding apply_rotation_imm_def Let_def rotation_field low_mask_eqs z ui imm
    using rotation_less [of ins]
    by (auto simp: c_shr_def c_shl_def nat_mult_distrib nat_diff_distrib' mult.commute)
qed

lemma apply_rotation_imm_not_Exit [simp]: "apply_rotation_imm ins \<noteq> Exit"
  by (simp add: apply_rotation_imm_eq)

text \<open>The register and shift fields of a data-processing instruction.\<close>

definition rn_of :: "u32 \<Rightarrow> u8" where "rn_of ins = ucast (get_bits ins 19 16)"
definition rd_of :: "u32 \<Rightarrow> u8" where "rd_of ins = ucast (get_bits ins 15 12)"
definition rs_of :: "u32 \<Rightarrow> u8" where "rs_of ins = ucast (get_bits ins 11 8)"
definition rm_of :: "u32 \<Rightarrow> u8" where "rm_of ins = ucast (get_bits ins 3 0)"
definition opcode_of :: "u32 \<Rightarrow> u8" where "opcode_of ins = ucast (get_bits ins 24 21)"
definition shift_imm_of :: "u32 \<Rightarrow> u8" where "shift_imm_of ins = ucast (get_bits ins 11 7)"

lemma field_eqs:
  "drop_bit 16 ins AND 0xf = get_bits ins 19 16"
  "drop_bit 12 ins AND 0xf = get_bits ins 15 12"
  "drop_bit 8 ins AND 0xf = get_bits ins 11 8"
  "drop_bit 21 ins AND 0xf = get_bits ins 24 21"
  "drop_bit 7 ins AND 31 = get_bits ins 11 7"
  "ins AND 0xf = get_bits ins 3 0"
  by (simp_all add: low_mask_eqs get_bits_eq)

lemmas field_folds = rn_of_def [symmetric] rd_of_def [symmetric] rs_of_def [symmetric]
  rm_of_def [symmetric] opcode_of_def [symmetric] shift_imm_of_def [symmetric]

lemma nibble_less: "h = l + 3 \<Longrightarrow> ucast (get_bits ins h l) < (16 :: u8)"
  using unat_get_bits_less [of ins h l] by (simp add: word_less_nat_alt unat_ucast_u8)

lemma register_field_less [simp]:
  "rn_of ins < 16" "rd_of ins < 16" "rs_of ins < 16" "rm_of ins < 16" "opcode_of ins < 16"
  by (simp_all add: rn_of_def rd_of_def rs_of_def rm_of_def opcode_of_def nibble_less)

lemma shift_kind: "(ucast (drop_bit 5 (ins :: u32) AND 2) :: u8) = (if bit ins 6 then ASR else LSL)"
proof -
  have "drop_bit 5 ins AND 2 = (if bit ins 6 then 2 else 0)"
    by (rule bit_word_eqI) (auto simp: bit_simps bit_2_iff)
  then show ?thesis by (simp add: shift_kind_defs)
qed

text \<open>The second operand when it is a register: the count, then one of two shifts.\<close>

definition shift_operand :: "u32 \<Rightarrow> u32 \<Rightarrow> u8 \<Rightarrow> u32 cres" where
  "shift_operand ins x k = (if bit ins 6 then asr x k else c_shl x (uint k))"

lemma decode_operand_eq:
  "decode_operand p ins =
     (if bit ins 25
      then cbind (apply_rotation_imm ins) (\<lambda>b. Ret (Some (arm_read_register p (rn_of ins), b)))
      else if bit ins 4 \<and> bit ins 7 then Ret None
      else cbind (shift_operand ins (arm_read_register p (rm_of ins))
             (if bit ins 4 then ucast (arm_read_register p (rs_of ins)) else shift_imm_of ins))
           (\<lambda>b. Ret (Some (arm_read_register p (rn_of ins), b))))"
  unfolding decode_operand_def Let_def field_eqs(1-5)
  unfolding field_eqs(6) field_folds shift_kind
  by (simp add: shift_operand_def shift_kind_defs)

lemma decode_operand_not_Exit [simp]: "decode_operand p ins \<noteq> Exit"
  by (auto simp: decode_operand_eq shift_operand_def cbind_def split: cres.splits)

lemma decode_operand_first:
  "decode_operand p ins = Ret (Some (a, b)) \<Longrightarrow> a = arm_read_register p (rn_of ins)"
  by (auto simp: decode_operand_eq split: if_splits)

end
