(* ===== verification/Data_Processing_Props.thy ===== *)
theory Data_Processing_Props
  imports Data_Processing Handler
begin

text \<open>
  What a data-processing instruction does as a whole: the effect of every opcode on the state, the
  results against an independent table of the ARM results, the flags of the comparisons against
  those of the exact addition and subtraction, and where an instruction has no defined meaning.
\<close>

section \<open>The instruction in terms of its fields\<close>

definition dp_run :: "arm_core \<Rightarrow> u32 \<Rightarrow> u32 \<times> u32 \<Rightarrow> int \<times> arm_core" where
  "dp_run p ins ab = dp_switch p (opcode_of ins) (rd_of ins) (fst ab) (snd ab)
     (of_bool (bit ins 20)) (carry_in p) (of_bool (bit (arm_read_cpsr p) 28))"

lemma arm_data_processing_shift_eq:
  "arm_data_processing_shift p ins =
     (if ConditionPassed (arm_read_cpsr p) ins
      then cbind (decode_operand p ins) (\<lambda>ops.
        Ret (case ops of None \<Rightarrow> (UNDEFINED_INSTRUCTION, p) | Some ab \<Rightarrow> dp_run p ins ab))
      else Ret (UNDEFINED_INSTRUCTION, p))"
  unfolding arm_data_processing_shift_def Let_def field_eqs(2,4) field_folds
  by (auto simp: dp_run_def carry_in_eq cbind_def split: cres.splits option.splits)

lemma arm_write_register_16 [simp]: "arm_write_register p 16 v = p"
  by (simp add: arm_write_register_def write_register_invalid)

text \<open>
  Whatever the opcode: a change of the flag bits of CPSR, then at most one write, of the
  register \<open>n\<close>.
\<close>

definition dp_effect :: "arm_core \<Rightarrow> u8 \<Rightarrow> arm_core \<Rightarrow> bool" where
  "dp_effect p n p' \<longleftrightarrow> (\<exists>q w. only_cpsr p q \<and> (p' = q \<or> p' = arm_write_register q n w))"

lemma dp_effect_write [intro]: "only_cpsr p q \<Longrightarrow> dp_effect p n (arm_write_register q n w)"
  by (auto simp: dp_effect_def)

lemma dp_effect_none [intro]: "only_cpsr p q \<Longrightarrow> dp_effect p n q"
  by (auto simp: dp_effect_def)

lemma dp_effect_break [simp]:
  "only_cpsr p (snd x) \<Longrightarrow>
    dp_effect p rd (snd (case x of (res, q) \<Rightarrow> (0 :: int, arm_write_register q rd res)))"
  by (auto simp: case_prod_beta)

lemmas only_cpsr_after = only_cpsr_trans [OF _ only_cpsr_sets(1)]
  only_cpsr_trans [OF _ only_cpsr_sets(2)] only_cpsr_trans [OF _ only_cpsr_clr]

lemma dp_effect_rsb: "dp_effect p rd (arm_rsb p rd a b s c v)"
  unfolding arm_rsb_eq
  by (rule dp_effect_write) (simp add: only_cpsr_after)

lemma dp_effect_rsc: "dp_effect p rd (arm_rsc p rd a b s c)"
  unfolding arm_rsc_eq Let_def
  by (rule dp_effect_write) (simp add: only_cpsr_after)

lemma dp_effect_mov: "dp_effect p rd (arm_mov p rd a s)" "dp_effect p rd (arm_mvn p rd a s)"
  by (auto simp: arm_mov_eq arm_mvn_eq)

text \<open>The register an opcode may write: for opcode 7 the low byte of the first operand.\<close>

definition dp_target :: "u8 \<Rightarrow> u8 \<Rightarrow> u32 \<Rightarrow> u8" where
  "dp_target opcode rd a = (if opcode = 7 then ucast a else rd)"

lemma dp_switch_effect: "dp_effect p (dp_target op rd a) (snd (dp_switch p op rd a b s c v))"
  unfolding dp_switch_def Let_def dp_target_def
  by (simp add: dp_effect_rsb dp_effect_rsc dp_effect_mov dp_effect_none)

lemma dp_effect_frame [frame_simps]:
  assumes "dp_effect p n p'"
  shows "core_mem p' = core_mem p" and "cycle_count p' = cycle_count p"
    and "core_wf p' = core_wf p" and "k < 28 \<Longrightarrow> bit (arm_read_cpsr p') k = bit (arm_read_cpsr p) k"
    and "i \<noteq> n \<Longrightarrow> arm_read_register p' i = arm_read_register p i"
  using assms by (auto simp: dp_effect_def only_cpsr_frame, auto simp: only_cpsr_def)

lemma dp_result_effect:
  assumes "arm_data_processing_shift p ins = Ret (st, p')"
  shows "dp_effect p (dp_target (opcode_of ins) (rd_of ins) (arm_read_register p (rn_of ins))) p'"
  using assms dp_switch_effect
  by (auto simp: arm_data_processing_shift_eq dp_run_def dest!: decode_operand_first
      split: if_splits option.splits) (metis snd_conv)

lemma dp_not_Exit [simp]: "arm_data_processing_shift p ins \<noteq> Exit"
  by (auto simp: arm_data_processing_shift_eq cbind_def split: cres.splits)

lemma dp_runs:
  "ConditionPassed (arm_read_cpsr p) ins \<Longrightarrow> decode_operand p ins = Ret (Some ab) \<Longrightarrow>
    arm_data_processing_shift p ins = Ret (dp_run p ins ab)"
  by (simp add: arm_data_processing_shift_eq)

interpretation data_processing: handler arm_data_processing_shift
proof
  fix p ins status q assume "arm_data_processing_shift p ins = Ret (status, q)"
  from dp_effect_frame(1-3) [OF dp_result_effect [OF this]] show "keeps p q"
    by (simp add: keeps_def)
qed

text \<open>The operands whose decoding shifts by a count C gives no meaning to.\<close>

definition operand_undefined :: "arm_core \<Rightarrow> u32 \<Rightarrow> bool" where
  "operand_undefined p ins \<longleftrightarrow>
     (if bit ins 25 then 4 < rotation ins
      else \<not> (bit ins 4 \<and> bit ins 7) \<and>
        (let x = arm_read_register p (rm_of ins);
             k = (if bit ins 4 then ucast (arm_read_register p (rs_of ins)) else shift_imm_of ins)
         in 32 \<le> unat k \<or> k = 0 \<and> bit ins 6 \<and> bit x 31))"

lemma dp_Undef_iff:
  "arm_data_processing_shift p ins = Undef \<longleftrightarrow>
     ConditionPassed (arm_read_cpsr p) ins \<and> operand_undefined p ins"
  by (auto simp: arm_data_processing_shift_eq decode_operand_eq cbind_eq_Undef
      apply_rotation_imm_eq shift_operand_def asr_Undef_iff c_shl_uint Let_def operand_undefined_def)

section \<open>Properties\<close>

text \<open>
  Property C18: outside its target register and the four flags a data-processing instruction
  changes nothing: the memory, the cycle counter, the control bits of CPSR and every other register
  stay. The target is \<^verbatim>\<open>rd\<close>, except for RSC, whose target is the low byte of the first operand.
\<close>

theorem data_processing_frame:
  assumes "arm_data_processing_shift p ins = Ret (st, p')"
  shows "core_mem p' = core_mem p \<and> cycle_count p' = cycle_count p \<and> core_wf p' = core_wf p \<and>
    (\<forall>k < 28. bit (arm_read_cpsr p') k = bit (arm_read_cpsr p) k) \<and>
    (\<forall>i. i \<noteq> dp_target (opcode_of ins) (rd_of ins) (arm_read_register p (rn_of ins)) \<longrightarrow>
      arm_read_register p' i = arm_read_register p i)"
  using dp_effect_frame [OF dp_result_effect [OF assms]] by blast

lemma sample_passes: "ConditionPassed (arm_read_cpsr sample_core) 0xE0810002"
  "ConditionPassed (arm_read_cpsr sample_core) 0xE1710002"
  "ConditionPassed (arm_read_cpsr sample_core) 0xE1510002"
  "ConditionPassed (arm_read_cpsr sample_core) 0xE0610002"
  by code_simp+

lemma sample_operands: "decode_operand sample_core 0xE0810002 = Ret (Some (5, 7))"
  "decode_operand sample_core 0xE1710002 = Ret (Some (5, 7))"
  "decode_operand sample_core 0xE1510002 = Ret (Some (5, 7))"
  "decode_operand sample_core 0xE0610002 = Ret (Some (5, 7))"
  by code_simp+

theorem data_processing_frame_witness:
  "core_mem (snd (dp_run sample_core 0xE0810002 (5, 7))) = core_mem sample_core"
  using data_processing_frame [of sample_core "0xE0810002" "fst (dp_run sample_core 0xE0810002 (5, 7))"
      "snd (dp_run sample_core 0xE0810002 (5, 7))"]
  by (simp add: dp_runs [OF sample_passes(1) sample_operands(1)])

text \<open>The results of the ARM manual, by opcode, for the opcodes that write \<^verbatim>\<open>rd\<close> as it says.\<close>

definition alu :: "u8 \<Rightarrow> u32 \<Rightarrow> u32 \<Rightarrow> bool \<Rightarrow> u32" where
  "alu opcode a b carry =
     (if opcode = 0 then a AND b else if opcode = 1 then a XOR b else if opcode = 2 then a - b
      else if opcode = 4 then a + b else if opcode = 5 then a + b + of_bool carry
      else if opcode = 6 then a + NOT b + of_bool carry else if opcode = 12 then a OR b
      else if opcode = 13 then b else if opcode = 14 then a AND NOT b else NOT b)"

definition alu_opcodes :: "u8 list" where
  "alu_opcodes = [0, 1, 2, 4, 5, 6, 12, 13, 14, 15]"

lemma dp_switch_simps:
  "dp_switch p 0 rd a b s c v = (0, arm_write_register (snd (arm_and p a b s)) rd (a AND b))"
  "dp_switch p 1 rd a b s c v = (0, arm_write_register (snd (arm_eor p a b s)) rd (a XOR b))"
  "dp_switch p 2 rd a b s c v = (0, arm_write_register (snd (arm_sub p a b s c v)) rd (a - b))"
  "dp_switch p 4 rd a b s c v = (0, arm_write_register (snd (arm_add p a b s c v)) rd (a + b))"
  "dp_switch p 5 rd a b s c v = (0, arm_write_register (snd (arm_adc p a b c s)) rd (a + b + ucast c))"
  "dp_switch p 6 rd a b s c v =
     (0, arm_write_register (snd (arm_sbc p a b c s v)) rd (a - b - of_bool (c = 0)))"
  "dp_switch p 12 rd a b s c v = (0, arm_write_register (snd (arm_orr p a b s)) rd (a OR b))"
  "dp_switch p 13 rd a b s c v = (0, arm_mov p rd b s)"
  "dp_switch p 14 rd a b s c v = (0, arm_write_register (snd (arm_bic p a b s)) rd (a AND NOT b))"
  "dp_switch p 15 rd a b s c v = (0, arm_mvn p rd b s)"
  by (simp_all add: dp_switch_def Let_def case_prod_beta arm_and_def arm_eor_def arm_sub_def
      arm_add_def arm_adc_def arm_sbc_def arm_orr_def arm_bic_def)

lemma results_without_S:
  "snd (arm_and p a b 0) = p" "snd (arm_eor p a b 0) = p" "snd (arm_sub p a b 0 c v) = p"
  "snd (arm_add p a b 0 c v) = p" "snd (arm_adc p a b c 0) = p" "snd (arm_sbc p a b c 0 v) = p"
  "snd (arm_orr p a b 0) = p" "snd (arm_bic p a b 0) = p"
  by (simp_all add: arm_and_def arm_eor_def arm_sub_def arm_add_def arm_adc_def arm_sbc_def
      arm_orr_def arm_bic_def Let_def)

lemma alu_simps:
  "alu 0 a b k = a AND b" "alu 1 a b k = a XOR b" "alu 2 a b k = a - b" "alu 4 a b k = a + b"
  "alu 5 a b k = a + b + of_bool k" "alu 6 a b k = a + NOT b + of_bool k"
  "alu 12 a b k = a OR b" "alu 13 a b k = b" "alu 14 a b k = a AND NOT b" "alu 15 a b k = NOT b"
  by (simp_all add: alu_def)

lemma dp_switch_alu:
  assumes "op \<in> set alu_opcodes"
  shows "\<exists>q. only_cpsr p q \<and> (s = 0 \<longrightarrow> q = p) \<and>
    dp_switch p op rd a b s (carry_in p) v =
      (0, arm_write_register q rd (alu op a b (bit (arm_read_cpsr p) 29)))"
proof -
  have wr: "\<exists>q. only_cpsr p q \<and> (s = 0 \<longrightarrow> q = p) \<and>
      (0 :: int, arm_write_register q' rd w) = (0, arm_write_register q rd w)"
    if "only_cpsr p q'" "s = 0 \<Longrightarrow> q' = p" for q' w
    using that by blast
  have sbc: "a - b - of_bool (\<not> k) = a + NOT b + of_bool k" for k
    by (cases k) (simp_all add: not_eq_complement)
  have carry: "ucast (carry_in p) = (of_bool (bit (arm_read_cpsr p) 29) :: u32)"
    "(carry_in p = 0) = (\<not> bit (arm_read_cpsr p) 29)"
    by (simp_all add: carry_in_eq)
  show ?thesis
    using assms unfolding alu_opcodes_def list.set
    by (elim insertE emptyE; hypsubst; unfold dp_switch_simps alu_simps arm_mvn_eq arm_mov_eq carry sbc)
      (rule wr; simp add: results_without_S)+
qed

text \<open>
  Property C17: AND, EOR, SUB, ADD, ADC, SBC, ORR, MOV, BIC and MVN write to \<^verbatim>\<open>rd\<close> the result of the
  ARM manual for the decoded operands and the carry flag; without the S bit that is all they do,
  with it they change the four flags as well.
\<close>

theorem data_processing_results:
  assumes "ConditionPassed (arm_read_cpsr p) ins"
    and "decode_operand p ins = Ret (Some (a, b))"
    and "opcode_of ins \<in> set alu_opcodes"
  shows "\<exists>q. only_cpsr p q \<and> (\<not> bit ins 20 \<longrightarrow> q = p) \<and>
    arm_data_processing_shift p ins = Ret (0, arm_write_register q (rd_of ins)
      (alu (opcode_of ins) a b (bit (arm_read_cpsr p) 29)))"
  using dp_switch_alu [OF assms(3), of p "of_bool (bit ins 20)" "rd_of ins" a b]
  by (simp add: dp_runs [OF assms(1,2)] dp_run_def)

theorem data_processing_results_witness:
  "arm_data_processing_shift sample_core 0xE0810002 = Ret (0, arm_write_register sample_core 0 12)"
proof -
  have "opcode_of 0xE0810002 = 4" "opcode_of 0xE0810002 \<in> set alu_opcodes"
    "rd_of 0xE0810002 = 0" "\<not> bit (0xE0810002 :: u32) 20"
    by code_simp+
  with data_processing_results [OF sample_passes(1) sample_operands(1)] show ?thesis
    by (auto simp: alu_simps)
qed

text \<open>
  Fact: CMN leaves in the four flags the sign, the zero, the carry and the signed overflow of the
  exact sum of its operands, and changes nothing else.
\<close>

theorem cmn_flags:
  assumes "ConditionPassed (arm_read_cpsr p) ins"
    and "decode_operand p ins = Ret (Some (a, b))" and "opcode_of ins = 11"
  shows "\<exists>q. arm_data_processing_shift p ins = Ret (0, q) \<and> only_cpsr p q \<and> nzcv_of q = add_flags a b"
  by (simp add: dp_runs [OF assms(1,2)] dp_run_def assms(3) dp_switch_def nzcv_of_cmn)

theorem cmn_flags_witness:
  "\<exists>q. arm_data_processing_shift sample_core 0xE1710002 = Ret (0, q) \<and> only_cpsr sample_core q \<and>
    nzcv_of q = add_flags 5 7"
  by (rule cmn_flags [OF sample_passes(2) sample_operands(2)]) code_simp

text \<open>
  Property C29: after CMP the N and Z flags are those of the difference, and C is the absence of a
  borrow except that comparing with 0 clears it. V is not the overflow of the subtraction: it is set
  when the operands have the same sign and the difference has another, the rule of an addition.
\<close>

theorem cmp_flags:
  assumes "ConditionPassed (arm_read_cpsr p) ins"
    and "decode_operand p ins = Ret (Some (a, b))" and "opcode_of ins = 10"
  shows "\<exists>q. arm_data_processing_shift p ins = Ret (0, q) \<and> only_cpsr p q \<and>
    nzcv_of q = (sub_flags a b)\<lparr>flag_C := b \<noteq> 0 \<and> b \<le> a,
      flag_V := bit a 31 = bit b 31 \<and> bit a 31 \<noteq> bit (a - b) 31\<rparr>"
  by (simp add: dp_runs [OF assms(1,2)] dp_run_def assms(3) dp_switch_def nzcv_of_cmp)

theorem cmp_flags_witness:
  "\<exists>q. arm_data_processing_shift sample_core 0xE1510002 = Ret (0, q) \<and> only_cpsr sample_core q \<and>
    nzcv_of q = (sub_flags 5 7)\<lparr>flag_C := (7 :: u32) \<noteq> 0 \<and> (7 :: u32) \<le> 5,
      flag_V := bit (5 :: u32) 31 = bit (7 :: u32) 31 \<and> bit (5 :: u32) 31 \<noteq> bit (5 - 7 :: u32) 31\<rparr>"
  by (rule cmp_flags [OF sample_passes(3) sample_operands(3)]) code_simp

text \<open>
  Fact: a signed comparison of two numbers that are not negative therefore always passes
  GE and never LT, whichever is larger.
\<close>

theorem cmp_signed_conditions:
  assumes "0 \<le> sint a" and "0 \<le> sint b" and "condition_field i = 10" and "condition_field j = 11"
  shows "ConditionPassed (arm_read_cpsr (arm_cmp p a b (carry_in p) v)) i \<and>
    \<not> ConditionPassed (arm_read_cpsr (arm_cmp p a b (carry_in p) v)) j"
  using assms nzcv_of_cmp [of p a b v] u32_msb_sint [of a] u32_msb_sint [of b] u32_msb_sint [of "a - b"]
  by (auto simp: ConditionPassed_cases nzcv_of_def sub_flags_def)

theorem cmp_signed_conditions_witness:
  "ConditionPassed (arm_read_cpsr (arm_cmp sample_core 5 7 (carry_in sample_core) 0)) 0xA0000000 \<and>
   \<not> ConditionPassed (arm_read_cpsr (arm_cmp sample_core 5 7 (carry_in sample_core) 0)) 0xB0000000"
  by (rule cmp_signed_conditions) code_simp+

text \<open>
  Fact: CMN on the low halves followed by ADC on the high halves adds two 64-bit numbers:
  the carry CMN leaves is the one the sum needs.
\<close>

theorem adc_after_cmn:
  "let q = arm_cmn p lo1 lo2 (carry_in p);
       hi = fst (arm_adc q hi1 hi2 (carry_in q) s)
   in unat hi * 2 ^ 32 + unat (lo1 + lo2) =
      ((unat hi1 * 2 ^ 32 + unat lo1) + (unat hi2 * 2 ^ 32 + unat lo2)) mod 2 ^ 64"
proof -
  let ?q = "arm_cmn p lo1 lo2 (carry_in p)"
  let ?M = "2 ^ 32 :: nat" and ?s = "unat lo1 + unat lo2"
  have s: "?s < 2 * ?M"
    using unsigned_less [of lo1, where 'a = nat] unsigned_less [of lo2, where 'a = nat] by simp
  have "bit (arm_read_cpsr ?q) 29 \<longleftrightarrow> ?M \<le> ?s"
    using nzcv_of_cmn [of p lo1 lo2] by (simp add: nzcv_of_def add_flags_def)
  then have c: "unat (ucast (carry_in ?q) :: u32) = ?s div ?M"
    using s by (auto simp: carry_in_eq div_eq_0_iff div_nat_eqI)
  let ?h = "unat hi1 + unat hi2 + ?s div ?M"
  have hi: "unat (fst (arm_adc ?q hi1 hi2 (carry_in ?q) s)) = ?h mod ?M"
    by (simp add: arm_adc_def unat_word_ariths c mod_simps)
  have lo: "unat (lo1 + lo2) = ?s mod ?M" by (simp add: unat_word_ariths)
  have total: "(unat hi1 * ?M + unat lo1) + (unat hi2 * ?M + unat lo2) = ?h * ?M + ?s mod ?M"
    by (simp add: algebra_simps)
  have "(?h * ?M + ?s mod ?M) mod (?M * ?M) = ?h mod ?M * ?M + ?s mod ?M"
    by (rule mod_square) simp
  then show ?thesis unfolding Let_def hi lo total by (simp flip: power_add)
qed

text \<open>
  Fact: the kind of a shifted register operand does not depend on bit 5 of the
  instruction: an operand written LSR is shifted left and one written ROR is shifted right
  arithmetically.
\<close>

theorem shift_kind_ignores_bit_5:
  assumes "\<not> bit ins 25"
  shows "decode_operand p (ins XOR 0x20) = decode_operand p ins"
proof -
  have "bit (0x20 :: u32) n \<longleftrightarrow> n = 5" for n
    using bit_push_bit_iff [of 5 "1 :: u32" n] by (auto simp: push_bit_eq_mult bit_1_iff)
  then have b: "bit (ins XOR 0x20) n \<longleftrightarrow> (bit ins n \<longleftrightarrow> n \<noteq> 5)" for n
    by (auto simp: bit_xor_iff)
  have f: "get_bits (ins XOR 0x20) h l = get_bits ins h l" if "5 < l \<or> h < 5 \<and> l \<le> h" for h l
    using that by (intro bit_word_eqI) (auto simp: b)
  show ?thesis
    using assms unfolding decode_operand_eq rn_of_def rm_of_def rs_of_def shift_imm_of_def
    by (simp add: b f shift_operand_def)
qed

theorem shift_kind_ignores_bit_5_witness:
  "decode_operand sample_core (0xE08100A2 XOR 0x20) = decode_operand sample_core 0xE08100A2"
  by (rule shift_kind_ignores_bit_5) code_simp

text \<open>
  Fact: an immediate operand with a rotation is the one the ARM manual defines only when
  the rotation is 0 or the byte is; otherwise the code rotates within eight bits, or, for
  rotations above 4, shifts by a negative count.
\<close>

theorem immediate_rotation:
  "apply_rotation_imm ins = Ret (word_rotr (2 * rotation ins) (take_bit 8 ins)) \<longleftrightarrow>
     rotation ins = 0 \<or> rotation ins \<le> 4 \<and> take_bit 8 ins = 0"
proof (cases "rotation ins = 0 \<or> 4 < rotation ins \<or> take_bit 8 ins = 0")
  case True
  moreover have "word_rotr n (0 :: u32) = 0" "word_rotr 0 x = x" for n and x :: u32
    by (auto intro!: bit_word_eqI simp: bit_word_rotr_iff)
  ultimately show ?thesis by (auto simp: apply_rotation_imm_eq)
next
  case False
  let ?r = "2 * rotation ins" and ?b = "take_bit 8 ins"
  from False obtain h where h: "bit ?b h" using bit_word_eqI [of ?b 0] by auto
  then have "h < 8" by (simp add: bit_take_bit_iff)
  moreover have "\<not> bit (word_rotr ?r ?b) (h + 8 - ?r)"
    using False \<open>h < 8\<close> by (auto simp: bit_word_rotr_iff bit_take_bit_iff)
  moreover have "bit (drop_bit ?r ?b OR push_bit (8 - ?r) ?b) (h + 8 - ?r)"
    using False h \<open>h < 8\<close> by (auto simp: bit_simps)
  ultimately show ?thesis using False by (auto simp: apply_rotation_imm_eq)
qed

text \<open>
  Property C28: exactly when a data-processing instruction has no defined meaning in C: its
  condition passes and its operand is a rotated byte with a rotation above 4, or a register
  shifted by 32 or more, or a negative register shifted right arithmetically by 0.
\<close>

theorem data_processing_undefined:
  "arm_data_processing_shift p ins = Undef \<longleftrightarrow>
     ConditionPassed (arm_read_cpsr p) ins \<and>
     (if bit ins 25 then 4 < rotation ins
      else \<not> (bit ins 4 \<and> bit ins 7) \<and>
        (let x = arm_read_register p (rm_of ins);
             k = (if bit ins 4 then ucast (arm_read_register p (rs_of ins)) else shift_imm_of ins)
         in 32 \<le> unat k \<or> k = 0 \<and> bit ins 6 \<and> bit x 31))"
  by (simp add: dp_Undef_iff operand_undefined_def)

text \<open>
  Fact: \<^verbatim>\<open>arm_data_processing_immediate_msr\<close> never writes a status register. Its two tests
  of the encoding ask for bit 6 to be both set and clear, so whatever the instruction it returns
  \<^verbatim>\<open>UNDEFINED_INSTRUCTION\<close> with the state as it was (or has shifted by a negative count before).
\<close>

theorem msr_never_writes:
  "arm_data_processing_immediate_msr p ins =
     (if 4 < rotation ins then Undef else Ret (UNDEFINED_INSTRUCTION, p))"
proof -
  have "\<not> (get_bits ins 23 5 = 6 \<and> get_bits ins 20 2 = 2)"
  proof
    assume a: "get_bits ins 23 5 = 6 \<and> get_bits ins 20 2 = 2"
    then have "bit (get_bits ins 23 5) 1" "\<not> bit (get_bits ins 20 2) 4" by simp_all
    then show False by simp
  qed
  then show ?thesis
    by (auto simp: arm_data_processing_immediate_msr_def Let_def apply_rotation_imm_eq)
qed

text \<open>
  Fact: RSB subtracts the second operand from the first, as SUB does, and RSC takes the
  low byte of the first operand for the register it writes and the number of \<^verbatim>\<open>rd\<close> for the value it
  subtracts.
\<close>

theorem reverse_subtractions:
  assumes "ConditionPassed (arm_read_cpsr p) ins"
    and "decode_operand p ins = Ret (Some (a, b))" and "opcode_of ins = 3 \<or> opcode_of ins = 7"
    and "\<not> bit ins 20"
  shows "arm_data_processing_shift p ins = Ret (0,
     if opcode_of ins = 3 then arm_write_register p (rd_of ins) (a - b)
     else arm_write_register p (ucast a)
       (b - ucast (rd_of ins) - of_bool (\<not> bit (arm_read_cpsr p) 29)))"
  using assms(3,4)
  by (auto simp: dp_runs [OF assms(1,2)] dp_run_def dp_switch_def arm_rsb_eq arm_rsc_eq Let_def
      carry_in_eq)

theorem reverse_subtractions_witness:
  "arm_data_processing_shift sample_core 0xE0610002 = Ret (0, arm_write_register sample_core 0 (- 2))"
proof -
  have "opcode_of 0xE0610002 = 3" "rd_of 0xE0610002 = 0" "\<not> bit (0xE0610002 :: u32) 20"
    by code_simp+
  with reverse_subtractions [OF sample_passes(4) sample_operands(4)] show ?thesis by simp
qed

end
