(* ===== verification/Load_Store.thy ===== *)
theory Load_Store
  imports Arm_Exception Handler
begin

text \<open>
  The load and store instructions of \<^verbatim>\<open>arm_load_store.c\<close>: word and byte transfers, block transfers,
  half-word transfers. Register numbers are \<^verbatim>\<open>uint32_t\<close> in the code and converted to \<^verbatim>\<open>uint8_t\<close> by the
  calls. The statuses of the memory accesses are dropped, as the code drops them; a refused read
  leaves the receiving variable as it was.

  The lemmas give each instruction as one equation in a well-formed state, from which totality,
  preservation and the effect of every addressing form follow.
\<close>

section \<open>Reading through a pointer to part of a word\<close>

text \<open>\<^verbatim>\<open>(uint8_t *)&value\<close> and \<^verbatim>\<open>(uint16_t *)&value\<close> point to the first bytes of the host's representation.\<close>

definition put_first_byte :: "host \<Rightarrow> u32 \<Rightarrow> u8 \<Rightarrow> u32" where
  "put_first_byte h v b = u32_of_bytes h (b # drop 1 (bytes_of_u32 h v))"

definition put_first_half :: "host \<Rightarrow> u32 \<Rightarrow> u16 \<Rightarrow> u32" where
  "put_first_half h v w = u32_of_bytes h (bytes_of_u16 h w @ drop 2 (bytes_of_u32 h v))"

definition read_into :: "('a \<Rightarrow> 'b) \<Rightarrow> 'b \<Rightarrow> 'a option \<Rightarrow> 'b" where
  "read_into f value r = (case r of None \<Rightarrow> value | Some x \<Rightarrow> f x)"

section \<open>Words and bytes\<close>

text \<open>
  The addressing mode: \<open>rn\<close>'s offset. The cases of the switch after LSL have no \<^verbatim>\<open>break\<close>, so LSR
  runs into ASR and ASR into ROR; each case is a step on \<^verbatim>\<open>index\<close>. The RRX case joins its two
  halves with the logical \<^verbatim>\<open>||\<close>.
\<close>

definition index_LSR :: "u32 \<Rightarrow> u16 \<Rightarrow> u32 \<Rightarrow> u32 cres" where
  "index_LSR x shift_imm index = (if shift_imm = 0 then Ret 0 else c_shr x (uint shift_imm))"

definition index_ASR :: "u32 \<Rightarrow> u16 \<Rightarrow> u32 \<Rightarrow> u32 cres" where
  "index_ASR x shift_imm index =
     (if shift_imm = 0 then (if get_bit x 31 = 1 then Ret 0xFFFFFFFF else Ret 0)
      else asr x (ucast shift_imm))"

definition index_ROR :: "u32 \<Rightarrow> u32 \<Rightarrow> u16 \<Rightarrow> u32 \<Rightarrow> u32 cres" where
  "index_ROR cpsr x shift_imm index =
     (if shift_imm = 0
      then Ret (of_bool (push_bit 31 (get_bit cpsr C_bit) \<noteq> 0 \<or> drop_bit 1 x \<noteq> 0))
      else ror x (ucast shift_imm))"

definition load_store_index :: "arm_core \<Rightarrow> u32 \<Rightarrow> u32 cres" where
  "load_store_index p ins =
     (let I = get_bit ins 25;
          P = get_bit ins 24;
          index = 0
      in if I = 0
         then if P = 1 \<or> P = 0 \<and> ConditionPassed (arm_read_cpsr p) ins
              then Ret (get_bits ins 11 0) else Ret index
         else if P = 1 \<or> P = 0 \<and> ConditionPassed (arm_read_cpsr p) ins
              then let shift = ucast (get_bits ins 6 5) :: u16;
                       shift_imm = ucast (get_bits ins 11 7) :: u16;
                       x = arm_read_register p (ucast (get_bits ins 3 0))
                   in if shift = 0 then c_shl x (uint shift_imm)
                      else if shift = 1
                      then cbind (index_LSR x shift_imm index) (\<lambda>index.
                           cbind (index_ASR x shift_imm index) (\<lambda>index.
                           index_ROR (arm_read_cpsr p) x shift_imm index))
                      else if shift = 2
                      then cbind (index_ASR x shift_imm index) (\<lambda>index.
                           index_ROR (arm_read_cpsr p) x shift_imm index)
                      else if shift = 3 then index_ROR (arm_read_cpsr p) x shift_imm index
                      else Ret index
              else Ret index)"

text \<open>The load: a program counter loaded also sets the Thumb bit of CPSR.\<close>

definition load_result :: "arm_core \<Rightarrow> u32 \<Rightarrow> u32 \<Rightarrow> arm_core" where
  "load_result p rd value =
     (if rd = 15
      then let p = arm_write_register p 15 (value AND 0xFFFFFFFE)
           in arm_write_cpsr p (if get_bit value 0 \<noteq> 0 then set_bit_c (arm_read_cpsr p) T_bit
                                else clr_bit (arm_read_cpsr p) T_bit)
      else arm_write_register p (ucast rd) value)"

definition arm_load_store :: "arm_core \<Rightarrow> u32 \<Rightarrow> (int \<times> arm_core) cres" where
  "arm_load_store p ins =
     (let rn = ucast (get_bits ins 19 16) :: u8;
          rd = get_bits ins 15 12;
          operateur = get_bit ins 20;
          P = get_bit ins 24;
          U = get_bit ins 23;
          B = get_bit ins 22;
          W = get_bit ins 21
      in cbind (load_store_index p ins) (\<lambda>index.
        let address = (if U = 1
              then (if P = 1 then arm_read_register p rn + index else arm_read_register p rn)
              else (if P = 1 then arm_read_register p rn - index else arm_read_register p rn));
            moved = (if U \<noteq> 0 then arm_read_register p rn + index
                     else arm_read_register p rn - index);
            p = (if P = 0 \<and> ConditionPassed (arm_read_cpsr p) ins
                 then (if W = 1 then arm_write_usr_register p rn moved
                       else arm_write_register p rn moved)
                 else p);
            p = (if P = 1 \<and> ConditionPassed (arm_read_cpsr p) ins \<and> W = 1
                 then arm_write_usr_register p rn address else p)
        in if operateur = 1
           then if ConditionPassed (arm_read_cpsr p) ins
                then cbind (if B = 1
                       then cbind (arm_read_byte p address)
                              (\<lambda>r. Ret (read_into (put_first_byte build_host 0) 0 r))
                       else cbind (arm_read_word p address) (\<lambda>r. Ret (read_into id 0 r)))
                       (\<lambda>value. Ret (0, load_result p rd value))
                else Ret (0, p)
           else if ConditionPassed (arm_read_cpsr p) ins
                then cbind (if B = 1
                       then arm_write_byte p address
                              (ucast (get_bits (arm_read_register p (ucast rd)) 7 0))
                       else arm_write_word p address (arm_read_register p (ucast rd)))
                       (\<lambda>(_, p). Ret (0, p))
                else Ret (0, p)))"

section \<open>Blocks\<close>

definition block_count :: "u32 \<Rightarrow> u8" where
  "block_count ins = foldl (\<lambda>nb_reg i. nb_reg + ucast (get_bit ins i)) 0 [0..<15]"

text \<open>The loops over \<open>r0\<close> to \<open>r14\<close>; \<^verbatim>\<open>value\<close> keeps its last content when a read is refused.\<close>

fun ldm_loop :: "u32 \<Rightarrow> nat list \<Rightarrow> arm_core \<Rightarrow> u32 \<Rightarrow> u32 \<Rightarrow> (arm_core \<times> u32 \<times> u32) cres" where
  "ldm_loop ins [] p address value = Ret (p, address, value)"
| "ldm_loop ins (ri # rs) p address value =
     (if get_bit ins ri = 1
      then cbind (arm_read_word p address) (\<lambda>r.
        let value = read_into id value r
        in ldm_loop ins rs (arm_write_register p (of_nat ri) value) (address + 4) value)
      else ldm_loop ins rs p address value)"

fun stm_loop :: "u32 \<Rightarrow> nat list \<Rightarrow> arm_core \<Rightarrow> u32 \<Rightarrow> (arm_core \<times> u32) cres" where
  "stm_loop ins [] p address = Ret (p, address)"
| "stm_loop ins (ri # rs) p address =
     (if get_bit ins ri = 1
      then cbind (arm_write_word p address (arm_read_register p (of_nat ri))) (\<lambda>(_, p).
        stm_loop ins rs p (address + 4))
      else stm_loop ins rs p address)"

definition block_addresses :: "arm_core \<Rightarrow> u32 \<Rightarrow> u32 \<times> u32 \<times> u32" where
  "block_addresses p ins =
     (let rn = arm_read_register p (ucast (get_bits ins 19 16));
          P = get_bit ins 24;
          U = get_bit ins 23;
          n4 = ucast (block_count ins) * 4
      in if P = 0
         then if U = 1 then (rn, rn + n4 - 4, rn + n4) else (rn - n4 + 4, rn, rn - n4)
         else if U = 1 then (rn + 4, rn + n4, rn + n4) else (rn - n4, rn - 4, rn - n4))"

text \<open>The loaded program counter is \<^verbatim>\<open>value && 0xFFFFFFFE\<close>, a truth value.\<close>

definition arm_load_store_multiple :: "arm_core \<Rightarrow> u32 \<Rightarrow> (int \<times> arm_core) cres" where
  "arm_load_store_multiple p ins =
     (let rn = ucast (get_bits ins 19 16) :: u8;
          W = get_bit ins 21;
          operateur = get_bit ins 20;
          (start_address, end_address, moved) = block_addresses p ins;
          p = (if ConditionPassed (arm_read_cpsr p) ins \<and> W = 1
               then arm_write_register p rn moved else p);
          finish = (\<lambda>(p, address). Ret (if end_address \<noteq> address - 4 then 1 else 0, p))
      in if operateur = 1
         then if ConditionPassed (arm_read_cpsr p) ins
              then cbind (ldm_loop ins [0..<15] p start_address 0) (\<lambda>(p, address, value).
                   cbind (if get_bit ins 15 = 1
                     then cbind (arm_read_word p address) (\<lambda>r.
                       let value = read_into id value r;
                           p = arm_write_register p 15 (of_bool (value \<noteq> 0))
                       in Ret (arm_write_cpsr p (if get_bit value 0 \<noteq> 0
                            then set_bit_c (arm_read_cpsr p) T_bit
                            else clr_bit (arm_read_cpsr p) T_bit)))
                     else Ret p) (\<lambda>p. finish (p, address + 4)))
              else finish (p, 0)
         else if ConditionPassed (arm_read_cpsr p) ins
              then cbind (stm_loop ins [0..<15] p start_address) finish
              else finish (p, 0))"

section \<open>Half-words\<close>

definition arm_load_store_half :: "arm_core \<Rightarrow> u32 \<Rightarrow> (int \<times> arm_core) cres" where
  "arm_load_store_half p ins =
     (let rn = ucast (get_bits ins 19 16) :: u8;
          rd = ucast (get_bits ins 15 12) :: u8;
          rm_immedL = get_bits ins 3 0;
          immedH = get_bits ins 11 8;
          P = get_bit ins 24;
          U = get_bit ins 23;
          I = get_bit ins 22;
          W = get_bit ins 21;
          operateur = get_bit ins 20
      in if get_bits ins 7 4 \<noteq> 0xb then Ret (1, p)
         else
           let offset_8 = (if I = 1 then ucast (push_bit 4 immedH OR rm_immedL)
                           else ucast (arm_read_register p (ucast rm_immedL))) :: u8;
               address = (if P = 1
                 then (if U \<noteq> 0 then arm_read_register p rn + ucast offset_8
                       else arm_read_register p rn - ucast offset_8)
                 else arm_read_register p rn);
               p = (if P = 1 then p
                    else arm_write_register p rn (arm_read_register p rn + rm_immedL));
               p = (if W = 1 \<and> ConditionPassed (arm_read_cpsr p) ins
                    then arm_write_register p rn address else p)
           in if operateur = 1
              then if ConditionPassed (arm_read_cpsr p) ins
                   then cbind (arm_read_half p address) (\<lambda>r.
                     Ret (0, arm_write_register p rd (read_into (put_first_half build_host 0) 0 r)))
                   else Ret (0, p)
              else if ConditionPassed (arm_read_cpsr p) ins
                   then cbind (arm_write_half p address
                          (ucast (get_bits (arm_read_register p rd) 15 0))) (\<lambda>(_, p). Ret (0, p))
                   else Ret (0, p))"

definition arm_coprocessor_load_store :: "arm_core \<Rightarrow> u32 \<Rightarrow> int \<times> arm_core" where
  "arm_coprocessor_load_store p ins = (UNDEFINED_INSTRUCTION, p)"

section \<open>The addressing mode in one equation\<close>

lemma put_first_byte_build [simp]: "put_first_byte build_host 0 b = ucast b"
proof -
  have "u32_of_le (b # [0, 0, 0]) = ucast b"
    by (rule bit_word_eqI) (auto simp: bit_u32_of_le_4 bit_simps simp del: u32_of_le.simps
        dest: bit_imp_le_length)
  then show ?thesis
    by (simp add: put_first_byte_def build_host_def u32_of_bytes_def bytes_of_u32_def)
qed

lemma put_first_half_build [simp]: "put_first_half build_host 0 w = ucast w"
proof -
  have "u32_of_le [ucast w, ucast (drop_bit 8 w), 0, 0] = ucast w"
    by (rule bit_word_eqI) (auto simp: bit_u32_of_le_4 bit_simps simp del: u32_of_le.simps
        dest: bit_imp_le_length)
  then show ?thesis
    by (simp add: put_first_half_def build_host_def u32_of_bytes_def bytes_of_u32_def
        bytes_of_u16_def)
qed

lemma read_into_simps [simp]: "read_into f v None = v" "read_into f v (Some x) = f x"
  by (simp_all add: read_into_def)

definition amount_of :: "u32 \<Rightarrow> nat" where
  "amount_of ins = unat (get_bits ins 11 7)"

lemma amount_less: "amount_of ins < 32"
  using unat_get_bits_less [of ins 11 7] by (simp add: amount_of_def)

lemma amount_words:
  "unat (ucast (get_bits ins 11 7) :: u16) = amount_of ins"
  "unat (ucast (ucast (get_bits ins 11 7) :: u16) :: u8) = amount_of ins"
  "(ucast (get_bits ins 11 7) :: u16) = 0 \<longleftrightarrow> amount_of ins = 0"
proof -
  have small: "unat (get_bits ins 11 7) < 32"
    using amount_less [of ins] by (simp add: amount_of_def)
  have u16: "unat (ucast x :: u16) = unat x" if "unat x < 32" for x :: u32
    using that by (simp add: unsigned_ucast_eq take_bit_eq_mod)
  have u8: "unat (ucast x :: u8) = unat x" if "unat x < 32" for x :: u16
    using that by (simp add: unsigned_ucast_eq take_bit_eq_mod)
  show eq: "unat (ucast (get_bits ins 11 7) :: u16) = amount_of ins"
    unfolding u16 [OF small] amount_of_def ..
  show "unat (ucast (ucast (get_bits ins 11 7) :: u16) :: u8) = amount_of ins"
    using small by (subst u8) (simp_all only: u16 [OF small] amount_of_def)
  show "(ucast (get_bits ins 11 7) :: u16) = 0 \<longleftrightarrow> amount_of ins = 0"
    using unat_eq_0 [of "ucast (get_bits ins 11 7) :: u16"] by (simp only: eq)
qed

lemma index_steps:
  "index_LSR x (ucast (get_bits ins 11 7)) i = Ret (if amount_of ins = 0 then 0 else drop_bit (amount_of ins) x)"
  "index_ASR x (ucast (get_bits ins 11 7)) i =
     Ret (if amount_of ins = 0 then if bit x 31 then - 1 else 0 else signed_drop_bit (amount_of ins) x)"
  "index_ROR cpsr x (ucast (get_bits ins 11 7)) i =
     Ret (if amount_of ins = 0 then of_bool (bit cpsr 29 \<or> drop_bit 1 x \<noteq> 0)
          else word_rotr (amount_of ins) x)"
proof -
  note k = amount_words [of ins] amount_less [of ins]
  show "index_LSR x (ucast (get_bits ins 11 7)) i =
      Ret (if amount_of ins = 0 then 0 else drop_bit (amount_of ins) x)"
    using k by (simp add: index_LSR_def c_shr_uint)
  show "index_ASR x (ucast (get_bits ins 11 7)) i =
     Ret (if amount_of ins = 0 then if bit x 31 then - 1 else 0 else signed_drop_bit (amount_of ins) x)"
    using k by (simp add: index_ASR_def asr_Ret)
  have "push_bit 31 (of_bool b :: u32) = 0 \<longleftrightarrow> \<not> b" for b
    by (cases b) simp_all
  then show "index_ROR cpsr x (ucast (get_bits ins 11 7)) i =
     Ret (if amount_of ins = 0 then of_bool (bit cpsr 29 \<or> drop_bit 1 x \<noteq> 0)
          else word_rotr (amount_of ins) x)"
    using k by (simp add: index_ROR_def ror_Ret)
qed

definition scaled :: "bool \<Rightarrow> u32 \<Rightarrow> u32 \<Rightarrow> u32" where
  "scaled carry ins x =
     (if \<not> bit ins 5 \<and> \<not> bit ins 6 then push_bit (amount_of ins) x
      else if amount_of ins = 0 then of_bool (carry \<or> drop_bit 1 x \<noteq> 0)
      else word_rotr (amount_of ins) x)"

definition ls_index :: "arm_core \<Rightarrow> u32 \<Rightarrow> u32" where
  "ls_index p ins =
     (if \<not> bit ins 24 \<and> \<not> ConditionPassed (arm_read_cpsr p) ins then 0
      else if \<not> bit ins 25 then get_bits ins 11 0
      else scaled (bit (arm_read_cpsr p) 29) ins (arm_read_register p (ucast (get_bits ins 3 0))))"

lemma shift_field_cases:
  obtains "get_bits ins 6 5 = 0" "\<not> bit ins 5" "\<not> bit ins 6"
  | "get_bits ins 6 5 = 1" "bit ins 5" "\<not> bit ins 6"
  | "get_bits ins 6 5 = 2" "\<not> bit ins 5" "bit ins 6"
  | "get_bits ins 6 5 = 3" "bit ins 5" "bit ins 6"
proof -
  have "get_bits ins 6 5 = of_bool (bit ins 5) + 2 * of_bool (bit ins 6)"
    by (simp add: get_bits_eq take_bit_Suc numeral_eq_Suc drop_bit_Suc bit_iff_odd_drop_bit
        drop_bit_drop_bit mod_2_eq_odd drop_bit_half)
  then show thesis using that by (cases "bit ins 5"; cases "bit ins 6") simp_all
qed

lemma load_store_index_eq: "load_store_index p ins = Ret (ls_index p ins)"
proof -
  have "(if ucast (get_bits ins 6 5) = (0 :: u16)
      then c_shl x (uint (ucast (get_bits ins 11 7) :: u16))
      else if ucast (get_bits ins 6 5) = (1 :: u16)
      then cbind (index_LSR x (ucast (get_bits ins 11 7)) 0) (\<lambda>index.
           cbind (index_ASR x (ucast (get_bits ins 11 7)) index) (\<lambda>index.
           index_ROR cpsr x (ucast (get_bits ins 11 7)) index))
      else if ucast (get_bits ins 6 5) = (2 :: u16)
      then cbind (index_ASR x (ucast (get_bits ins 11 7)) 0) (\<lambda>index.
           index_ROR cpsr x (ucast (get_bits ins 11 7)) index)
      else if ucast (get_bits ins 6 5) = (3 :: u16)
      then index_ROR cpsr x (ucast (get_bits ins 11 7)) 0
      else Ret 0) = Ret (scaled (bit cpsr 29) ins x)" for cpsr x
    using amount_words(1) [of ins] amount_less [of ins]
    by (rule_tac shift_field_cases [of ins]) (simp_all add: c_shl_uint index_steps scaled_def)
  then show ?thesis
    unfolding load_store_index_def Let_def ls_index_def by simp
qed

section \<open>A word or byte transfer in one equation\<close>

definition rn_no :: "u32 \<Rightarrow> u8" where
  "rn_no ins = ucast (get_bits ins 19 16)"

definition rd_no :: "u32 \<Rightarrow> u8" where
  "rd_no ins = ucast (get_bits ins 15 12)"

definition ls_moved :: "arm_core \<Rightarrow> u32 \<Rightarrow> u32" where
  "ls_moved p ins =
     (if bit ins 23 then arm_read_register p (rn_no ins) + ls_index p ins
      else arm_read_register p (rn_no ins) - ls_index p ins)"

definition ls_address :: "arm_core \<Rightarrow> u32 \<Rightarrow> u32" where
  "ls_address p ins = (if bit ins 24 then ls_moved p ins else arm_read_register p (rn_no ins))"

text \<open>The base register is written back by post-indexing and by pre-indexing with W.\<close>

definition ls_base_written :: "arm_core \<Rightarrow> u32 \<Rightarrow> arm_core" where
  "ls_base_written p ins =
     (if bit ins 24 \<and> \<not> bit ins 21 then p else arm_write_register p (rn_no ins) (ls_moved p ins))"

definition loaded :: "arm_core \<Rightarrow> u32 \<Rightarrow> u32 \<Rightarrow> u32" where
  "loaded p ins a = (if bit ins 22 then read_into ucast 0 (byte_at p a) else read_into id 0 (word_at p a))"

definition stored :: "arm_core \<Rightarrow> u32 \<Rightarrow> u32 \<Rightarrow> arm_core" where
  "stored p ins a =
     (if bit ins 22 then put_byte p a (ucast (arm_read_register p (rd_no ins)))
      else put_word p a (arm_read_register p (rd_no ins)))"

lemma ls_base_written_cpsr [simp]: "arm_read_cpsr (ls_base_written p ins) = arm_read_cpsr p"
  by (simp add: ls_base_written_def)

lemma ls_base_written_wf [simp]: "core_wf (ls_base_written p ins) = core_wf p"
  by (simp add: ls_base_written_def)

lemma at_ls_base_written [simp]:
  "word_at (ls_base_written p ins) a = word_at p a"
  "byte_at (ls_base_written p ins) a = byte_at p a"
  "core_mem (ls_base_written p ins) = core_mem p"
  by (simp_all add: ls_base_written_def)

lemma low_byte: "(ucast (get_bits x 7 0) :: u8) = ucast x"
  by (rule bit_word_eqI) (simp add: bit_simps)

lemma low_half: "(ucast (get_bits x 15 0) :: u16) = ucast x"
  by (rule bit_word_eqI) (simp add: bit_simps)

lemma rd_is_pc: "get_bits ins 15 12 = 15 \<longleftrightarrow> rd_no ins = 15"
proof -
  have "unat (ucast x :: u8) = unat x" if "unat x < 16" for x :: u32
    using that by (simp add: unsigned_ucast_eq take_bit_eq_mod)
  then have "unat (rd_no ins) = unat (get_bits ins 15 12)"
    using unat_get_bits_less [of ins 15 12] by (simp add: rd_no_def)
  then show ?thesis by (simp add: word_unat_eq_iff)
qed

lemma put_first_fun: "put_first_byte build_host 0 = ucast" "put_first_half build_host 0 = ucast"
  by (simp_all add: fun_eq_iff)

lemma arm_load_store_eq:
  assumes "core_wf p"
  shows "arm_load_store p ins = Ret (0,
    if \<not> ConditionPassed (arm_read_cpsr p) ins then p
    else if bit ins 20
    then load_result (ls_base_written p ins) (get_bits ins 15 12) (loaded p ins (ls_address p ins))
    else stored (ls_base_written p ins) ins (ls_address p ins))"
  using assms
  by (auto simp: arm_load_store_def load_store_index_eq Let_def usr_register_core_wf
      core_reads_wf core_writes_wf ls_base_written_def ls_address_def ls_moved_def loaded_def
      stored_def low_byte put_first_fun simp flip: rn_no_def rd_no_def)

lemma load_result_eq:
  "load_result p (get_bits ins 15 12) v =
     (if rd_no ins = 15
      then arm_write_cpsr (arm_write_register p 15 (v AND 0xFFFFFFFE))
        (if bit v 0 then set_bit_c (arm_read_cpsr p) T_bit else clr_bit (arm_read_cpsr p) T_bit)
      else arm_write_register p (rd_no ins) v)"
  by (simp add: load_result_def rd_is_pc Let_def flip: rd_no_def)

lemma keeps_load_result [simp]: "keeps p (load_result q rd v) = keeps p q"
  by (simp add: load_result_def Let_def)

lemma keeps_ls_base_written [simp]: "keeps p (ls_base_written p ins)"
  by (simp add: ls_base_written_def)

interpretation load_store: total_handler arm_load_store
proof
  fix p ins status q assume "core_wf p" "arm_load_store p ins = Ret (status, q)"
  then show "keeps p q"
    by (auto simp: arm_load_store_eq stored_def split: if_splits)
qed (simp add: arm_load_store_eq)

lemma reg_no_less [simp]: "rd_no ins < 16" "rn_no ins < 16"
proof -
  have "(ucast x :: u8) < 16" if "unat x < 16" for x :: u32
    using that by (simp add: word_less_nat_alt unsigned_ucast_eq take_bit_eq_mod)
  then show "rd_no ins < 16" "rn_no ins < 16"
    using unat_get_bits_less [of ins 15 12] unat_get_bits_less [of ins 19 16]
    by (simp_all add: rd_no_def rn_no_def)
qed

lemma half_at_put_sel [simp]:
  "aligned n (core_mem (ls_base_written p ins)) = aligned n (core_mem p)"
  by simp

section \<open>Properties of the word and byte transfers\<close>

definition access_width :: "u32 \<Rightarrow> nat" where
  "access_width ins = (if bit ins 22 then 1 else 4)"

definition narrowed :: "u32 \<Rightarrow> u32 \<Rightarrow> u32" where
  "narrowed ins x = (if bit ins 22 then take_bit 8 x else x)"

lemma take_bit_8_byte: "ucast (ucast x :: u8) = (take_bit 8 x :: u32)"
  by (rule bit_word_eqI) (auto simp: bit_simps)

lemma loaded_stored:
  assumes "core_wf p" and "bit ins' 22 = bit ins 22"
    and "aligned (access_width ins) (core_mem p) a"
  shows "loaded (stored p ins a) ins' a = narrowed ins (arm_read_register p (rd_no ins))"
  using assms
  by (simp add: loaded_def stored_def narrowed_def access_width_def word_at_put_word
      byte_at_put_byte take_bit_8_byte split: if_splits)

lemma stored_cpsr [simp]: "arm_read_cpsr (stored p ins a) = arm_read_cpsr p"
  by (simp add: stored_def)

lemma stored_wf: "core_wf p \<Longrightarrow> core_wf (stored p ins a)"
  by (simp add: stored_def put_wf)

text \<open>
  Property C19: a store followed by a load of the same kind from the same granted address gives
  the loaded register the stored value (its low byte for the byte forms), through every addressing
  form of either instruction.
\<close>

theorem store_load_roundtrip:
  assumes "core_wf p" and "ConditionPassed (arm_read_cpsr p) ins" and "\<not> bit ins 20"
    and "ConditionPassed (arm_read_cpsr p) ins'" and "bit ins' 20" and "rd_no ins' \<noteq> 15"
    and "bit ins' 22 = bit ins 22"
    and "aligned (access_width ins) (core_mem p) (ls_address p ins)"
    and "arm_load_store p ins = Ret (0, q)" and "ls_address q ins' = ls_address p ins"
  shows "\<exists>r. arm_load_store q ins' = Ret (0, r) \<and>
    arm_read_register r (rd_no ins') =
      narrowed ins (arm_read_register (ls_base_written p ins) (rd_no ins))"
proof -
  let ?p = "ls_base_written p ins" and ?a = "ls_address p ins"
  have q: "q = stored ?p ins ?a" using assms(1-3,9) by (simp add: arm_load_store_eq)
  then have "loaded q ins' ?a = narrowed ins (arm_read_register ?p (rd_no ins))"
    using assms(1,7,8) by (simp add: loaded_stored)
  moreover have "core_wf q" "arm_read_cpsr q = arm_read_cpsr p"
    using assms(1) q by (simp_all add: stored_wf)
  ultimately show ?thesis
    using assms(4-6,10) by (simp add: arm_load_store_eq load_result_eq)
qed

theorem store_load_roundtrip_witness:
  "\<exists>r. arm_load_store (put_word sample_core 8 5) 0xE5903008 = Ret (0, r) \<and> arm_read_register r 3 = 5"
proof -
  let ?i = "0xE5801008 :: u32"
  have i: "ConditionPassed (arm_read_cpsr sample_core) ?i" "\<not> bit ?i 20" "\<not> bit ?i 22" "bit ?i 24"
    "\<not> bit ?i 21" "arm_read_register sample_core (rd_no ?i) = 5" "ls_address sample_core ?i = 8"
    by code_simp+
  then have "arm_load_store sample_core ?i = Ret (0, put_word sample_core 8 5)"
    by (simp add: arm_load_store_eq sample_core_wf stored_def ls_base_written_def)
  note eqs = store_load_roundtrip [OF sample_core_wf _ _ _ _ _ _ _ this, of "0xE5903008"]
  have "rd_no 0xE5903008 = 3"
    "narrowed 0xE5801008 (arm_read_register (ls_base_written sample_core 0xE5801008) (rd_no 0xE5801008)) = 5"
    by code_simp+
  moreover have "ConditionPassed (arm_read_cpsr sample_core) 0xE5903008" "bit (0xE5903008 :: u32) 20"
    "rd_no 0xE5903008 \<noteq> 15" "bit (0xE5903008 :: u32) 22 = bit (0xE5801008 :: u32) 22"
    "aligned (access_width 0xE5801008) (core_mem sample_core) (ls_address sample_core 0xE5801008)"
    "ls_address (put_word sample_core 8 5) 0xE5903008 = ls_address sample_core 0xE5801008"
    by code_simp+
  ultimately show ?thesis using eqs i(1,2) by simp
qed

text \<open>
  Fact: an access the memory refuses is not reported. A load then delivers 0 to its
  register and a store only writes back its base; the instruction returns 0 as if it had worked.
\<close>

theorem refused_transfer_is_silent:
  assumes "core_wf p" and "ConditionPassed (arm_read_cpsr p) ins"
    and "\<not> aligned (access_width ins) (core_mem p) (ls_address p ins)"
  shows "arm_load_store p ins = Ret (0,
    if bit ins 20 then load_result (ls_base_written p ins) (get_bits ins 15 12) 0
    else ls_base_written p ins)"
  using assms
  by (auto simp: arm_load_store_eq loaded_def stored_def access_width_def word_at_def byte_at_def
      put_defs split: if_splits)

theorem refused_transfer_is_silent_witness:
  "arm_load_store sample_core 0xE5913001 = Ret (0, arm_write_register sample_core 3 0)"
proof -
  let ?i = "0xE5913001 :: u32"
  have i: "ConditionPassed (arm_read_cpsr sample_core) ?i" "bit ?i 20" "bit ?i 24"
    "\<not> bit ?i 21" "rd_no ?i = 3"
    "\<not> aligned (access_width ?i) (core_mem sample_core) (ls_address sample_core ?i)"
    by code_simp+
  with refused_transfer_is_silent [OF sample_core_wf i(1,6)] show ?thesis
    by (simp add: load_result_eq ls_base_written_def)
qed

text \<open>
  Fact: in the scaled register forms LSR and ASR offsets are ROR offsets: the missing
  breaks make every shift kind but LSL behave as the last one.
\<close>

theorem scaled_offset_kinds_collapse:
  assumes "bit ins 25" and "bit ins 5 \<or> bit ins 6"
  shows "arm_load_store p (ins OR 0x60) = arm_load_store p ins"
proof -
  have "(0x60 :: u32) = push_bit 5 (mask 2)" by (simp add: push_bit_eq_mult mask_eq_exp_minus_1)
  then have "bit (0x60 :: u32) n \<longleftrightarrow> n = 5 \<or> n = 6" for n
    by (simp only: bit_push_bit_iff bit_mask_iff) auto
  then have b: "bit (ins OR 0x60) n \<longleftrightarrow> bit ins n \<or> n = 5 \<or> n = 6" for n
    by (simp add: bit_or_iff)
  have f: "get_bits (ins OR 0x60) h l = get_bits ins h l" if "6 < l \<or> h < 5 \<and> l \<le> h" for h l
    using that by (intro bit_word_eqI) (auto simp: b)
  have cond: "ConditionPassed c (ins OR 0x60) = ConditionPassed c ins" for c
  proof -
    have "drop_bit 28 (ins OR 0x60) = drop_bit 28 ins"
      by (rule bit_word_eqI) (auto simp: bit_drop_bit_eq b)
    then show ?thesis by (simp add: ConditionPassed_def arm_get_cond_eq)
  qed
  have "ls_index p (ins OR 0x60) = ls_index p ins"
    using assms by (auto simp: ls_index_def cond scaled_def amount_of_def f b)
  then show ?thesis
    unfolding arm_load_store_def load_store_index_eq Let_def by (simp add: cond f b)
qed

theorem scaled_offset_kinds_collapse_witness:
  "arm_load_store sample_core (0xE7913122 OR 0x60) = arm_load_store sample_core 0xE7913122"
  by (rule scaled_offset_kinds_collapse) code_simp+

section \<open>Blocks of registers\<close>

definition block_list :: "u32 \<Rightarrow> u8 list" where
  "block_list ins = map of_nat (filter (bit ins) [0..<15])"

fun block_from :: "u32 \<Rightarrow> 'a list \<Rightarrow> (u32 \<times> 'a) list" where
  "block_from a [] = []"
| "block_from a (x # xs) = (a, x) # block_from (a + 4) xs"

lemma block_from_snd [simp]: "map snd (block_from a xs) = xs"
  by (induction xs arbitrary: a) simp_all

lemma block_from_fst: "map fst (block_from a xs) = map (\<lambda>k. a + 4 * of_nat k) [0..<length xs]"
proof (induction xs arbitrary: a)
  case (Cons x xs)
  have "map (\<lambda>k. a + 4 + 4 * of_nat k) [0..<length xs] = map (\<lambda>k. a + 4 * of_nat k) (map Suc [0..<length xs])"
    by (simp add: algebra_simps)
  also have "\<dots> = map (\<lambda>k. a + 4 * of_nat k) [1..<length (x # xs)]" by (simp add: map_Suc_upt)
  finally show ?case by (simp add: Cons upt_conv_Cons del: upt_Suc)
qed simp

lemma of_nat_4_inj:
  assumes "j < 2 ^ 30" and "k < 2 ^ 30" and "a + 4 * of_nat j = (a + 4 * of_nat k :: u32)"
  shows "j = k"
proof -
  have "unat (4 * of_nat j :: u32) = 4 * j" if "j < 2 ^ 30" for j
    using that by (simp add: unat_word_ariths unsigned_of_nat take_bit_eq_mod mod_simps)
  with assms show ?thesis by (metis add_left_cancel mult_cancel1 zero_neq_numeral)
qed

lemma block_from_distinct: "length xs \<le> 15 \<Longrightarrow> distinct (map fst (block_from a xs))"
  unfolding block_from_fst by (auto simp: distinct_map inj_on_def intro: of_nat_4_inj)

lemma length_block_list [simp]: "length (block_list ins) \<le> 15"
  unfolding block_list_def length_map by (rule order_trans [OF length_filter_le]) simp

lemma of_nat_reg_inj: "inj_on (of_nat :: nat \<Rightarrow> u8) {0..<15}"
proof (rule inj_onI)
  fix x y :: nat assume "x \<in> {0..<15}" "y \<in> {0..<15}" "(of_nat x :: u8) = of_nat y"
  then show "x = y" by (simp add: word_unat_eq_iff unsigned_of_nat take_bit_eq_mod)
qed

lemma distinct_block_list [simp]: "distinct (block_list ins)"
  unfolding block_list_def distinct_map
  by (auto intro: inj_on_subset [OF of_nat_reg_inj])

lemma block_list_valid: "r \<in> set (block_list ins) \<Longrightarrow> r < 15"
  by (auto simp: block_list_def word_less_nat_alt unsigned_of_nat take_bit_eq_mod)

lemma block_count_eq: "block_count ins = of_nat (length (block_list ins))"
proof -
  have "foldl (\<lambda>nb_reg i. nb_reg + ucast (get_bit ins i)) n rs = n + of_nat (length (filter (bit ins) rs))"
    for n :: u8 and rs
    by (induction rs arbitrary: n) simp_all
  then show ?thesis by (simp add: block_count_def block_list_def del: upt_Suc)
qed

text \<open>The words a block load reads; a refused read repeats the word before it.\<close>

fun block_values :: "(u32 \<Rightarrow> u32 option) \<Rightarrow> u32 \<Rightarrow> u32 \<Rightarrow> nat \<Rightarrow> u32 list" where
  "block_values f a v 0 = []"
| "block_values f a v (Suc n) =
     (let w = read_into id v (f a) in w # block_values f (a + 4) w n)"

lemma length_block_values [simp]: "length (block_values f a v n) = n"
  by (induction n arbitrary: a v) (simp_all add: Let_def)

lemma block_values_granted:
  "\<forall>k < n. f (a + 4 * of_nat k) = Some (g k) \<Longrightarrow> block_values f a v n = map g [0..<n]"
proof (induction n arbitrary: a v g)
  case (Suc n)
  have a: "f a = Some (g 0)" using Suc.prems [rule_format, of 0] by simp
  have "f (a + 4 + 4 * of_nat k) = Some (g (Suc k))" if "k < n" for k
    using Suc.prems [rule_format, of "Suc k"] that by (simp add: algebra_simps)
  then have "block_values f (a + 4) (g 0) n = map (\<lambda>k. g (Suc k)) [0..<n]"
    using Suc.IH [of "a + 4" "\<lambda>k. g (Suc k)"] by simp
  with a show ?case
    by (simp add: Let_def map_upt_Suc del: upt_Suc)
qed simp

lemma ldm_loop_eq:
  assumes "core_wf p" and "n = length (filter (bit ins) rs)"
  shows "ldm_loop ins rs p a v =
    Ret (write_all arm_write_register
           (zip (map of_nat (filter (bit ins) rs)) (block_values (word_at p) a v n)) p,
         a + 4 * of_nat n, last (v # block_values (word_at p) a v n))"
  using assms
proof (induction rs arbitrary: p a v n)
  case (Cons r rs)
  have w: "word_at (arm_write_register p k x) = word_at p" for k x
    by (simp add: fun_eq_iff)
  show ?case
  proof (cases "bit ins r")
    case True
    with Cons.prems show ?thesis
      by (simp add: core_reads_wf Let_def Cons.IH [OF _ refl] w algebra_simps)
  next
    case False
    with Cons.prems Cons.IH [OF Cons.prems(1) refl] show ?thesis by simp
  qed
qed simp

lemma stm_loop_eq:
  assumes "core_wf p"
  shows "stm_loop ins rs p a =
    cbind (write_block arm_write_word p
        (block_from a (map (\<lambda>r. arm_read_register p (of_nat r)) (filter (bit ins) rs))))
      (\<lambda>q. Ret (q, a + 4 * of_nat (length (filter (bit ins) rs))))"
  using assms
proof (induction rs arbitrary: p a)
  case (Cons r rs)
  then show ?case
    using Cons.IH [OF put_wf(1) [OF Cons.prems]]
    by (auto simp: core_writes_wf algebra_simps)
qed simp

section \<open>A block transfer in one equation\<close>

definition block_size :: "u32 \<Rightarrow> u32" where
  "block_size ins = 4 * of_nat (length (block_list ins))"

definition block_start :: "arm_core \<Rightarrow> u32 \<Rightarrow> u32" where
  "block_start p ins =
     (let base = arm_read_register p (rn_no ins)
      in if bit ins 24 then if bit ins 23 then base + 4 else base - block_size ins
         else if bit ins 23 then base else base - block_size ins + 4)"

definition block_base_written :: "arm_core \<Rightarrow> u32 \<Rightarrow> arm_core" where
  "block_base_written p ins =
     (if bit ins 21
      then arm_write_register p (rn_no ins)
        (if bit ins 23 then arm_read_register p (rn_no ins) + block_size ins
         else arm_read_register p (rn_no ins) - block_size ins)
      else p)"

definition pc_loaded :: "u32 \<Rightarrow> arm_core \<Rightarrow> u32 \<Rightarrow> arm_core" where
  "pc_loaded ins p v =
     (if bit ins 15
      then arm_write_cpsr (arm_write_register p 15 (of_bool (v \<noteq> 0)))
        (if bit v 0 then set_bit_c (arm_read_cpsr p) T_bit else clr_bit (arm_read_cpsr p) T_bit)
      else p)"

definition block_loaded :: "arm_core \<Rightarrow> u32 \<Rightarrow> u32 \<Rightarrow> arm_core" where
  "block_loaded p ins a =
     (let n = length (block_list ins);
          vs = block_values (word_at p) a 0 n;
          q = write_all arm_write_register (zip (block_list ins) vs) p
      in pc_loaded ins q (read_into id (last (0 # vs)) (word_at p (a + block_size ins))))"

definition block_stored :: "arm_core \<Rightarrow> u32 \<Rightarrow> u32 \<Rightarrow> arm_core cres" where
  "block_stored p ins a =
     write_block arm_write_word p (block_from a (map (arm_read_register p) (block_list ins)))"

lemma block_addresses_eq:
  "block_addresses p ins = (block_start p ins, block_start p ins + block_size ins - 4,
     if bit ins 23 then arm_read_register p (rn_no ins) + block_size ins
     else arm_read_register p (rn_no ins) - block_size ins)"
proof -
  have "(ucast (of_nat n :: u8) :: u32) = of_nat n" if "n \<le> 15" for n
    using that by (simp add: word_unat_eq_iff unsigned_of_nat take_bit_eq_mod unsigned_ucast_eq)
  then have "ucast (block_count ins) * 4 = block_size ins"
    by (simp add: block_count_eq block_size_def)
  then show ?thesis
    by (simp add: block_addresses_def block_start_def Let_def flip: rn_no_def)
qed

lemma write_all_sel [simp]:
  "core_wf (write_all arm_write_register nvs p) = core_wf p"
  "word_at (write_all arm_write_register nvs p) = word_at p"
  "arm_read_cpsr (write_all arm_write_register nvs p) = arm_read_cpsr p"
  "core_mem (write_all arm_write_register nvs p) = core_mem p"
  "keeps q (write_all arm_write_register nvs p) = keeps q p"
  by (induction nvs arbitrary: p) (auto simp: fun_eq_iff)

lemma block_base_written_sel [simp]:
  "core_wf (block_base_written p ins) = core_wf p"
  "word_at (block_base_written p ins) = word_at p"
  "arm_read_cpsr (block_base_written p ins) = arm_read_cpsr p"
  "core_mem (block_base_written p ins) = core_mem p"
  "keeps q (block_base_written p ins) = keeps q p"
  by (auto simp: block_base_written_def fun_eq_iff)

lemma arm_load_store_multiple_eq:
  assumes "core_wf p"
  shows "arm_load_store_multiple p ins =
    (let p1 = block_base_written p ins; a = block_start p ins
     in if \<not> ConditionPassed (arm_read_cpsr p) ins
        then Ret (of_bool (a + block_size ins \<noteq> 0), p)
        else if bit ins 20 then Ret (1, block_loaded p1 ins a)
        else cbind (block_stored p1 ins a) (\<lambda>q. Ret (0, q)))"
proof -
  let ?p = "block_base_written p ins" and ?a = "block_start p ins"
  have wf: "core_wf ?p" using assms by simp
  have base: "(if ConditionPassed (arm_read_cpsr p) ins \<and> get_bit ins 21 = 1
      then arm_write_register p (rn_no ins) (if bit ins 23 then arm_read_register p (rn_no ins) + block_size ins
        else arm_read_register p (rn_no ins) - block_size ins) else p) =
      (if ConditionPassed (arm_read_cpsr p) ins then ?p else p)"
    by (simp add: block_base_written_def)
  have end_a: "?a + block_size ins - 4 \<noteq> 0 - 4 \<longleftrightarrow> ?a + block_size ins \<noteq> 0"
    by (simp add: algebra_simps)
  show ?thesis
    unfolding arm_load_store_multiple_def Let_def block_addresses_eq prod.case
    unfolding rn_no_def [symmetric] base
    using wf end_a
    by (simp add: ldm_loop_eq [OF wf refl] stm_loop_eq [OF wf] core_reads_wf cbind_assoc
        block_loaded_def block_stored_def pc_loaded_def Let_def block_size_def block_list_def
        comp_def del: upt_Suc)
qed

lemma block_stored_total:
  assumes "core_wf p"
  shows "\<exists>q. block_stored p ins a = Ret q \<and> keeps p q \<and> core_reg q = core_reg p"
  using core_word.write_block_total [OF assms] assms
  by (fastforce simp: block_stored_def keeps_def)

lemma keeps_block_loaded [simp]: "keeps p (block_loaded q ins a) = keeps p q"
  by (simp add: block_loaded_def pc_loaded_def Let_def)

interpretation load_store_multiple: total_handler arm_load_store_multiple
proof
  fix p ins status q
  assume p: "core_wf p" "arm_load_store_multiple p ins = Ret (status, q)"
  obtain r where r: "block_stored (block_base_written p ins) ins (block_start p ins) = Ret r"
    "keeps (block_base_written p ins) r"
    using block_stored_total [of "block_base_written p ins" ins "block_start p ins"] p(1) by auto
  have "keeps p (block_base_written p ins)" by simp
  from keeps_trans [OF this r(2)] have "keeps p r" .
  with p r(1) show "keeps p q"
    by (auto simp: arm_load_store_multiple_eq Let_def split: if_splits)
next
  fix p ins assume "core_wf p"
  then show "arm_load_store_multiple p ins \<noteq> Exit \<and> arm_load_store_multiple p ins \<noteq> Undef"
    using block_stored_total [of "block_base_written p ins" ins "block_start p ins"]
    by (auto simp: arm_load_store_multiple_eq Let_def)
qed

section \<open>Properties of the block transfers\<close>

text \<open>
  Fact: the status of a block transfer whose condition passes tells a load from a store:
  LDM always returns 1, because it adds 4 to the address once more after the last register, and STM
  always returns 0, whether or not the memory granted the accesses.
\<close>

theorem block_transfer_status:
  assumes "core_wf p" and "ConditionPassed (arm_read_cpsr p) ins"
  shows "\<exists>q. arm_load_store_multiple p ins = Ret (of_bool (bit ins 20), q)"
  using block_stored_total [of "block_base_written p ins" ins "block_start p ins"] assms
  by (auto simp: arm_load_store_multiple_eq Let_def)

theorem block_transfer_status_witness:
  "\<exists>q. arm_load_store_multiple sample_core 0xE8900006 = Ret (1, q)"
  using block_transfer_status [OF sample_core_wf, of "0xE8900006"]
  by (simp add: ConditionPassed_cases condition_field_def unat_drop_bit_eq drop_bit_eq_div)

definition block_granted :: "arm_core \<Rightarrow> u32 \<Rightarrow> nat \<Rightarrow> bool" where
  "block_granted p a n = list_all (\<lambda>k. aligned 4 (core_mem p) (a + 4 * of_nat k)) [0..<n]"

lemma block_stored_reads:
  assumes "core_wf p" and "block_granted p a (length (block_list ins))"
  shows "\<exists>q. block_stored p ins a = Ret q \<and> core_wf q \<and> core_reg q = core_reg p \<and>
    (\<forall>k < length (block_list ins).
      word_at q (a + 4 * of_nat k) = Some (arm_read_register p (block_list ins ! k))) \<and>
    (\<forall>b. b \<notin> (\<lambda>k. a + 4 * of_nat k) ` {0..<length (block_list ins)} \<longrightarrow> word_at q b = word_at p b)"
proof -
  let ?vs = "map (arm_read_register p) (block_list ins)" and ?n = "length (block_list ins)"
  let ?avs = "block_from a ?vs"
  have fsts: "map fst ?avs = map (\<lambda>k. a + 4 * of_nat k) [0..<?n]"
    by (simp add: block_from_fst)
  then have addrs: "fst ` set ?avs = (\<lambda>k. a + 4 * of_nat k) ` {0..<?n}"
    by (metis image_set set_upt)
  have ok: "\<forall>av \<in> set ?avs. aligned 4 (core_mem p) (fst av)"
  proof
    fix av assume "av \<in> set ?avs"
    then have "fst av \<in> (\<lambda>k. a + 4 * of_nat k) ` {0..<?n}" unfolding addrs [symmetric] by simp
    then show "aligned 4 (core_mem p) (fst av)"
      using assms(2) by (auto simp: block_granted_def list_all_iff)
  qed
  have "distinct (map fst ?avs)" by (rule block_from_distinct) simp
  from core_word.write_block_reads [OF assms(1) this ok] obtain q where
    q: "block_stored p ins a = Ret q" "core_wf q" "core_rest q = core_rest p"
      "\<forall>(a, v) \<in> set ?avs. arm_read_word q a = Ret (Some v)"
      "\<forall>b. b \<notin> fst ` set ?avs \<longrightarrow> arm_read_word q b = arm_read_word p b"
    unfolding block_stored_def by blast
  have "word_at q (a + 4 * of_nat k) = Some (arm_read_register p (block_list ins ! k))"
    if k: "k < ?n" for k
  proof -
    have len: "length ?avs = ?n" using arg_cong [OF fsts, of length] by simp
    have "map snd ?avs ! k = ?vs ! k" by (simp only: block_from_snd)
    then have "fst (?avs ! k) = a + 4 * of_nat k" "snd (?avs ! k) = ?vs ! k"
      using k len arg_cong [OF fsts, of "\<lambda>xs. xs ! k"] by (simp_all del: block_from_snd)
    moreover have "?avs ! k \<in> set ?avs" using k len by simp
    ultimately have "arm_read_word q (a + 4 * of_nat k) = Ret (Some (?vs ! k))"
      using q(4) by (auto simp: case_prod_beta)
    then show ?thesis using k q(2) by (simp add: core_reads_wf)
  qed
  moreover have "word_at q b = word_at p b" if "b \<notin> (\<lambda>k. a + 4 * of_nat k) ` {0..<?n}" for b
    using q(5) that q(2) assms(1) by (simp add: addrs core_reads_wf)
  ultimately show ?thesis using q(1-3) by blast
qed

lemma block_loaded_reads:
  assumes "\<forall>k < length (block_list ins). word_at p (a + 4 * of_nat k) = Some (g k)"
    and "k < length (block_list ins)" and "\<not> bit ins 15"
  shows "arm_read_register (block_loaded p ins a) (block_list ins ! k) = g k"
    and "r \<notin> set (block_list ins) \<Longrightarrow>
      arm_read_register (block_loaded p ins a) r = arm_read_register p r"
proof -
  let ?n = "length (block_list ins)"
  let ?nvs = "zip (block_list ins) (map g [0..<?n])"
  have l: "block_loaded p ins a = write_all arm_write_register ?nvs p"
    using block_values_granted [OF assms(1)] assms(3)
    by (simp add: block_loaded_def Let_def pc_loaded_def)
  have in_range: "block_list ins ! k \<in> set (block_list ins)" using assms(2) by simp
  then have r: "block_list ins ! k < 15" by (rule block_list_valid)
  then have "block_list ins ! k \<noteq> 15" "block_list ins ! k < 16"
    by (auto intro: less_trans [OF r])
  moreover have "(block_list ins ! k, g k) \<in> set ?nvs"
    using assms(2) by (auto simp: set_zip intro!: exI [of _ k])
  ultimately show "arm_read_register (block_loaded p ins a) (block_list ins ! k) = g k"
    unfolding l
    by (simp add: arm_read_register_no_pc core_regs.rd_write_all)
  assume "r \<notin> set (block_list ins)"
  then have "r \<notin> fst ` set ?nvs" by (auto dest: set_zip_leftD)
  then show "arm_read_register (block_loaded p ins a) r = arm_read_register p r"
    unfolding l by (simp add: arm_read_register_def core_regs.rd_write_all_other)
qed

text \<open>
  Property C7: a push followed by a pop restores the registers. STMDB with write-back stores a
  list of registers below the base; LDMIA with write-back of the same list, in any later state that
  kept the memory words and the base, brings back every register of the list and the base itself.
\<close>

theorem push_pop_restores:
  assumes "core_wf p" and "ConditionPassed (arm_read_cpsr p) push" and "\<not> bit push 20"
    and "bit push 24" and "\<not> bit push 23" and "bit push 21"
    and "rn_no push \<noteq> 15" and "rn_no push \<notin> set (block_list push)"
    and "block_granted p (block_start p push) (length (block_list push))"
    and "arm_load_store_multiple p push = Ret (0, q)"
    and "core_wf s" and "word_at s = word_at q"
    and "arm_read_register s (rn_no push) = arm_read_register q (rn_no push)"
    and "ConditionPassed (arm_read_cpsr s) pop" and "bit pop 20" and "\<not> bit pop 24" and "bit pop 23"
    and "bit pop 21" and "\<not> bit pop 15" and "rn_no pop = rn_no push" and "block_list pop = block_list push"
  shows "\<exists>r. arm_load_store_multiple s pop = Ret (1, r) \<and>
    (\<forall>n \<in> insert (rn_no push) (set (block_list push)). arm_read_register r n = arm_read_register p n)"
proof -
  let ?n = "rn_no push" and ?l = "block_list push" and ?a = "block_start p push"
  let ?p = "block_base_written p push"
  have kept: "arm_read_register ?p m = arm_read_register p m" if "m \<noteq> ?n" for m
    using that by (simp add: block_base_written_def)
  have "core_wf ?p" "block_granted ?p ?a (length ?l)"
    using assms(1,9) by (simp_all add: block_granted_def)
  from block_stored_reads [OF this] obtain q' where q': "block_stored ?p push ?a = Ret q'"
    "core_reg q' = core_reg ?p" "\<forall>k < length ?l. word_at q' (?a + 4 * of_nat k) =
      Some (arm_read_register ?p (?l ! k))" by blast
  with assms(1-3,10) have q: "q = q'" by (simp add: arm_load_store_multiple_eq Let_def)
  have base: "arm_read_register s ?n = arm_read_register p ?n - block_size push"
    using q' assms(5-7,13) by (simp add: q arm_read_register_def block_base_written_def)
      (simp add: arm_write_register_def)
  have start: "block_start s pop = ?a"
    using assms(4,5,16,17,20) base by (simp add: block_start_def)
  let ?s = "block_base_written s pop" and ?r = "block_loaded (block_base_written s pop) pop ?a"
  have words: "\<forall>k < length (block_list pop). word_at ?s (?a + 4 * of_nat k) =
      Some (arm_read_register ?p (?l ! k))"
    using q' assms(12,21) by (simp add: q)
  have "arm_read_register ?r (?l ! k) = arm_read_register p (?l ! k)" if "k < length ?l" for k
  proof -
    have "?l ! k \<noteq> ?n" using assms(8) that nth_mem by metis
    with block_loaded_reads(1) [OF words, of k] kept that assms(19,21) show ?thesis by simp
  qed
  moreover have "arm_read_register ?r ?n = arm_read_register p ?n"
  proof (cases ?l)
    case Nil
    with words assms(7,8,17-21) base show ?thesis
      by (simp add: block_loaded_def pc_loaded_def Let_def block_base_written_def block_size_def)
  next
    case Cons
    then have "0 < length (block_list pop)" using assms(21) by simp
    from block_loaded_reads(2) [OF words this assms(19)] assms(7,8,17,18,20,21) base show ?thesis
      by (simp add: block_base_written_def block_size_def)
  qed
  ultimately have "\<forall>n \<in> insert ?n (set ?l). arm_read_register ?r n = arm_read_register p n"
    by (auto simp: in_set_conv_nth)
  then show ?thesis
    using assms(11,14,15) start by (simp add: arm_load_store_multiple_eq Let_def)
qed

theorem push_pop_restores_witness:
  "\<exists>q r. arm_load_store_multiple (arm_write_register sample_core 13 16) 0xE92D0006 = Ret (0, q) \<and>
     arm_load_store_multiple q 0xE8BD0006 = Ret (1, r) \<and>
     arm_read_register r 13 = 16 \<and> arm_read_register r 1 = 5 \<and> arm_read_register r 2 = 7"
proof -
  let ?p = "arm_write_register sample_core 13 16" and ?i = "0xE92D0006 :: u32" and ?j = "0xE8BD0006 :: u32"
  have wf: "core_wf ?p" by (simp add: sample_core_wf)
  have al: "ConditionPassed c ?i" "ConditionPassed c ?j" for c
    by (simp_all add: ConditionPassed_cases condition_field_def unat_drop_bit_eq drop_bit_eq_div)
  have fields: "\<not> bit ?i 20" "bit ?i 24" "\<not> bit ?i 23" "bit ?i 21" "rn_no ?i \<noteq> 15"
    "rn_no ?i \<notin> set (block_list ?i)" "block_granted ?p (block_start ?p ?i) (length (block_list ?i))"
    "bit ?j 20" "\<not> bit ?j 24" "bit ?j 23" "bit ?j 21" "\<not> bit ?j 15" "rn_no ?j = rn_no ?i"
    "block_list ?j = block_list ?i" "insert (rn_no ?i) (set (block_list ?i)) = {13, 1, 2}"
    by code_simp+
  have regs_are: "arm_read_register ?p 13 = 16" "arm_read_register ?p 1 = 5" "arm_read_register ?p 2 = 7"
    by code_simp+
  obtain q where q: "arm_load_store_multiple ?p ?i = Ret (0, q)" "keeps ?p q"
    using load_store_multiple.total [OF wf, of ?i] al(1) fields(1)
    by (auto simp: arm_load_store_multiple_eq [OF wf] Let_def)
  then have "core_wf q" using wf by (simp add: keeps_def)
  from push_pop_restores [OF wf al(1) fields(1-7) q(1) this refl refl al(2) fields(8-14)]
  show ?thesis using q(1) regs_are unfolding fields(15) by auto
qed

text \<open>
  Fact: an LDM that lists the program counter and reads a word for it does not jump
  to that word: the code stores the truth value of \<^verbatim>\<open>value && 0xFFFFFFFE\<close>, so the program
  counter becomes 1, or 0 for the word 0.
\<close>

theorem ldm_pc_is_truth_value:
  assumes "core_wf p" and "ConditionPassed (arm_read_cpsr p) ins" and "bit ins 20" and "bit ins 15"
    and "word_at p (block_start p ins + block_size ins) = Some v"
  shows "\<exists>q. arm_load_store_multiple p ins = Ret (1, q) \<and> read_register (core_reg q) 15 = of_bool (v \<noteq> 0)"
  using assms
  by (simp add: arm_load_store_multiple_eq Let_def block_loaded_def pc_loaded_def
      core_regs.rd_wr_same) (simp add: arm_write_cpsr_def arm_write_register_def)

theorem ldm_pc_is_truth_value_witness:
  "\<exists>q. arm_load_store_multiple (put_word sample_core 0 8) 0xE8908000 = Ret (1, q) \<and>
     read_register (core_reg q) 15 = 1"
proof -
  have "core_wf (put_word sample_core 0 8)" by (simp add: sample_core_wf put_wf)
  moreover have "word_at (put_word sample_core 0 8)
      (block_start (put_word sample_core 0 8) 0xE8908000 + block_size 0xE8908000) = Some 8"
    "ConditionPassed (arm_read_cpsr (put_word sample_core 0 8)) 0xE8908000"
    "bit (0xE8908000 :: u32) 20" "bit (0xE8908000 :: u32) 15"
    by code_simp+
  ultimately show ?thesis
    using ldm_pc_is_truth_value [of "put_word sample_core 0 8" "0xE8908000" 8] by simp
qed

section \<open>A half-word transfer in one equation\<close>

definition half_offset :: "arm_core \<Rightarrow> u32 \<Rightarrow> u32" where
  "half_offset p ins =
     (if bit ins 22 then push_bit 4 (get_bits ins 11 8) OR get_bits ins 3 0
      else take_bit 8 (arm_read_register p (ucast (get_bits ins 3 0))))"

definition half_address :: "arm_core \<Rightarrow> u32 \<Rightarrow> u32" where
  "half_address p ins =
     (if \<not> bit ins 24 then arm_read_register p (rn_no ins)
      else if bit ins 23 then arm_read_register p (rn_no ins) + half_offset p ins
      else arm_read_register p (rn_no ins) - half_offset p ins)"

text \<open>Post-indexing is not conditional and adds the low field of the offset; W is conditional.\<close>

definition half_base_written :: "arm_core \<Rightarrow> u32 \<Rightarrow> arm_core" where
  "half_base_written p ins =
     (let p1 = (if bit ins 24 then p
                else arm_write_register p (rn_no ins) (arm_read_register p (rn_no ins) + get_bits ins 3 0))
      in if bit ins 21 \<and> ConditionPassed (arm_read_cpsr p) ins
         then arm_write_register p1 (rn_no ins) (half_address p ins) else p1)"

lemma half_immediate_word:
  "take_bit 8 (push_bit 4 (get_bits ins 11 8)) = push_bit 4 (get_bits ins 11 8)"
  "take_bit 8 (get_bits ins 3 0) = get_bits ins 3 0"
  by (rule bit_word_eqI; auto simp: bit_simps)+

lemma half_base_written_sel [simp]:
  "core_wf (half_base_written p ins) = core_wf p"
  "arm_read_cpsr (half_base_written p ins) = arm_read_cpsr p"
  "half_at (half_base_written p ins) a = half_at p a"
  "core_mem (half_base_written p ins) = core_mem p"
  "keeps q (half_base_written p ins) = keeps q p"
  by (simp_all add: half_base_written_def Let_def)

lemma arm_load_store_half_eq:
  assumes "core_wf p"
  shows "arm_load_store_half p ins =
    (let q = half_base_written p ins; a = half_address p ins
     in if get_bits ins 7 4 \<noteq> 11 then Ret (1, p)
        else Ret (0, if \<not> ConditionPassed (arm_read_cpsr p) ins then q
          else if bit ins 20 then arm_write_register q (rd_no ins) (read_into ucast 0 (half_at p a))
          else put_half q a (ucast (arm_read_register q (rd_no ins)))))"
  using assms
  by (cases "bit ins 22")
    (simp_all add: arm_load_store_half_def Let_def core_reads_wf core_writes_wf low_half put_first_fun
      half_base_written_def half_address_def half_offset_def half_immediate_word take_bit_8_byte
      flip: rn_no_def rd_no_def)

interpretation load_store_half: total_handler arm_load_store_half
proof
  fix p ins status q assume "core_wf p" "arm_load_store_half p ins = Ret (status, q)"
  then show "keeps p q"
    by (auto simp: arm_load_store_half_eq Let_def split: if_splits)
qed (simp add: arm_load_store_half_eq Let_def)

section \<open>Properties of the half-word transfers\<close>

text \<open>
  Fact: a half-word stored at a granted address and loaded from it is the low half of
  the register, zero-extended.
\<close>

theorem half_roundtrip:
  assumes "core_wf p" and "ConditionPassed (arm_read_cpsr p) ins" and "\<not> bit ins 20"
    and "get_bits ins 7 4 = 11" and "aligned 2 (core_mem p) (half_address p ins)"
    and "arm_load_store_half p ins = Ret (0, q)"
    and "ConditionPassed (arm_read_cpsr q) ins'" and "bit ins' 20" and "get_bits ins' 7 4 = 11"
    and "half_address q ins' = half_address p ins" and "rd_no ins' \<noteq> 15"
  shows "\<exists>r. arm_load_store_half q ins' = Ret (0, r) \<and>
    arm_read_register r (rd_no ins') =
      take_bit 16 (arm_read_register (half_base_written p ins) (rd_no ins))"
proof -
  let ?p = "half_base_written p ins" and ?a = "half_address p ins"
  have q: "q = put_half ?p ?a (ucast (arm_read_register ?p (rd_no ins)))"
    using assms(1-4,6) by (simp add: arm_load_store_half_eq Let_def)
  have "ucast (ucast x :: u16) = (take_bit 16 x :: u32)" for x :: u32
    by (rule bit_word_eqI) (auto simp: bit_simps)
  moreover have "core_wf q" using assms(1) by (simp add: q put_wf)
  moreover have "half_at q ?a = Some (ucast (arm_read_register ?p (rd_no ins)))"
    using assms(1,5) by (simp add: q half_at_put_half)
  ultimately show ?thesis
    using assms(7-11) by (simp add: arm_load_store_half_eq Let_def)
qed

theorem half_roundtrip_witness:
  "\<exists>r. arm_load_store_half (put_half sample_core 6 5) 0xE1D030B6 = Ret (0, r) \<and>
     arm_read_register r 3 = 5"
proof -
  let ?i = "0xE1C010B6 :: u32" and ?j = "0xE1D030B6 :: u32" and ?q = "put_half sample_core 6 5"
  have i: "ConditionPassed (arm_read_cpsr sample_core) ?i" "\<not> bit ?i 20" "get_bits ?i 7 4 = 11"
    "aligned 2 (core_mem sample_core) (half_address sample_core ?i)"
    by code_simp+
  have more: "bit ?i 24" "\<not> bit ?i 21" "half_address sample_core ?i = 6"
    "arm_read_register sample_core (rd_no ?i) = 5"
    by code_simp+
  then have q: "arm_load_store_half sample_core ?i = Ret (0, ?q)"
    using i by (simp add: arm_load_store_half_eq sample_core_wf half_base_written_def Let_def)
  have j: "ConditionPassed (arm_read_cpsr ?q) ?j" "bit ?j 20" "get_bits ?j 7 4 = 11"
    "half_address ?q ?j = half_address sample_core ?i" "rd_no ?j \<noteq> 15" "rd_no ?j = 3"
    "take_bit 16 (arm_read_register (half_base_written sample_core ?i) (rd_no ?i)) = 5"
    by code_simp+
  from half_roundtrip [OF sample_core_wf i q j(1-5)] j(6,7) show ?thesis by simp
qed

text \<open>
  Fact: the post-indexed half-word forms are not conditional on the base register:
  an instruction whose condition fails still adds to it the low four bits of the instruction, which for a register
  offset is the register's number.
\<close>

theorem half_post_index_unconditional:
  assumes "core_wf p" and "\<not> ConditionPassed (arm_read_cpsr p) ins" and "\<not> bit ins 24"
    and "get_bits ins 7 4 = 11"
  shows "arm_load_store_half p ins =
    Ret (0, arm_write_register p (rn_no ins) (arm_read_register p (rn_no ins) + get_bits ins 3 0))"
  using assms by (simp add: arm_load_store_half_eq Let_def half_base_written_def)

theorem half_post_index_unconditional_witness:
  "arm_load_store_half sample_core 0x008130B2 = Ret (0, arm_write_register sample_core 1 7)"
proof -
  have "\<not> ConditionPassed (arm_read_cpsr sample_core) 0x008130B2" "\<not> bit (0x008130B2 :: u32) 24"
    "get_bits 0x008130B2 7 4 = 11" "rn_no 0x008130B2 = 1" "get_bits 0x008130B2 3 0 = 2"
    "arm_read_register sample_core 1 = 5"
    by code_simp+
  with half_post_index_unconditional [OF sample_core_wf, of "0x008130B2"] show ?thesis by simp
qed

text \<open>
  Fact: for every transfer instruction but the post-indexed half-words, a condition
  that does not pass means that nothing of the processor changes.
\<close>

theorem failed_condition_changes_nothing:
  assumes "core_wf p" and "\<not> ConditionPassed (arm_read_cpsr p) ins"
  shows "arm_load_store p ins = Ret (0, p) \<and>
    (\<exists>s. arm_load_store_multiple p ins = Ret (s, p)) \<and>
    (bit ins 24 \<longrightarrow> (\<exists>s. arm_load_store_half p ins = Ret (s, p)))"
  using assms
  by (simp add: arm_load_store_eq arm_load_store_multiple_eq arm_load_store_half_eq Let_def
      half_base_written_def)

theorem failed_condition_changes_nothing_witness:
  "arm_load_store sample_core 0x05801008 = Ret (0, sample_core)"
proof -
  have "\<not> ConditionPassed (arm_read_cpsr sample_core) 0x05801008" by code_simp
  from failed_condition_changes_nothing [OF sample_core_wf this] show ?thesis by simp
qed

end
