(* ===== verification/Branch_Other.thy ===== *)
theory Branch_Other
  imports Arm_Exception Handler
begin

text \<open>
  Branches, software interrupts and the empty class of \<^verbatim>\<open>arm_branch_other.c\<close>. \<^verbatim>\<open>~0\<close> is an \<^verbatim>\<open>int\<close>, so the
  mask of the forward branch is an arithmetic shift of \<open>-1\<close> and masks nothing. The lemmas give the target of
  every branch against the one the ARM manual defines.
\<close>

section \<open>Operations\<close>

definition arm_branch :: "arm_core \<Rightarrow> u32 \<Rightarrow> int \<times> arm_core" where
  "arm_branch p ins =
     (let L = ucast (get_bit ins 24) :: u8
      in if ConditionPassed (arm_read_cpsr p) ins
         then let p = (if L = 1 then arm_write_register p 14 (arm_read_register p 15 - 4) else p);
                  val = (if get_bit ins 23 \<noteq> 0 then ins OR push_bit 23 (NOT 0)
                         else ins AND signed_drop_bit (32 - 23) (NOT 0));
                  val = push_bit 2 val
              in (0, arm_write_register p 15 (arm_read_register p 15 + val))
         else (0, p))"

text \<open>The exit of the simulation is the software interrupt \<^verbatim>\<open>0x123456\<close>.\<close>

definition arm_coprocessor_others_swi :: "arm_core \<Rightarrow> u32 \<Rightarrow> (int \<times> arm_core) cres" where
  "arm_coprocessor_others_swi p ins =
     (if get_bit ins 24 \<noteq> 0
      then if ins AND 0xFFFFFF = 0x123456 then Exit else Ret (SOFTWARE_INTERRUPT, p)
      else Ret (UNDEFINED_INSTRUCTION, p))"

definition arm_miscellaneous :: "arm_core \<Rightarrow> u32 \<Rightarrow> int \<times> arm_core" where
  "arm_miscellaneous p ins = (UNDEFINED_INSTRUCTION, p)"

section \<open>The contract\<close>

interpretation branch: total_handler "\<lambda>p ins. Ret (arm_branch p ins)"
  by unfold_locales (auto simp: arm_branch_def Let_def split: if_splits)

interpretation swi: handler arm_coprocessor_others_swi
  by unfold_locales (auto simp: arm_coprocessor_others_swi_def split: if_splits)

interpretation miscellaneous: total_handler "\<lambda>p ins. Ret (arm_miscellaneous p ins)"
  by unfold_locales (auto simp: arm_miscellaneous_def)

section \<open>Branch targets\<close>

text \<open>The offset of the ARM manual: the low 24 bits, sign-extended and shifted left by two.\<close>

definition branch_offset :: "u32 \<Rightarrow> u32" where
  "branch_offset ins = push_bit 2 (signed_take_bit 23 ins)"

definition upper_bits :: "u32 \<Rightarrow> u32" where
  "upper_bits ins = push_bit 26 (drop_bit 24 ins)"

lemma backward_offset: "bit ins 23 \<Longrightarrow> push_bit 2 (ins OR push_bit 23 (NOT 0)) = branch_offset ins"
  unfolding branch_offset_def
  by (rule bit_word_eqI) (auto simp: bit_simps min_def not_le)

lemma forward_offset:
  assumes "\<not> bit ins 23"
  shows "push_bit 2 ins = branch_offset ins + upper_bits ins"
proof -
  have "branch_offset ins + upper_bits ins = branch_offset ins OR upper_bits ins"
    by (rule disjunctive_add) (use assms in \<open>auto simp: branch_offset_def upper_bits_def bit_simps min_def\<close>)
  also have "\<dots> = push_bit 2 ins"
    unfolding branch_offset_def upper_bits_def
  proof (rule bit_word_eqI)
    fix n assume "n < LENGTH(32)"
    then show "bit (push_bit 2 (signed_take_bit 23 ins) OR push_bit 26 (drop_bit 24 ins)) n =
        bit (push_bit 2 ins) n"
      using assms by (cases "n = 25"; cases "n < 26") (auto simp: bit_simps min_def not_less)
  qed
  finally show ?thesis by simp
qed

lemma arm_branch_eq:
  "arm_branch p ins =
     (0, if ConditionPassed (arm_read_cpsr p) ins
         then arm_write_register
           (if bit ins 24 then arm_write_register p 14 (arm_read_register p 15 - 4) else p) 15
           (arm_read_register p 15 + branch_offset ins + (if bit ins 23 then 0 else upper_bits ins))
         else p)"
  by (simp add: arm_branch_def Let_def backward_offset [simplified] forward_offset add.assoc)

text \<open>
  Fact: a branch goes backward exactly as the ARM manual says: to the address of the
  branch plus 8 plus the sign-extended offset, with the address of the next instruction in the link register for BL and
  nothing else changed.
\<close>

theorem backward_branch_target:
  assumes "ConditionPassed (arm_read_cpsr p) ins" and "bit ins 23"
  shows "arm_branch p ins = (0, arm_write_register
    (if bit ins 24 then arm_write_register p 14 (arm_read_register p 15 - 4) else p) 15
    (arm_read_register p 15 + branch_offset ins))"
  using assms by (simp add: arm_branch_eq)

theorem backward_branch_target_witness:
  "arm_branch sample_core 0xEBFFFFFE =
     (0, arm_write_register (arm_write_register sample_core 14 0) 15 (- 4))"
proof -
  have "ConditionPassed (arm_read_cpsr sample_core) 0xEBFFFFFE" "bit (0xEBFFFFFE :: u32) 23"
    "bit (0xEBFFFFFE :: u32) 24" "arm_read_register sample_core 15 = 4" "branch_offset 0xEBFFFFFE = - 8"
    by code_simp+
  with backward_branch_target [of sample_core "0xEBFFFFFE"] show ?thesis by simp
qed

text \<open>
  Property C30: no forward branch reaches its target. The mask meant to clear the upper bits of the
  instruction is all ones, so bits 24 to 29, among them the class bits of a branch, are added to the program counter: a
  branch instruction sets the program counter of the ARM manual exactly when its offset is negative.
\<close>

theorem branch_target_correct_iff_backward:
  assumes "ConditionPassed (arm_read_cpsr p) ins" and "get_bits ins 27 25 = 5"
  shows "read_register (core_reg (snd (arm_branch p ins))) 15 =
      arm_read_register p 15 + branch_offset ins \<longleftrightarrow> bit ins 23"
proof -
  have "bit (get_bits ins 27 25) 0" using assms(2) by simp
  then have "bit (upper_bits ins) 27" by (simp add: upper_bits_def bit_simps)
  then have "upper_bits ins \<noteq> 0" by auto
  moreover have "read_register (core_reg (arm_write_register q 15 v)) 15 = v" for q v
    by (simp add: core_regs.rd_wr_same)
  ultimately show ?thesis using assms(1) by (simp add: arm_branch_eq)
qed

theorem branch_target_correct_iff_backward_witness:
  "read_register (core_reg (snd (arm_branch sample_core 0xEA000002))) 15 \<noteq>
     arm_read_register sample_core 15 + branch_offset 0xEA000002"
proof -
  have "ConditionPassed (arm_read_cpsr sample_core) 0xEA000002" "get_bits 0xEA000002 27 25 = 5"
    "\<not> bit (0xEA000002 :: u32) 23" by code_simp+
  with branch_target_correct_iff_backward [of sample_core "0xEA000002"] show ?thesis by simp
qed

end
