(* ===== verification/Instruction.thy ===== *)
theory Instruction
  imports Data_Processing_Props Load_Store Branch_Other
begin

text \<open>
  One instruction, \<^verbatim>\<open>arm_instruction.c\<close>: fetch, choose the handler by bits 27 to 25, execute, and on
  a status other than 0 raise the exception of that number. The statuses of the handlers are
  dropped. The theory states when a step is defined, ends the process, or resets, and what every
  step keeps.
\<close>

section \<open>Operations\<close>

definition arm_execute_instruction :: "arm_core \<Rightarrow> (int \<times> arm_core) cres" where
  "arm_execute_instruction p =
     cbind (arm_fetch p) (\<lambda>(fetched, p). case fetched of
       None \<Rightarrow> Ret (1, p)
     | Some ins \<Rightarrow>
         let champ = ucast (get_bits ins 27 25) :: u8;
             done = (\<lambda>r. Ret (0, snd r))
         in if champ = 0
            then if get_bits ins 7 4 = 0xb then cbind (arm_load_store_half p ins) done
                 else cbind (arm_data_processing_shift p ins) done
            else if champ = 1 then cbind (arm_data_processing_shift p ins) done
            else if champ = 2 \<or> champ = 3 then cbind (arm_load_store p ins) done
            else if champ = 4 then cbind (arm_load_store_multiple p ins) done
            else if champ = 5 then done (arm_branch p ins)
            else if champ = 6 then done (arm_coprocessor_load_store p ins)
            else if champ = 7 then cbind (arm_coprocessor_others_swi p ins) done
            else Ret (1, p))"

definition arm_step :: "arm_core \<Rightarrow> (int \<times> arm_core) cres" where
  "arm_step p =
     cbind (arm_execute_instruction p) (\<lambda>(result, p).
       Ret (result, if result \<noteq> 0 then arm_exception p (of_int result) else p))"

section \<open>A step in one equation\<close>

definition fetched :: "arm_core \<Rightarrow> arm_core" where
  "fetched p = arm_write_register (p\<lparr>cycle_count := cycle_count p + 1\<rparr>) 15 (fetch_address p + 4)"

definition next_instruction :: "arm_core \<Rightarrow> u32 option" where
  "next_instruction p = word_at p (fetch_address p)"

text \<open>The classes of instructions, as the handlers are chosen.\<close>

datatype iclass = Half | Data | Transfer | Block | Branch | Coprocessor | Swi

definition class_of :: "u32 \<Rightarrow> iclass" where
  "class_of ins =
     (let c = unat (get_bits ins 27 25)
      in if c = 0 then if get_bits ins 7 4 = 11 then Half else Data
         else [Data, Transfer, Transfer, Block, Branch, Coprocessor, Swi] ! (c - 1))"

fun handler_of :: "iclass \<Rightarrow> arm_core \<Rightarrow> u32 \<Rightarrow> (int \<times> arm_core) cres" where
  "handler_of Half p ins = arm_load_store_half p ins"
| "handler_of Data p ins = arm_data_processing_shift p ins"
| "handler_of Transfer p ins = arm_load_store p ins"
| "handler_of Block p ins = arm_load_store_multiple p ins"
| "handler_of Branch p ins = Ret (arm_branch p ins)"
| "handler_of Coprocessor p ins = Ret (arm_coprocessor_load_store p ins)"
| "handler_of Swi p ins = arm_coprocessor_others_swi p ins"

interpretation coprocessor: total_handler "\<lambda>p ins. Ret (arm_coprocessor_load_store p ins)"
  by unfold_locales (auto simp: arm_coprocessor_load_store_def)

interpretation dispatched: handler "handler_of c" for c
proof
  fix p ins status q assume "core_wf p" "handler_of c p ins = Ret (status, q)"
  then show "keeps p q"
    by (cases c; simp only: handler_of.simps; blast intro: load_store_half.returns_keeps
        data_processing.returns_keeps load_store.returns_keeps load_store_multiple.returns_keeps
        branch.returns_keeps coprocessor.returns_keeps swi.returns_keeps)
qed

lemma class_of_cases:
  obtains "get_bits ins 27 25 = 0" "get_bits ins 7 4 = 11" "class_of ins = Half"
  | "get_bits ins 27 25 = 0" "get_bits ins 7 4 \<noteq> 11" "class_of ins = Data"
  | "get_bits ins 27 25 = 1" "class_of ins = Data"
  | "get_bits ins 27 25 = 2 \<or> get_bits ins 27 25 = 3" "class_of ins = Transfer"
  | "get_bits ins 27 25 = 4" "class_of ins = Block"
  | "get_bits ins 27 25 = 5" "class_of ins = Branch"
  | "get_bits ins 27 25 = 6" "class_of ins = Coprocessor"
  | "get_bits ins 27 25 = 7" "class_of ins = Swi"
proof -
  define n where "n = unat (get_bits ins 27 25)"
  then have "n < 8" using unat_get_bits_less [of ins 27 25] by simp
  then have "n \<in> {0, 1, 2, 3, 4, 5, 6, 7}" by auto
  moreover have "get_bits ins 27 25 = of_nat n" by (simp add: n_def)
  ultimately show thesis
    using that unfolding class_of_def Let_def n_def [symmetric]
    by (elim insertE emptyE) (auto split: if_splits)
qed

lemma arm_step_eq:
  assumes "core_wf p"
  shows "arm_step p = (case next_instruction p of
      None \<Rightarrow> Ret (1, arm_exception (fetched p) 1)
    | Some ins \<Rightarrow> cbind (handler_of (class_of ins) (fetched p) ins) (\<lambda>r. Ret (0, snd r)))"
proof (cases "next_instruction p")
  case None
  with assms show ?thesis
    by (simp add: arm_step_def arm_execute_instruction_def arm_fetch_wf next_instruction_def
        fetched_def)
next
  case (Some ins)
  have "cbind (cbind m (\<lambda>r. Ret (0, snd r))) (\<lambda>(result, p). Ret (result,
      if result \<noteq> 0 then arm_exception p (of_int result) else p)) = cbind m (\<lambda>r. Ret (0 :: int, snd r))"
    for m :: "(int \<times> arm_core) cres"
    by (cases m) simp_all
  note this [simp]
  have fetch: "arm_fetch p = Ret (Some ins, fetched p)"
    using assms Some by (simp add: arm_fetch_wf next_instruction_def fetched_def)
  show ?thesis
    unfolding arm_step_def arm_execute_instruction_def fetch cbind_simps prod.case option.case Let_def Some
    by (rule class_of_cases [of ins]; (elim disjE)?; simp)
qed

lemma fetched_sel [simp]:
  "core_wf (fetched p) = core_wf p"
  "core_mem (fetched p) = core_mem p"
  "cycle_count (fetched p) = cycle_count p + 1"
  "arm_read_cpsr (fetched p) = arm_read_cpsr p"
  by (simp_all add: fetched_def)

lemma fetched_pc: "arm_read_register (fetched p) 15 = fetch_address p + 8"
proof -
  have "(fetch_address p + 4 + 4) AND 0xFFFFFFFD = fetch_address p + 4 + 4"
    unfolding clear_bit_1_add_4 by (simp add: fetch_address_def)
  then show ?thesis by (simp add: fetched_def)
qed

lemma step_keeps_fetched:
  assumes "core_wf p" and "arm_step p = Ret (s, q)"
  shows "keeps (fetched p) q"
proof (cases "next_instruction p")
  case None
  with assms show ?thesis by (auto simp: arm_step_eq keeps_def)
next
  case (Some ins)
  with assms obtain r where r: "handler_of (class_of ins) (fetched p) ins = Ret r" "q = snd r"
    by (auto simp: arm_step_eq)
  obtain st q' where "r = (st, q')" by force
  moreover have "core_wf (fetched p)" using assms(1) by simp
  ultimately show ?thesis
    using dispatched.returns_keeps [of "fetched p" "class_of ins" ins st q'] r by simp
qed

section \<open>Properties of a step\<close>

text \<open>
  Property C1: whatever instruction a step executes, it keeps the processor well formed (a
  memory of whole words, the user mode), adds one to the cycle counter and leaves the size and the byte order
  of the memory alone.
\<close>

theorem step_preserves:
  assumes "core_wf p" and "arm_step p = Ret (status, q)"
  shows "core_wf q \<and> cycle_count q = cycle_count p + 1 \<and>
    mem_kind (core_mem q) = mem_kind (core_mem p)"
  using step_keeps_fetched [OF assms] assms(1) by (simp add: keeps_def)

lemma sample_next: "next_instruction sample_core = Some 0" "class_of 0 = Data"
  "\<not> ConditionPassed (arm_read_cpsr sample_core) 0"
  by code_simp+

lemma sample_step: "arm_step sample_core = Ret (0, fetched sample_core)"
  using sample_core_wf sample_next
  by (simp add: arm_step_eq arm_data_processing_shift_eq)

theorem step_preserves_witness:
  "core_wf (fetched sample_core) \<and> cycle_count (fetched sample_core) = cycle_count sample_core + 1 \<and>
    mem_kind (core_mem (fetched sample_core)) = mem_kind (core_mem sample_core)"
  by (rule step_preserves [OF sample_core_wf sample_step])

text \<open>
  Fact: the status of a step tells only whether the fetch was refused. No status of
  a handler reaches the caller: a step that fetched an instruction and returns always returns 0, and a step
  whose fetch was refused always returns 1.
\<close>

theorem step_status:
  assumes "core_wf p" and "arm_step p = Ret (status, q)"
  shows "status = of_bool (next_instruction p = None)"
  using assms by (cases "next_instruction p") (auto simp: arm_step_eq)

theorem step_status_witness: "(0 :: int) = of_bool (next_instruction sample_core = None)"
  by (rule step_status [OF sample_core_wf sample_step])

text \<open>
  Property C20: running off the memory, or onto an address that is not a multiple of 4, resets the processor: the program counter
  becomes 0, CPSR its reset value, one cycle is counted, and the other registers and the memory stay.
\<close>

theorem refused_fetch_resets:
  assumes "core_wf p" and "\<not> aligned 4 (core_mem p) (fetch_address p)"
  shows "\<exists>q. arm_step p = Ret (1, q) \<and> read_register (core_reg q) 15 = 0 \<and>
    arm_read_cpsr q = 0x1d3 \<and> core_mem q = core_mem p \<and> cycle_count q = cycle_count p + 1 \<and>
    (\<forall>n. n \<noteq> 15 \<longrightarrow> arm_read_register q n = arm_read_register p n)"
proof -
  have "next_instruction p = None" using assms(2) by (simp add: next_instruction_def word_at_def)
  moreover have "core_wf (fetched p)" using assms(1) by simp
  moreover have "read_register (core_reg (arm_write_register r 15 0)) 15 = 0" for r
    by (simp add: core_regs.rd_wr_same)
  ultimately show ?thesis
    using assms(1) by (simp add: arm_step_eq arm_exception_reset) (simp add: fetched_def)
qed

theorem refused_fetch_resets_witness:
  "\<exists>q. arm_step (arm_write_register sample_core 15 1) = Ret (1, q) \<and>
    read_register (core_reg q) 15 = 0 \<and> arm_read_cpsr q = 0x1d3"
proof -
  have "core_wf (arm_write_register sample_core 15 1)" by (simp add: sample_core_wf)
  moreover have "\<not> aligned 4 (core_mem (arm_write_register sample_core 15 1))
      (fetch_address (arm_write_register sample_core 15 1))" by code_simp
  ultimately show ?thesis using refused_fetch_resets by blast
qed

text \<open>
  Property C4: the exact outcome of a step from a well-formed state. It ends the process only
  on the software interrupt \<^verbatim>\<open>0x123456\<close>, whatever its condition field; it has no meaning in C only
  on a data-processing instruction whose condition passes and whose operand shifts by an invalid
  count; in every other state it returns.
\<close>

theorem step_outcomes:
  assumes "core_wf p"
  shows "(arm_step p = Exit \<longleftrightarrow> (\<exists>ins. next_instruction p = Some ins \<and> class_of ins = Swi \<and>
      bit ins 24 \<and> ins AND 0xFFFFFF = 0x123456)) \<and>
    (arm_step p = Undef \<longleftrightarrow> (\<exists>ins. next_instruction p = Some ins \<and> class_of ins = Data \<and>
      ConditionPassed (arm_read_cpsr p) ins \<and> operand_undefined (fetched p) ins))"
proof (cases "next_instruction p")
  case None
  with assms show ?thesis by (simp add: arm_step_eq)
next
  case (Some ins)
  have wf: "core_wf (fetched p)" using assms by simp
  have m: "cbind m (\<lambda>r. Ret (0, snd r)) = Exit \<longleftrightarrow> m = Exit"
    "cbind m (\<lambda>r. Ret (0, snd r)) = Undef \<longleftrightarrow> m = Undef" for m :: "(int \<times> arm_core) cres"
    by (cases m; simp)+
  show ?thesis
    using assms Some load_store_half.returns [OF wf] load_store.returns [OF wf]
      load_store_multiple.returns [OF wf]
    by (cases "class_of ins")
      (auto simp: arm_step_eq m dp_Undef_iff arm_coprocessor_others_swi_def)
qed

theorem step_outcomes_witness:
  "arm_step (put_word sample_core 0 0x0F123456) = Exit"
proof -
  have wf: "core_wf (put_word sample_core 0 0x0F123456)" by (simp add: sample_core_wf put_wf)
  have "next_instruction (put_word sample_core 0 0x0F123456) = Some 0x0F123456"
    "class_of 0x0F123456 = Swi" "bit (0x0F123456 :: u32) 24"
    "(0x0F123456 :: u32) AND 0xFFFFFF = 0x123456"
    by code_simp+
  then show ?thesis using step_outcomes [OF wf] by blast
qed

text \<open>
  Fact: no exception is ever raised by an instruction. A coprocessor transfer and a
  software interrupt other than the exit are executed as if they did nothing: the step returns 0 and only
  the program counter and the cycle counter move.
\<close>

theorem unimplemented_instructions_are_skipped:
  assumes "core_wf p" and "next_instruction p = Some ins"
    and "class_of ins = Coprocessor \<or> class_of ins = Swi \<and> ins AND 0xFFFFFF \<noteq> 0x123456"
  shows "arm_step p = Ret (0, fetched p)"
  using assms
  by (auto simp: arm_step_eq arm_coprocessor_load_store_def arm_coprocessor_others_swi_def)

theorem unimplemented_instructions_are_skipped_witness:
  "arm_step (put_word sample_core 0 0xEF000000) = Ret (0, fetched (put_word sample_core 0 0xEF000000))"
proof -
  have wf: "core_wf (put_word sample_core 0 0xEF000000)" by (simp add: sample_core_wf put_wf)
  have "next_instruction (put_word sample_core 0 0xEF000000) = Some 0xEF000000"
    "class_of 0xEF000000 = Swi" "(0xEF000000 :: u32) AND 0xFFFFFF \<noteq> 0x123456"
    by code_simp+
  with unimplemented_instructions_are_skipped [OF wf] show ?thesis by blast
qed

end
