(* ===== verification/Debug.thy ===== *)
theory Debug
  imports C_Prelude "HOL-Library.Char_ord" "HOL-Library.List_Lexorder" "HOL-Library.Multiset"
begin

text \<open>
  The list of files whose debug messages are shown, \<^verbatim>\<open>debug.c\<close>: an array of 64 names kept sorted by
  \<^verbatim>\<open>strcmp\<close>, insertion into it, and the binary search in it. The lemmas show that insertion keeps the array
  sorted, exactly when it writes past the end of the array, and that the search is
  membership.
\<close>

section \<open>Comparison of C strings\<close>

text \<open>\<^verbatim>\<open>strcmp\<close> compares the characters as \<^verbatim>\<open>unsigned char\<close>; only the sign of its result matters.\<close>

fun strcmp :: "string \<Rightarrow> string \<Rightarrow> int" where
  "strcmp [] [] = 0"
| "strcmp [] (b # bs) = - 1"
| "strcmp (a # as) [] = 1"
| "strcmp (a # as) (b # bs) =
     (if a = b then strcmp as bs
      else if (of_char a :: nat) < of_char b then - 1 else 1)"

lemma strcmp_order:
  "strcmp a b < 0 \<longleftrightarrow> a < b" "strcmp a b = 0 \<longleftrightarrow> a = b" "0 < strcmp a b \<longleftrightarrow> b < a"
proof -
  have neq: "a \<noteq> b \<Longrightarrow> \<not> (of_char a :: nat) < of_char b \<Longrightarrow> (of_char b :: nat) < of_char a" for a b
    by (metis linorder_neqE_nat of_char_eq_iff)
  show "strcmp a b < 0 \<longleftrightarrow> a < b" "strcmp a b = 0 \<longleftrightarrow> a = b" "0 < strcmp a b \<longleftrightarrow> b < a"
    by (induction a b rule: strcmp.induct) (auto simp: less_char_def neq)
qed

section \<open>The array\<close>

record debug_state =
  debugged_files :: "string list"
  nb_debugged_files :: nat

definition MAX_FILES_NUMBER :: nat where
  "MAX_FILES_NUMBER = 64"

definition debug_initial :: debug_state where
  "debug_initial = \<lparr>debugged_files = replicate MAX_FILES_NUMBER [], nb_debugged_files = 0\<rparr>"

section \<open>Insertion\<close>

text \<open>The first loop: the index at which it stops, from index \<open>i\<close> on.\<close>

function find_slot :: "debug_state \<Rightarrow> string \<Rightarrow> nat \<Rightarrow> nat" where
  "find_slot d name i =
     (if i < nb_debugged_files d \<and> i < MAX_FILES_NUMBER \<and> strcmp (debugged_files d ! i) name < 0
      then find_slot d name (i + 1) else i)"
  by auto
termination by (relation "measure (\<lambda>(d, _, i). nb_debugged_files d - i)") auto

declare find_slot.simps [simp del]

text \<open>The second loop moves the names from index \<open>i\<close> on up by one, from \<open>j\<close> down.\<close>

fun shift_up :: "string list \<Rightarrow> nat \<Rightarrow> nat \<Rightarrow> string list cres" where
  "shift_up files i 0 = Ret files"
| "shift_up files i (Suc k) =
     (if i < Suc k
      then if Suc k < length files then shift_up (files[Suc k := files ! k]) i k else Undef
      else Ret files)"

definition add_debug_to :: "debug_state \<Rightarrow> string \<Rightarrow> debug_state cres" where
  "add_debug_to d name =
     (let i = find_slot d name 0
      in if MAX_FILES_NUMBER \<le> i then Ret d
         else cbind (shift_up (debugged_files d) i (nb_debugged_files d)) (\<lambda>files.
           Ret \<lparr>debugged_files = files[i := name], nb_debugged_files = nb_debugged_files d + 1\<rparr>))"

section \<open>Search\<close>

text \<open>The loop on the indices, which are \<^verbatim>\<open>int\<close>: \<open>to\<close> can be \<open>-1\<close>. \<open>None\<close> is the \<^verbatim>\<open>return 1\<close> inside it.\<close>

function search :: "string list \<Rightarrow> string \<Rightarrow> int \<Rightarrow> int \<Rightarrow> (int \<times> int) option" where
  "search files name from to =
     (if from < to
      then let middle = (from + to) div 2;
               result = strcmp (files ! nat middle) name
           in if result < 0 then search files name (middle + 1) to
              else if 0 < result then search files name from (middle - 1)
              else None
      else Some (from, to))"
  by auto
termination by (relation "measure (\<lambda>(_, _, from, to). nat (to - from))") auto

declare search.simps [simp del]

definition is_debugged :: "debug_state \<Rightarrow> string \<Rightarrow> int" where
  "is_debugged d name =
     (case search (debugged_files d) name 0 (int (nb_debugged_files d) - 1) of
        None \<Rightarrow> 1
      | Some (from, to) \<Rightarrow>
          (if from = to \<and> strcmp (debugged_files d ! nat from) name = 0 then 1 else 0))"

text \<open>The dots and printable characters \<^verbatim>\<open>__debug_raw_binary\<close> prints for the first \<open>len\<close> bytes.\<close>

definition debug_raw_binary :: "string \<Rightarrow> nat \<Rightarrow> string" where
  "debug_raw_binary data len =
     map (\<lambda>c. if 32 \<le> (of_char c :: nat) \<and> (of_char c :: nat) < 127 then c else CHR ''.'') (take len data)"

section \<open>Invariant\<close>

definition names :: "debug_state \<Rightarrow> string list" where
  "names d = take (nb_debugged_files d) (debugged_files d)"

definition debug_wf :: "debug_state \<Rightarrow> bool" where
  "debug_wf d \<longleftrightarrow> length (debugged_files d) = MAX_FILES_NUMBER \<and>
     nb_debugged_files d \<le> MAX_FILES_NUMBER \<and> sorted (names d)"

lemma debug_initial_wf: "debug_wf debug_initial"
  by (simp add: debug_wf_def debug_initial_def names_def)

lemma nth_names:
  "debug_wf d \<Longrightarrow> i < nb_debugged_files d \<Longrightarrow> debugged_files d ! i = names d ! i"
  by (simp add: names_def)

lemma length_names: "debug_wf d \<Longrightarrow> length (names d) = nb_debugged_files d"
  by (simp add: debug_wf_def names_def)

text \<open>The slot splits the names into those before the new one and the rest.\<close>

lemma find_slot_bounds:
  assumes "debug_wf d" and "i \<le> nb_debugged_files d"
  shows "i \<le> find_slot d name i \<and> find_slot d name i \<le> nb_debugged_files d \<and>
    (\<forall>k. i \<le> k \<and> k < find_slot d name i \<longrightarrow> debugged_files d ! k < name) \<and>
    (find_slot d name i < nb_debugged_files d \<longrightarrow> name \<le> debugged_files d ! find_slot d name i)"
  using assms
proof (induction d name i rule: find_slot.induct)
  case (1 d name i)
  show ?case
  proof (cases "i < nb_debugged_files d \<and> strcmp (debugged_files d ! i) name < 0")
    case True
    then have m: "i < MAX_FILES_NUMBER" using "1.prems" by (simp add: debug_wf_def)
    then have e: "find_slot d name i = find_slot d name (i + 1)"
      using True by (subst find_slot.simps) simp
    have "debugged_files d ! k < name" if "i \<le> k" "k < find_slot d name (i + 1)" for k
      using that True 1 m by (cases "k = i") (auto simp: strcmp_order)
    with 1 True m show ?thesis unfolding e by auto
  next
    case False
    then have e: "find_slot d name i = i" by (subst find_slot.simps) auto
    with False "1.prems" show ?thesis unfolding e by (auto simp: strcmp_order not_less)
  qed
qed

lemma shift_up_Ret:
  assumes "i \<le> n" and "n < length files"
  shows "shift_up files i n =
    Ret (take i files @ (files ! i # take (n - i) (drop i files)) @ drop (Suc n) files)"
  using assms
proof (induction n arbitrary: files)
  case (Suc n)
  show ?case
  proof (cases "i = Suc n")
    case False
    let ?files = "files[Suc n := files ! n]"
    have "shift_up files i (Suc n) = shift_up ?files i n" using Suc.prems False by simp
    also have "\<dots> = Ret (take i ?files @ (?files ! i # take (n - i) (drop i ?files)) @ drop (Suc n) ?files)"
      using Suc.prems False by (intro Suc.IH) simp_all
    also have "take i ?files = take i files" using False Suc.prems by simp
    also have "?files ! i = files ! i" using False by simp
    also have "take (n - i) (drop i ?files) = take (n - i) (drop i files)"
      using False Suc.prems by (simp add: take_drop)
    also have "drop (Suc n) ?files = files ! n # drop (Suc (Suc n)) files"
      using Suc.prems by (simp add: Cons_nth_drop_Suc [symmetric])
    also have "take i files @ (files ! i # take (n - i) (drop i files)) @ files ! n # drop (Suc (Suc n)) files =
        take i files @ (files ! i # take (Suc n - i) (drop i files)) @ drop (Suc (Suc n)) files"
      using False Suc.prems by (simp add: Suc_diff_le take_Suc_conv_app_nth)
    finally show ?thesis .
  qed (use Suc.prems in \<open>simp add: Cons_nth_drop_Suc\<close>)
qed (simp add: Cons_nth_drop_Suc)

lemma add_debug_to_names:
  assumes "debug_wf d" and "nb_debugged_files d < MAX_FILES_NUMBER"
  shows "\<exists>d'. add_debug_to d name = Ret d' \<and> debug_wf d' \<and> mset (names d') = add_mset name (mset (names d))"
proof -
  let ?i = "find_slot d name 0" and ?n = "nb_debugged_files d" and ?f = "debugged_files d"
  have len: "length ?f = MAX_FILES_NUMBER" and sorted: "sorted (names d)"
    using assms(1) by (simp_all add: debug_wf_def)
  have slot: "?i \<le> ?n" "\<forall>k < ?i. ?f ! k < name" "?i < ?n \<longrightarrow> name \<le> ?f ! ?i"
    using find_slot_bounds [OF assms(1), of 0 name] by auto
  define files where "files = (take ?i ?f @ (?f ! ?i # take (?n - ?i) (drop ?i ?f)) @ drop (Suc ?n) ?f)[?i := name]"
  have files: "files = take ?i (names d) @ name # drop ?i (names d) @ drop (Suc ?n) ?f"
    using slot(1) len assms(2) by (simp add: files_def list_update_append names_def min_def drop_take)
  define d' where "d' = \<lparr>debugged_files = files, nb_debugged_files = ?n + 1\<rparr>"
  have add: "add_debug_to d name = Ret d'"
    using slot(1) len assms(2) by (simp add: add_debug_to_def Let_def shift_up_Ret d'_def files_def)
  have ln: "length (names d) = ?n" using assms(1) by (rule length_names)
  have names': "names d' = take ?i (names d) @ name # drop ?i (names d)"
  proof -
    have "names d' = take (?n + 1) files" by (simp add: names_def d'_def)
    then show ?thesis using slot(1) ln by (simp add: files Suc_diff_le)
  qed
  have before: "x < name" if x: "x \<in> set (take ?i (names d))" for x
  proof -
    from x obtain k where "k < ?i" "x = names d ! k"
      using ln slot(1) by (auto simp: in_set_conv_nth)
    with slot(1,2) show ?thesis by (simp add: names_def)
  qed
  have after: "name \<le> x" if x: "x \<in> set (drop ?i (names d))" for x
  proof -
    from x obtain k where k: "k < ?n - ?i" "x = names d ! (?i + k)"
      using ln slot(1) by (auto simp: in_set_conv_nth)
    then have "name \<le> names d ! ?i" using slot(3) by (simp add: names_def)
    also have "names d ! ?i \<le> names d ! (?i + k)"
      using k ln by (intro sorted_nth_mono [OF sorted]) auto
    finally show ?thesis using k by simp
  qed
  have "sorted (names d')"
    unfolding names' using sorted before after
    by (auto simp: sorted_append sorted_wrt_take sorted_wrt_drop intro: less_imp_le order_trans
        dest!: before after)
  moreover have "length files = MAX_FILES_NUMBER"
    unfolding files using slot(1) ln len assms(2) by simp
  ultimately have "debug_wf d'" using assms(2) by (simp add: debug_wf_def d'_def)
  moreover have "mset (names d') = add_mset name (mset (names d))"
  proof -
    have "mset (names d) = mset (take ?i (names d)) + mset (drop ?i (names d))"
      by (metis append_take_drop_id mset_append)
    then show ?thesis by (simp add: names')
  qed
  ultimately show ?thesis using add by blast
qed

section \<open>The search is membership\<close>

lemma sorted_above:
  "sorted xs \<Longrightarrow> i \<le> j \<Longrightarrow> j < length xs \<Longrightarrow> xs ! j < (x :: string) \<Longrightarrow> xs ! i < x"
  by (meson le_less_trans sorted_nth_mono)

lemma sorted_below:
  "sorted xs \<Longrightarrow> i \<le> j \<Longrightarrow> j < length xs \<Longrightarrow> (x :: string) < xs ! i \<Longrightarrow> x < xs ! j"
  by (meson less_le_trans sorted_nth_mono)

lemma search_range:
  assumes "sorted xs" and "0 \<le> from" and "to < int (length xs)"
    and "\<forall>k < length xs. xs ! k = name \<longrightarrow> from \<le> int k \<and> int k \<le> to"
  shows "case search xs name from to of
      None \<Rightarrow> name \<in> set xs
    | Some (a, b) \<Rightarrow> b \<le> a \<and> 0 \<le> a \<and> b < int (length xs) \<and> (\<forall>k < length xs. xs ! k = name \<longrightarrow> a \<le> int k \<and> int k \<le> b)"
  using assms
proof (induction xs name "from" to rule: search.induct)
  case (1 xs name "from" to)
  let ?m = "(from + to) div 2"
  show ?case
  proof (cases "from < to")
    case True
    then have m: "from \<le> ?m" "?m < to" "nat ?m < length xs" using "1.prems" by auto
    consider "strcmp (xs ! nat ?m) name < 0" | "0 < strcmp (xs ! nat ?m) name"
      | "strcmp (xs ! nat ?m) name = 0" by linarith
    then show ?thesis
    proof cases
      case 1
      have "?m + 1 \<le> int k" if "k < length xs" "xs ! k = name" for k
        using sorted_above [OF "1.prems"(1), of k "nat ?m" name] 1 that m(3)
        by (force simp: strcmp_order)
      with "1.prems" m 1 "1.IH"(1) [OF True refl refl 1] True show ?thesis
        by (subst search.simps) (auto simp: Let_def)
    next
      case 2
      have "int k \<le> ?m - 1" if "k < length xs" "xs ! k = name" for k
        using sorted_below [OF "1.prems"(1), of "nat ?m" k name] 2 that m "1.prems"(2)
        by (force simp: strcmp_order)
      with "1.prems" m 2 "1.IH"(2) [OF True refl refl _ 2] True show ?thesis
        by (subst search.simps) (auto simp: Let_def)
    next
      case 3
      with m(3) True show ?thesis
        by (subst search.simps) (auto simp: Let_def strcmp_order)
    qed
  qed (use "1.prems" in \<open>subst search.simps, auto\<close>)
qed

lemma is_debugged_names:
  assumes "debug_wf d"
  shows "is_debugged d name = of_bool (name \<in> set (names d))"
proof -
  let ?n = "nb_debugged_files d"
  have len: "length (names d) = ?n" and sorted: "sorted (names d)"
    using assms by (simp_all add: length_names) (simp add: debug_wf_def)
  have same: "search (debugged_files d) name a b = search (names d) name a b"
    if "0 \<le> a" "b < int ?n" for a b
    using that
  proof (induction "nat (b - a)" arbitrary: a b rule: less_induct)
    case less
    let ?m = "(a + b) div 2"
    show ?case
    proof (cases "a < b")
      case True
      then have m: "0 \<le> ?m" "nat ?m < ?n" "?m < b" "a \<le> ?m" using less.prems by auto
      then have f: "debugged_files d ! nat ?m = names d ! nat ?m"
        using nth_names [OF assms] by simp
      show ?thesis
        using less.hyps [of b "?m + 1"] less.hyps [of "?m - 1" a] less.prems m f True
        by (subst (1 2) search.simps) (simp add: Let_def)
    qed (subst (1 2) search.simps, simp)
  qed
  have range: "\<forall>k < length (names d). names d ! k = name \<longrightarrow> 0 \<le> int k \<and> int k \<le> int ?n - 1"
    using len by auto
  note found = search_range [OF sorted _ _ range]
  show ?thesis
  proof (cases "search (names d) name 0 (int ?n - 1)")
    case None
    with found len show ?thesis by (simp add: is_debugged_def same)
  next
    case (Some ab)
    obtain a b where ab: "ab = (a, b)" by force
    have in_ab: "b \<le> a" "0 \<le> a" "b < int ?n"
        "\<forall>k < ?n. names d ! k = name \<longrightarrow> a \<le> int k \<and> int k \<le> b"
      using found Some len by (simp_all add: ab)
    have "name \<in> set (names d) \<longleftrightarrow> a = b \<and> names d ! nat a = name"
    proof
      assume "name \<in> set (names d)"
      then obtain k where k: "k < ?n" "names d ! k = name" using len by (auto simp: in_set_conv_nth)
      with in_ab(4) have "a \<le> int k" "int k \<le> b" by auto
      with in_ab(1) k show "a = b \<and> names d ! nat a = name" by (metis eq_iff nat_int order_trans)
    next
      assume "a = b \<and> names d ! nat a = name"
      with in_ab len show "name \<in> set (names d)" by (metis int_nat_eq nth_mem of_nat_less_iff)
    qed
    moreover have "a = b \<Longrightarrow> debugged_files d ! nat a = names d ! nat a"
      using in_ab nth_names [OF assms, of "nat a"] by simp
    ultimately show ?thesis
      by (auto simp: is_debugged_def same Some ab strcmp_order)
  qed
qed

section \<open>Properties\<close>

text \<open>
  Property C31: adding a file to a list that is not full inserts its name and keeps the array
  sorted, and afterwards exactly the added name and the names before are debugged.
\<close>

theorem add_then_search:
  assumes "debug_wf d" and "nb_debugged_files d < MAX_FILES_NUMBER"
  shows "\<exists>d'. add_debug_to d name = Ret d' \<and> debug_wf d' \<and>
    nb_debugged_files d' = nb_debugged_files d + 1 \<and>
    (\<forall>f. is_debugged d' f = 1 \<longleftrightarrow> f = name \<or> is_debugged d f = 1)"
proof -
  from add_debug_to_names [OF assms] obtain d' where d': "add_debug_to d name = Ret d'"
    "debug_wf d'" "mset (names d') = add_mset name (mset (names d))" by blast
  have "set (names d') = insert name (set (names d))"
    using arg_cong [OF d'(3), of set_mset] by simp
  moreover have "nb_debugged_files d' = nb_debugged_files d + 1"
    using arg_cong [OF d'(3), of size] length_names [OF d'(2)] length_names [OF assms(1)] by simp
  ultimately show ?thesis
    using d'(1,2) by (auto simp: is_debugged_names assms(1))
qed

theorem add_then_search_witness:
  "\<exists>d'. add_debug_to debug_initial ''trace.c'' = Ret d' \<and> is_debugged d' ''trace.c'' = 1"
  using add_then_search [OF debug_initial_wf, of "''trace.c''"]
  by (auto simp: debug_initial_def MAX_FILES_NUMBER_def)

text \<open>
  Fact: adding to a full list writes past the end of the array, unless the new name is larger than all
  64 names of the list, when nothing happens.
\<close>

theorem full_list_overflows:
  assumes "debug_wf d" and "nb_debugged_files d = MAX_FILES_NUMBER"
  shows "add_debug_to d name = (if \<forall>f \<in> set (names d). f < name then Ret d else Undef)"
proof -
  let ?i = "find_slot d name 0" and ?n = "nb_debugged_files d"
  have slot: "?i \<le> ?n" "\<forall>k < ?i. debugged_files d ! k < name" "?i < ?n \<longrightarrow> name \<le> debugged_files d ! ?i"
    using find_slot_bounds [OF assms(1), of 0 name] by auto
  have len: "length (names d) = ?n" "length (debugged_files d) = ?n"
    using assms by (auto simp: length_names debug_wf_def)
  have "(\<forall>f \<in> set (names d). f < name) \<longleftrightarrow> ?i = ?n"
  proof
    assume "\<forall>f \<in> set (names d). f < name"
    then have "?i < ?n \<Longrightarrow> debugged_files d ! ?i < name" using nth_names [OF assms(1)] len by simp
    then have "\<not> ?i < ?n" using slot(3) by (auto dest: leD)
    with slot(1) show "?i = ?n" by simp
  next
    assume "?i = ?n"
    with slot(2) len show "\<forall>f \<in> set (names d). f < name"
      using nth_names [OF assms(1)] by (auto simp: in_set_conv_nth)
  qed
  moreover have "shift_up (debugged_files d) i ?n = Undef" if "i < ?n" for i
    using that len(2) by (cases ?n) auto
  ultimately show ?thesis
    using slot(1) assms(2) by (auto simp: add_debug_to_def Let_def)
qed

theorem full_list_overflows_witness:
  "add_debug_to \<lparr>debugged_files = replicate 64 ''b'', nb_debugged_files = 64\<rparr> ''a'' = Undef"
proof -
  let ?d = "\<lparr>debugged_files = replicate 64 ''b'', nb_debugged_files = 64\<rparr>"
  have wf: "debug_wf ?d" by (simp add: debug_wf_def names_def MAX_FILES_NUMBER_def)
  have "\<not> (\<forall>f \<in> set (names ?d). f < ''a'')"
    by (simp add: less_char_def names_def)
  then show ?thesis
    using full_list_overflows [OF wf, of "''a''"] by (simp add: MAX_FILES_NUMBER_def)
qed

end
