(* ===== verification/C_Format.thy ===== *)
theory C_Format
  imports Util "HOL-Library.Char_ord"
begin

text \<open>
  What the code uses of the C library on text: the conversions \<^verbatim>\<open>%x\<close>, \<^verbatim>\<open>%X\<close> and \<^verbatim>\<open>%d\<close> of \<^verbatim>\<open>printf\<close>, with and
  without a field width, the conversion \<^verbatim>\<open>%x\<close> of \<^verbatim>\<open>sscanf\<close> and \<^verbatim>\<open>atoi\<close>, on a machine whose \<^verbatim>\<open>long\<close>
  has 64 bits. Text in the code's memory is a list of bytes; a C string
  is what precedes its first NUL. The lemmas show that reading back what was printed in hexadecimal gives the
  number printed.
\<close>

section \<open>Strings\<close>

definition NUL :: char where
  "NUL = CHR 0x00"

text \<open>The C string that starts a block of bytes; a block without a NUL has none.\<close>

definition cstr :: "string \<Rightarrow> string cres" where
  "cstr bs = (if NUL \<in> set bs then Ret (takeWhile (\<lambda>c. c \<noteq> NUL) bs) else Undef)"

definition is_space :: "char \<Rightarrow> bool" where
  "is_space c \<longleftrightarrow> c \<in> set [CHR '' '', CHR 0x09, CHR 0x0A, CHR 0x0B, CHR 0x0C, CHR 0x0D]"

definition byte_of :: "char \<Rightarrow> u8" where
  "byte_of c = of_char c"

section \<open>Printing\<close>

definition digit_chars :: "bool \<Rightarrow> string" where
  "digit_chars upper = (if upper then ''0123456789ABCDEF'' else ''0123456789abcdef'')"

fun digits :: "bool \<Rightarrow> nat \<Rightarrow> nat \<Rightarrow> string" where
  "digits upper b n =
     (if b < 2 \<or> n < b then [digit_chars upper ! n]
      else digits upper b (n div b) @ [digit_chars upper ! (n mod b)])"

declare digits.simps [simp del]

definition pad_left :: "char \<Rightarrow> nat \<Rightarrow> string \<Rightarrow> string" where
  "pad_left c w s = replicate (w - length s) c @ s"

definition fmt_hex :: "bool \<Rightarrow> nat \<Rightarrow> nat \<Rightarrow> string" where
  "fmt_hex upper w n = pad_left CHR ''0'' w (digits upper 16 n)"

definition fmt_int :: "int \<Rightarrow> string" where
  "fmt_int i = (if i < 0 then CHR ''-'' # digits False 10 (nat (- i)) else digits False 10 (nat i))"

text \<open>A \<^verbatim>\<open>uint32_t\<close> printed with \<^verbatim>\<open>%d\<close>.\<close>

definition fmt_d :: "u32 \<Rightarrow> string" where
  "fmt_d v = fmt_int (sint v)"

section \<open>Scanning\<close>

definition hex_value :: "char \<Rightarrow> nat option" where
  "hex_value c =
     (let n = of_char c :: nat
      in if 48 \<le> n \<and> n \<le> 57 then Some (n - 48)
         else if 97 \<le> n \<and> n \<le> 102 then Some (n - 87)
         else if 65 \<le> n \<and> n \<le> 70 then Some (n - 55) else None)"

definition is_hex :: "char \<Rightarrow> bool" where
  "is_hex c \<longleftrightarrow> hex_value c \<noteq> None"

definition number_in :: "nat \<Rightarrow> string \<Rightarrow> nat" where
  "number_in b s = foldl (\<lambda>n c. n * b + the (hex_value c)) 0 s"

text \<open>The sign and the digits a number starts with, and what follows.\<close>

definition scan_sign :: "string \<Rightarrow> bool \<times> string" where
  "scan_sign s =
     (case s of [] \<Rightarrow> (False, s)
      | c # cs \<Rightarrow> if c = CHR ''-'' then (True, cs) else if c = CHR ''+'' then (False, cs) else (False, s))"

definition scan_prefix :: "string \<Rightarrow> bool \<times> string" where
  "scan_prefix s =
     (case s of a # b # cs \<Rightarrow>
        if a = CHR ''0'' \<and> (b = CHR ''x'' \<or> b = CHR ''X'') then (True, cs) else (False, s)
      | _ \<Rightarrow> (False, s))"

text \<open>
  \<^verbatim>\<open>%x\<close> with an optional width: the value stored in an \<^verbatim>\<open>unsigned int\<close> and the rest of the input, or no
  conversion, which stores nothing. A number that does not fit an \<^verbatim>\<open>unsigned long\<close> saturates.
\<close>

definition scan_hex :: "nat option \<Rightarrow> string \<Rightarrow> (u32 \<times> string) option" where
  "scan_hex width s =
     (let s = dropWhile is_space s;
          s1 = (case width of None \<Rightarrow> s | Some w \<Rightarrow> take w s);
          s2 = (case width of None \<Rightarrow> [] | Some w \<Rightarrow> drop w s);
          (negative, s1) = scan_sign s1;
          (prefixed, s1) = scan_prefix s1;
          ds = takeWhile is_hex s1;
          n = min (number_in 16 ds) (2 ^ 64 - 1)
      in if ds = [] \<and> \<not> prefixed then None
         else Some (if negative then - of_nat n else of_nat n, dropWhile is_hex s1 @ s2))"

text \<open>\<^verbatim>\<open>"%x,%x"\<close>: the second number is read only when a comma follows the first.\<close>

definition scan_hex_pair :: "string \<Rightarrow> u32 option \<times> u32 option" where
  "scan_hex_pair s =
     (case scan_hex None s of None \<Rightarrow> (None, None)
      | Some (a, rest) \<Rightarrow>
          (Some a, case rest of [] \<Rightarrow> None
             | c # cs \<Rightarrow> if c = CHR '','' then map_option fst (scan_hex None cs) else None))"

definition is_digit :: "char \<Rightarrow> bool" where
  "is_digit c \<longleftrightarrow> 48 \<le> (of_char c :: nat) \<and> (of_char c :: nat) \<le> 57"

definition atoi :: "string \<Rightarrow> int" where
  "atoi s =
     (let (negative, ds) = scan_sign (dropWhile is_space s);
          n = int (number_in 10 (takeWhile is_digit ds));
          l = (if negative then max (- n) (- (2 ^ 63)) else min n (2 ^ 63 - 1))
      in sint (word_of_int l :: u32))"

section \<open>Two-digit bytes\<close>

definition hex_byte :: "u8 \<Rightarrow> string" where
  "hex_byte b = fmt_hex False 2 (unat b)"

lemma digit_chars_hex:
  assumes "n < 16"
  shows "hex_value (digit_chars upper ! n) = Some n" and "is_hex (digit_chars upper ! n)"
    and "\<not> is_space (digit_chars upper ! n)" and "digit_chars upper ! n \<noteq> CHR ''-''"
    and "digit_chars upper ! n \<noteq> CHR ''+''" and "digit_chars upper ! n \<noteq> CHR ''x''"
    and "digit_chars upper ! n \<noteq> CHR ''X''" and "digit_chars upper ! n \<noteq> NUL"
    and "digit_chars upper ! n \<noteq> CHR ''$''" and "digit_chars upper ! n \<noteq> CHR ''#''"
  using less_16_cases [OF assms]
  by (cases upper; auto simp: digit_chars_def hex_value_def is_hex_def is_space_def NUL_def)+

lemma hex_byte_eq:
  "hex_byte b = [digit_chars False ! (unat b div 16), digit_chars False ! (unat b mod 16)]"
proof -
  have b: "unat b < 256" using unsigned_less [of b, where 'a = nat] by simp
  show ?thesis
  proof (cases "unat b < 16")
    case True
    then show ?thesis
      by (simp add: hex_byte_def fmt_hex_def pad_left_def digits.simps digit_chars_def)
  next
    case False
    with b have "unat b div 16 < 16" by (simp add: less_mult_imp_div_less)
    then have "digits False 16 (unat b div 16) = [digit_chars False ! (unat b div 16)]"
      by (subst digits.simps) simp
    with False show ?thesis
      unfolding hex_byte_def fmt_hex_def pad_left_def by (subst (1 2) digits.simps) simp
  qed
qed

lemma length_hex_byte [simp]: "length (hex_byte b) = 2"
  by (simp add: hex_byte_eq)

lemma hex_byte_chars: "c \<in> set (hex_byte b) \<Longrightarrow> c \<noteq> NUL \<and> c \<noteq> CHR ''$'' \<and> c \<noteq> CHR ''#''"
proof -
  have "unat b div 16 < 16" "unat b mod 16 < 16"
    using unsigned_less [of b, where 'a = nat] by (simp_all add: less_mult_imp_div_less)
  then show "c \<in> set (hex_byte b) \<Longrightarrow> c \<noteq> NUL \<and> c \<noteq> CHR ''$'' \<and> c \<noteq> CHR ''#''"
    by (auto simp: hex_byte_eq digit_chars_hex)
qed

text \<open>Reading back a printed byte with \<^verbatim>\<open>%02x\<close>, whatever follows it.\<close>

lemma scan_hex_byte: "scan_hex (Some 2) (hex_byte b @ rest) = Some (ucast b, rest)"
proof -
  have d: "unat b div 16 < 16" "unat b mod 16 < 16"
    using unsigned_less [of b, where 'a = nat] by (simp_all add: less_mult_imp_div_less)
  note hi = digit_chars_hex [OF d(1), of False] and lo = digit_chars_hex [OF d(2), of False]
  have "number_in 16 (hex_byte b) = unat b"
    using hi(1) lo(1) by (simp add: hex_byte_eq number_in_def)
  moreover have "unat b < 2 ^ 64" using unsigned_less [of b, where 'a = nat] by simp
  moreover have "(of_nat (unat b) :: u32) = ucast b" by (simp only: of_nat_unat)
  ultimately show ?thesis
    using hi lo by (simp add: scan_hex_def hex_byte_eq scan_sign_def scan_prefix_def Let_def)
qed

lemma scan_checksum:
  "\<not> (\<exists>c cs. rest = c # cs \<and> is_hex c) \<Longrightarrow> scan_hex None (hex_byte b @ rest) = Some (ucast b, rest)"
proof -
  assume rest: "\<not> (\<exists>c cs. rest = c # cs \<and> is_hex c)"
  then have r: "takeWhile is_hex rest = []" "dropWhile is_hex rest = rest" by (cases rest; simp)+
  have d: "unat b div 16 < 16" "unat b mod 16 < 16"
    using unsigned_less [of b, where 'a = nat] by (simp_all add: less_mult_imp_div_less)
  note hi = digit_chars_hex [OF d(1), of False] and lo = digit_chars_hex [OF d(2), of False]
  have "number_in 16 (hex_byte b) = unat b"
    using hi(1) lo(1) by (simp add: hex_byte_eq number_in_def)
  moreover have "unat b < 2 ^ 64" using unsigned_less [of b, where 'a = nat] by simp
  moreover have "(of_nat (unat b) :: u32) = ucast b" by (simp only: of_nat_unat)
  ultimately show ?thesis
    using hi lo r by (simp add: scan_hex_def hex_byte_eq scan_sign_def scan_prefix_def Let_def)
qed


section \<open>Hexadecimal numbers\<close>

text \<open>A number without leading zeros, as a client of the server prints it.\<close>

definition hex_number :: "nat \<Rightarrow> string" where
  "hex_number n = digits False 16 n"

lemma digits_step:
  "\<not> n < 16 \<Longrightarrow> digits u 16 n = digits u 16 (n div 16) @ [digit_chars u ! (n mod 16)]"
  by (subst digits.simps) simp

lemma digits_small: "n < 16 \<Longrightarrow> digits u 16 n = [digit_chars u ! n]"
  by (subst digits.simps) simp

lemma digits_induct [case_names small large]:
  assumes "\<And>n. n < 16 \<Longrightarrow> P n" and "\<And>n. \<not> n < 16 \<Longrightarrow> P (n div 16) \<Longrightarrow> P n"
  shows "P (n :: nat)"
proof (induction n rule: less_induct)
  case (less n)
  then show ?case by (cases "n < 16") (auto intro: assms)
qed

lemma digits_chars: "c \<in> set (digits u 16 n) \<Longrightarrow> \<exists>k < 16. c = digit_chars u ! k"
proof (induction n rule: digits_induct)
  case (small n)
  then show ?case by (auto simp: digits_small)
next
  case (large n)
  have "n mod 16 < 16" by simp
  then have "\<exists>k < 16. digit_chars u ! (n mod 16) = digit_chars u ! k" by blast
  with large show ?case by (auto simp: digits_step)
qed

lemma number_in_append: "number_in b (s @ [c]) = number_in b s * b + the (hex_value c)"
  by (simp add: number_in_def)

lemma number_in_digits: "number_in 16 (digits u 16 n) = n"
proof (induction n rule: digits_induct)
  case (small n)
  then show ?case by (simp add: digits_small number_in_def digit_chars_hex)
next
  case (large n)
  then show ?case by (simp add: digits_step number_in_append digit_chars_hex)
qed

lemma number_in_zeros: "number_in b (replicate k CHR ''0'' @ s) = number_in b s"
  by (induction k) (simp_all add: number_in_def hex_value_def)

lemma number_in_fmt_hex: "number_in 16 (fmt_hex u w n) = n"
  by (simp add: fmt_hex_def pad_left_def number_in_zeros number_in_digits)

lemma fmt_hex_not_Nil: "fmt_hex u w n \<noteq> []"
  unfolding fmt_hex_def pad_left_def by (subst digits.simps) simp

lemma fmt_hex_chars:
  "c \<in> set (fmt_hex u w n) \<Longrightarrow> \<not> is_space c \<and> c \<noteq> CHR ''-'' \<and> c \<noteq> CHR ''+'' \<and> c \<noteq> CHR ''x'' \<and>
     c \<noteq> CHR ''X'' \<and> c \<noteq> NUL \<and> is_hex c"
proof -
  assume "c \<in> set (fmt_hex u w n)"
  then have "c = CHR ''0'' \<or> c \<in> set (digits u 16 n)" by (auto simp: fmt_hex_def pad_left_def)
  moreover have "CHR ''0'' = digit_chars u ! 0" by (simp add: digit_chars_def)
  ultimately obtain k where "k < 16" "c = digit_chars u ! k"
    using digits_chars [of c u n] by (metis zero_less_numeral)
  then show ?thesis using digit_chars_hex [of k u] by simp
qed

lemma hex_number_fmt: "hex_number n = fmt_hex False 0 n"
  by (simp add: hex_number_def fmt_hex_def pad_left_def)

lemma hex_number_chars: "c \<in> set (hex_number n) \<Longrightarrow> \<exists>k < 16. c = digit_chars False ! k"
  by (simp add: hex_number_def digits_chars)

lemma hex_number_shape:
  "hex_number n \<noteq> []" "list_all is_hex (hex_number n)"
  "c \<in> set (hex_number n) \<Longrightarrow> \<not> is_space c \<and> c \<noteq> CHR ''-'' \<and> c \<noteq> CHR ''+'' \<and> c \<noteq> CHR ''x'' \<and>
     c \<noteq> CHR ''X'' \<and> c \<noteq> NUL \<and> is_hex c"
  using fmt_hex_chars [of _ False 0 n] fmt_hex_not_Nil [of False 0 n]
  by (auto simp: hex_number_fmt list_all_iff)

definition ends_number :: "string \<Rightarrow> bool" where
  "ends_number t \<longleftrightarrow> (case t of [] \<Rightarrow> True | c # _ \<Rightarrow> \<not> is_hex c \<and> c \<noteq> CHR ''x'' \<and> c \<noteq> CHR ''X'')"

lemma ends_number_simps [simp]:
  "ends_number []" "ends_number (CHR '','' # t)" "ends_number (CHR '':'' # t)"
  "ends_number (CHR '' '' # t)" "ends_number (CHR 0x0A # t)"
  by (simp_all add: ends_number_def is_hex_def hex_value_def)

text \<open>Reading back what \<^verbatim>\<open>%x\<close> or \<^verbatim>\<open>%X\<close> printed, with any padding, whatever number-ending text follows.\<close>

lemma scan_fmt_hex:
  assumes "n < 2 ^ 64" and "ends_number t"
  shows "scan_hex None (fmt_hex u w n @ t) = Some (of_nat n, t)"
proof -
  obtain d ds where h: "fmt_hex u w n = d # ds" using fmt_hex_not_Nil by (cases "fmt_hex u w n") auto
  have d: "\<not> is_space d" "d \<noteq> CHR ''-''" "d \<noteq> CHR ''+''" "is_hex d"
    using fmt_hex_chars [of d u w n] h by auto
  have ds: "\<forall>e \<in> set ds. is_hex e \<and> e \<noteq> CHR ''x'' \<and> e \<noteq> CHR ''X''"
    using fmt_hex_chars [of _ u w n] h by auto
  have t: "takeWhile is_hex t = []" "dropWhile is_hex t = t"
    using assms(2) by (auto simp: ends_number_def split: list.splits)
  have "takeWhile is_hex (ds @ t) = ds" "dropWhile is_hex (ds @ t) = t"
    using ds by (induction ds) (auto simp: t)
  moreover have "scan_prefix (d # ds @ t) = (False, d # ds @ t)"
    using ds assms(2) by (cases ds; cases t) (auto simp: scan_prefix_def ends_number_def)
  moreover have "number_in 16 (d # ds) = n" using number_in_fmt_hex [of u w n] h by simp
  ultimately show ?thesis
    using d assms(1) unfolding h by (simp add: scan_hex_def Let_def scan_sign_def)
qed

lemma scan_hex_number:
  "n < 2 ^ 64 \<Longrightarrow> ends_number t \<Longrightarrow> scan_hex None (hex_number n @ t) = Some (of_nat n, t)"
  unfolding hex_number_fmt by (rule scan_fmt_hex)

end
