(* ===== verification/Gdb_Protocol.thy ===== *)
theory Gdb_Protocol
  imports Instruction C_Format
begin

text \<open>
  The gdb server of \<^verbatim>\<open>gdb_protocol.c\<close>: packets with their checksum, the commands and the table that
  dispatches them. The state holds the processor (the server's memory pointer is the processor's memory),
  the last status of a step, the last packet sent, the bytes written to the connection and whether
  its write side is shut down.

  A command's text is the block of bytes that starts after the command letter in the scanner's buffer: the code replaces
  the \<^verbatim>\<open>#\<close> by a NUL and may read past it, within the block. The array \<^verbatim>\<open>packet\<close> of 1024 bytes is
  filled from its start by every command before it is sent, so a command builds the text as a
  string and the room is checked when the packet is closed. A command that continues forever has no
  result: \<open>None\<close>. The build flag \<^verbatim>\<open>BIG_ENDIAN_SIMULATOR\<close> is the parameter \<open>be\<close>. What \<^verbatim>\<open>sscanf\<close> leaves in
  an uninitialised variable is the parameter \<open>junk\<close>.
\<close>

section \<open>State\<close>

record gdb_protocol_data =
  gdb_arm :: arm_core
  target_exception :: int
  gdb_packet :: string
  gdb_out :: string
  gdb_shut :: bool

definition MAX_PACKET_SIZE :: nat where
  "MAX_PACKET_SIZE = 1024"

definition gdb_init_data :: "arm_core \<Rightarrow> gdb_protocol_data" where
  "gdb_init_data arm = \<lparr>gdb_arm = arm, target_exception = 0, gdb_packet = [], gdb_out = [], gdb_shut = False\<rparr>"

section \<open>Sending\<close>

text \<open>
  \<^verbatim>\<open>Rio_writen\<close> writes all its bytes or ends the process. A write to a connection that is shut down fails; for no
  byte there is no write. A connection that the client breaks off while the server writes is not in the model.
\<close>

definition gdb_write :: "gdb_protocol_data \<Rightarrow> string \<Rightarrow> gdb_protocol_data cres" where
  "gdb_write g s = (if gdb_shut g \<and> s \<noteq> [] then Exit else Ret (g\<lparr>gdb_out := gdb_out g @ s\<rparr>))"

definition gdb_send_ack :: "gdb_protocol_data \<Rightarrow> gdb_protocol_data cres" where
  "gdb_send_ack g = gdb_write g ''+''"

definition gdb_require_retransmission :: "gdb_protocol_data \<Rightarrow> gdb_protocol_data cres" where
  "gdb_require_retransmission g = gdb_write g ''-''"

definition gdb_transmit_packet :: "gdb_protocol_data \<Rightarrow> gdb_protocol_data cres" where
  "gdb_transmit_packet g = gdb_write g (gdb_packet g)"

definition checksum :: "string \<Rightarrow> u8" where
  "checksum s = foldl (\<lambda>check c. check + byte_of c) 0 s"

definition gdb_send_buffer :: "gdb_protocol_data \<Rightarrow> string \<Rightarrow> gdb_protocol_data cres" where
  "gdb_send_buffer g text =
     (let packet = CHR ''$'' # text @ CHR ''#'' # hex_byte (checksum text)
      in if length packet < MAX_PACKET_SIZE
         then gdb_transmit_packet (g\<lparr>gdb_packet := packet\<rparr>) else Undef)"

definition gdb_send_data :: "gdb_protocol_data \<Rightarrow> string \<Rightarrow> gdb_protocol_data cres" where
  "gdb_send_data g data = gdb_send_buffer g data"

section \<open>Words in hexadecimal\<close>

definition byte_indices :: "bool \<Rightarrow> nat list" where
  "byte_indices be = (if is_big_endian build_host = of_bool be then [0, 1, 2, 3] else [3, 2, 1, 0])"

fun read_bytes :: "nat list \<Rightarrow> string \<Rightarrow> u32 \<Rightarrow> u8 list \<Rightarrow> u8 list cres" where
  "read_bytes [] data value bytes = Ret bytes"
| "read_bytes (i # is) data value bytes =
     cbind (cstr data) (\<lambda>s.
       let value = (case scan_hex (Some 2) s of None \<Rightarrow> value | Some (v, _) \<Rightarrow> v)
       in read_bytes is (drop 2 data) value (bytes[i := ucast value]))"

definition read_uint32 :: "bool \<Rightarrow> u32 \<Rightarrow> string \<Rightarrow> u32 cres" where
  "read_uint32 be junk data =
     cbind (read_bytes (byte_indices be) data junk [0, 0, 0, 0])
       (\<lambda>bytes. Ret (u32_of_bytes build_host bytes))"

definition write_uint32 :: "bool \<Rightarrow> u32 \<Rightarrow> string" where
  "write_uint32 be value =
     concat (map (\<lambda>i. hex_byte (bytes_of_u32 build_host value ! i)) (byte_indices be))"

section \<open>Commands\<close>

definition gdb_send_stop_reason :: "gdb_protocol_data \<Rightarrow> gdb_protocol_data cres" where
  "gdb_send_stop_reason g =
     (if target_exception g = UNDEFINED_INSTRUCTION then gdb_send_data g ''S04''
      else if target_exception g = PREFETCH_ABORT \<or> target_exception g = DATA_ABORT
      then gdb_send_data g ''S10''
      else gdb_send_data g ''S05'')"

text \<open>
  The loop of \<^verbatim>\<open>cont\<close>. \<^verbatim>\<open>instruction\<close> has no initial value (\<open>None\<close>); a refused read leaves it as it was,
  and testing it without a value has no meaning. The result is the processor and the last status.
\<close>

definition breakpoint :: "u32 \<Rightarrow> bool" where
  "breakpoint instruction \<longleftrightarrow> instruction AND 0xFFF000F0 = 0xE7F000F0"

definition peek_instruction :: "arm_core \<Rightarrow> u32 option \<Rightarrow> u32 option cres" where
  "peek_instruction p instruction =
     (let r15 = arm_read_register p 15 - 4
      in cbind (arm_read_word p r15) (\<lambda>r. Ret (if r = None then instruction else r)))"

partial_function (option) cont_loop ::
    "arm_core \<Rightarrow> int \<Rightarrow> u32 option \<Rightarrow> (arm_core \<times> int) cres option" where
  "cont_loop p e instruction =
     (case peek_instruction p instruction of
        Exit \<Rightarrow> Some Exit
      | Undef \<Rightarrow> Some Undef
      | Ret None \<Rightarrow> Some Undef
      | Ret (Some i) \<Rightarrow>
          if breakpoint i then Some (Ret (p, e))
          else (case arm_step p of
                  Exit \<Rightarrow> Some Exit
                | Undef \<Rightarrow> Some Undef
                | Ret r \<Rightarrow> cont_loop (snd r) (fst r) (Some i)))"

definition cont :: "gdb_protocol_data \<Rightarrow> gdb_protocol_data cres option" where
  "cont g = map_option (\<lambda>r. cbind r (\<lambda>(p, e).
     gdb_send_stop_reason (g\<lparr>gdb_arm := p, target_exception := e\<rparr>)))
     (cont_loop (gdb_arm g) (target_exception g) None)"

definition kill_request :: "gdb_protocol_data \<Rightarrow> gdb_protocol_data cres" where
  "kill_request g = Ret (g\<lparr>gdb_shut := True\<rparr>)"

definition query :: "gdb_protocol_data \<Rightarrow> string \<Rightarrow> gdb_protocol_data cres" where
  "query g data = cbind (cstr data) (\<lambda>s.
     if s = ''Offsets'' then gdb_send_data g ''Text=0;Data=0;Bss=0''
     else if take 9 s = ''Supported'' then gdb_send_data g ''PacketSize=400''
     else if s = ''TStatus'' then gdb_send_data g ''T0;tnotrun:0''
     else if s = ''Symbol::'' then gdb_send_data g ''''
     else gdb_send_data g '''')"

definition read_general_registers :: "bool \<Rightarrow> gdb_protocol_data \<Rightarrow> gdb_protocol_data cres" where
  "read_general_registers be g =
     (let p = gdb_arm g;
          general = concat (map (\<lambda>i. write_uint32 be (arm_read_register p (of_nat i))) [0..<15]);
          pc = write_uint32 be (arm_read_register p 15 - 4);
          floats = concat (replicate (8 * 3) ''xxxxxxxx'');
          fps = ''xxxxxxxx'';
          cpsr = write_uint32 be (arm_read_cpsr p)
      in gdb_send_buffer g (general @ pc @ floats @ fps @ cpsr))"

fun dump_memory :: "memory_data \<Rightarrow> u32 \<Rightarrow> nat \<Rightarrow> string cres" where
  "dump_memory m address 0 = Ret []"
| "dump_memory m address (Suc n) =
     cbind (memory_read_byte m address) (\<lambda>r. case r of
       None \<Rightarrow> Ret []
     | Some value \<Rightarrow> cbind (dump_memory m (address + 1) n) (\<lambda>s. Ret (hex_byte value @ s)))"

definition read_memory :: "gdb_protocol_data \<Rightarrow> string \<Rightarrow> gdb_protocol_data cres" where
  "read_memory g data = cbind (cstr data) (\<lambda>s.
     case scan_hex_pair s of
       (Some address, Some sz) \<Rightarrow>
         cbind (dump_memory (core_mem (gdb_arm g)) address (unat sz)) (\<lambda>text. gdb_send_buffer g text)
     | _ \<Rightarrow> Undef)"

definition read_register_cmd :: "bool \<Rightarrow> gdb_protocol_data \<Rightarrow> string \<Rightarrow> gdb_protocol_data cres" where
  "read_register_cmd be g data = cbind (cstr data) (\<lambda>s.
     let reg = word_of_int (atoi s) :: u32
     in if \<not> reg < 16 then Exit
        else gdb_send_buffer g (write_uint32 be
          (arm_read_register (gdb_arm g) (ucast reg) - (if reg = 15 then 4 else 0))))"

definition reason :: "gdb_protocol_data \<Rightarrow> gdb_protocol_data cres" where
  "reason g = gdb_send_stop_reason g"

definition set_thread :: "gdb_protocol_data \<Rightarrow> string \<Rightarrow> gdb_protocol_data cres" where
  "set_thread g data = (case data of [] \<Rightarrow> Undef | t # rest \<Rightarrow>
     cbind (cstr rest) (\<lambda>s.
       let v = atoi s
       in if (t = CHR ''c'' \<or> t = CHR ''g'') \<and> v < 1 \<and> - 2 < v
          then gdb_send_data g ''OK'' else gdb_send_data g ''E01''))"

definition step_cmd :: "gdb_protocol_data \<Rightarrow> gdb_protocol_data cres" where
  "step_cmd g = cbind (arm_step (gdb_arm g)) (\<lambda>(result, p).
     gdb_send_stop_reason (g\<lparr>gdb_arm := p, target_exception := result\<rparr>))"

text \<open>The words of the packet in order: sixteen registers, the floats, the float status and CPSR.\<close>

fun write_registers :: "bool \<Rightarrow> u32 \<Rightarrow> nat list \<Rightarrow> arm_core \<Rightarrow> string \<Rightarrow> arm_core cres" where
  "write_registers be junk [] p position = Ret p"
| "write_registers be junk (i # is) p position =
     cbind (read_uint32 be junk position) (\<lambda>value.
       write_registers be junk is (arm_write_register p (of_nat i) value) (drop 8 position))"

fun skip_words :: "bool \<Rightarrow> u32 \<Rightarrow> nat \<Rightarrow> string \<Rightarrow> string cres" where
  "skip_words be junk 0 position = Ret position"
| "skip_words be junk (Suc n) position =
     cbind (read_uint32 be junk position) (\<lambda>value. skip_words be junk n (drop 8 position))"

definition write_general_registers ::
    "bool \<Rightarrow> u32 \<Rightarrow> gdb_protocol_data \<Rightarrow> string \<Rightarrow> gdb_protocol_data cres" where
  "write_general_registers be junk g data =
     cbind (write_registers be junk [0..<16] (gdb_arm g) data) (\<lambda>p.
     cbind (skip_words be junk (8 * 3) (drop (16 * 8) data)) (\<lambda>position.
     cbind (read_uint32 be junk position) (\<lambda>fps.
     cbind (read_uint32 be junk (drop 8 position)) (\<lambda>value.
     gdb_send_data (g\<lparr>gdb_arm := arm_write_cpsr p value\<rparr>) ''OK''))))"

fun fill_memory :: "memory_data \<Rightarrow> u32 \<Rightarrow> nat \<Rightarrow> string \<Rightarrow> (bool \<times> memory_data) cres" where
  "fill_memory m address 0 content = Ret (True, m)"
| "fill_memory m address (Suc n) content =
     (case content of [] \<Rightarrow> Undef
      | c # cs \<Rightarrow>
          cbind (if byte_of c = 0x7d
                 then (case cs of [] \<Rightarrow> Undef | d # ds \<Rightarrow> Ret (byte_of d XOR 0x20, ds))
                 else Ret (byte_of c, cs)) (\<lambda>(value, rest).
          cbind (memory_write_byte m address value) (\<lambda>(status, m').
            if status = 0 then fill_memory m' (address + 1) n rest else Ret (False, m'))))"

definition after_char :: "char \<Rightarrow> string \<Rightarrow> string option" where
  "after_char c s = (case dropWhile (\<lambda>d. d \<noteq> c) s of [] \<Rightarrow> None | _ # rest \<Rightarrow> Some rest)"

text \<open>\<^verbatim>\<open>index\<close> looks in the C string, the content is read from the block; without a colon \<^verbatim>\<open>NULL + 1\<close> is read.\<close>

definition write_memory_binary :: "gdb_protocol_data \<Rightarrow> string \<Rightarrow> gdb_protocol_data cres" where
  "write_memory_binary g data = cbind (cstr data) (\<lambda>s.
     case scan_hex_pair s of
       (Some address, Some sz) \<Rightarrow>
         (case after_char CHR '':'' s of None \<Rightarrow> Undef
          | Some _ \<Rightarrow>
            let content = the (after_char CHR '':'' data);
                m = core_mem (gdb_arm g)
            in cbind (if unat address < memory_get_size m then fill_memory m address (unat sz) content
                      else Ret (False, m)) (\<lambda>(write_ok, m).
               gdb_send_data (g\<lparr>gdb_arm := (gdb_arm g)\<lparr>core_mem := m\<rparr>\<rparr>)
                 (if write_ok then ''OK'' else ''E02'')))
     | _ \<Rightarrow> Undef)"

definition write_register_cmd ::
    "bool \<Rightarrow> u32 \<Rightarrow> gdb_protocol_data \<Rightarrow> string \<Rightarrow> gdb_protocol_data cres" where
  "write_register_cmd be junk g data = cbind (cstr data) (\<lambda>s.
     case scan_hex None s of None \<Rightarrow> Undef
     | Some (reg, _) \<Rightarrow>
         (case after_char CHR ''='' s of None \<Rightarrow> Undef
          | Some _ \<Rightarrow>
            cbind (read_uint32 be junk (the (after_char CHR ''='' data))) (\<lambda>value.
              if \<not> reg < 16 then Exit
              else gdb_send_data (g\<lparr>gdb_arm := arm_write_register (gdb_arm g) (ucast reg) value\<rparr>) ''OK'')))"

section \<open>Dispatch\<close>

datatype gdb_handler = Cont | KillRequest | Query | ReadGeneralRegisters | ReadMemory | ReadRegister
  | Reason | SetThread | Step | WriteGeneralRegisters | WriteMemoryBinary | WriteRegister

definition gdb_init :: "char \<Rightarrow> gdb_handler option" where
  "gdb_init = map_of
     [(CHR ''c'', Cont), (CHR ''k'', KillRequest), (CHR ''q'', Query), (CHR ''g'', ReadGeneralRegisters),
      (CHR ''m'', ReadMemory), (CHR ''p'', ReadRegister), (CHR ''?'', Reason), (CHR ''H'', SetThread),
      (CHR ''s'', Step), (CHR ''G'', WriteGeneralRegisters), (CHR ''X'', WriteMemoryBinary),
      (CHR ''P'', WriteRegister)]"

fun run_handler :: "bool \<Rightarrow> u32 \<Rightarrow> gdb_handler \<Rightarrow> gdb_protocol_data \<Rightarrow> string \<Rightarrow>
    gdb_protocol_data cres option" where
  "run_handler be junk Cont g data = cont g"
| "run_handler be junk KillRequest g data = Some (kill_request g)"
| "run_handler be junk Query g data = Some (query g data)"
| "run_handler be junk ReadGeneralRegisters g data = Some (read_general_registers be g)"
| "run_handler be junk ReadMemory g data = Some (read_memory g data)"
| "run_handler be junk ReadRegister g data = Some (read_register_cmd be g data)"
| "run_handler be junk Reason g data = Some (reason g)"
| "run_handler be junk SetThread g data = Some (set_thread g data)"
| "run_handler be junk Step g data = Some (step_cmd g)"
| "run_handler be junk WriteGeneralRegisters g data = Some (write_general_registers be junk g data)"
| "run_handler be junk WriteMemoryBinary g data = Some (write_memory_binary g data)"
| "run_handler be junk WriteRegister g data = Some (write_register_cmd be junk g data)"

text \<open>
  \<open>packet\<close> is the block of bytes at \<^verbatim>\<open>yytext\<close>, \<open>len\<close> the length of the token. The loop sums the bytes
  1 to \<open>len - 4\<close> and leaves \<open>i\<close> at the \<^verbatim>\<open>#\<close>.
\<close>

definition gdb_packet_analysis :: "bool \<Rightarrow> u32 \<Rightarrow> gdb_protocol_data \<Rightarrow> string \<Rightarrow> nat \<Rightarrow>
    gdb_protocol_data cres option" where
  "gdb_packet_analysis be junk g packet len =
     (let i = max 1 (len - 3);
          check = checksum (take (i - 1) (drop 1 packet))
      in if length packet \<le> i + 1 then Some Undef
         else case cstr (drop (i + 1) packet) of
           Ret s \<Rightarrow>
             (case scan_hex None s of None \<Rightarrow> Some Undef
              | Some (given, _) \<Rightarrow>
                  if ucast check = given
                  then (case gdb_send_ack g of
                      Ret g \<Rightarrow>
                        let packet = packet[i := NUL]
                        in (case gdb_init (packet ! 1) of
                              Some h \<Rightarrow> run_handler be junk h g (drop 2 packet)
                            | None \<Rightarrow> Some (gdb_send_data g ''''))
                    | Exit \<Rightarrow> Some Exit | Undef \<Rightarrow> Some Undef)
                  else Some (gdb_require_retransmission g))
         | Exit \<Rightarrow> Some Exit | Undef \<Rightarrow> Some Undef)"

end
