(* ===== verification/Gdb_Props.thy ===== *)
theory Gdb_Props
  imports Gdb_Protocol
begin

text \<open>
  What the gdb server promises: its packets are accepted by its own analysis and a packet with
  another checksum changes nothing, every accepted packet is answered once, the registers and the memory
  written are the ones read, and when a continue returns.
\<close>

section \<open>Packets\<close>

definition frame :: "string \<Rightarrow> string" where
  "frame s = CHR ''$'' # s @ CHR ''#'' # hex_byte (checksum s)"

lemma length_frame [simp]: "length (frame s) = length s + 4"
  by (simp add: frame_def)

lemma gdb_send_buffer_eq:
  "gdb_send_buffer g s =
     (if length s + 4 < MAX_PACKET_SIZE
      then if gdb_shut g then Exit
           else Ret (g\<lparr>gdb_packet := frame s, gdb_out := gdb_out g @ frame s\<rparr>)
      else Undef)"
  by (simp add: gdb_send_buffer_def Let_def gdb_transmit_packet_def gdb_write_def flip: frame_def)
    (simp add: frame_def)

lemmas gdb_sends = gdb_send_data_def gdb_send_buffer_eq MAX_PACKET_SIZE_def

lemma takeWhile_text:
  "NUL \<notin> set s \<Longrightarrow> takeWhile (\<lambda>c. c \<noteq> NUL) (s @ t) = s @ takeWhile (\<lambda>c. c \<noteq> NUL) t"
  by (induction s) auto

lemma cstr_append:
  "NUL \<notin> set s \<Longrightarrow> NUL \<in> set t \<Longrightarrow> cstr (s @ t) = Ret (s @ takeWhile (\<lambda>c. c \<noteq> NUL) t)"
  by (simp add: cstr_def takeWhile_text)

lemma cstr_text [simp]: "NUL \<notin> set s \<Longrightarrow> cstr (s @ NUL # rest) = Ret s"
  by (simp add: cstr_append)

lemma scan_hex_checksum: "scan_hex None (hex_byte b) = Some (ucast b, [])"
  using scan_checksum [of "[]" b] by simp

lemma NUL_hex_byte [simp]: "NUL \<notin> set (hex_byte b)"
  using hex_byte_chars by blast

definition acked :: "gdb_protocol_data \<Rightarrow> gdb_protocol_data" where
  "acked g = g\<lparr>gdb_out := gdb_out g @ ''+''\<rparr>"

lemma ucast_u8_u32 [simp]: "ucast (ucast z :: u32) = (z :: u8)"
  by (rule bit_word_eqI) (simp add: bit_simps)

lemma ucast_u8_u32_eq: "(ucast (x :: u8) :: u32) = ucast (y :: u8) \<longleftrightarrow> x = y"
  by (metis ucast_u8_u32)

lemma drop_2_Cons: "drop 2 (c # s) = drop 1 s"
  by (simp add: numeral_2_eq_2)

lemma packet_analysis_eq:
  assumes "\<not> gdb_shut g"
  shows "gdb_packet_analysis be junk g (CHR ''$'' # s @ CHR ''#'' # hex_byte b @ NUL # rest) (length s + 4) =
    (if checksum s = b
     then (case gdb_init ((s @ [NUL]) ! 0) of
         Some h \<Rightarrow> run_handler be junk h (acked g) (drop 1 (s @ NUL # hex_byte b @ NUL # rest))
       | None \<Rightarrow> Some (gdb_send_data (acked g) ''''))
     else Some (Ret (g\<lparr>gdb_out := gdb_out g @ ''-''\<rparr>)))"
proof -
  let ?p = "CHR ''$'' # s @ CHR ''#'' # hex_byte b @ NUL # rest"
  have i: "max 1 (length s + 4 - 3) = Suc (length s)" by simp
  have upd: "?p[Suc (length s) := NUL] = CHR ''$'' # s @ NUL # hex_byte b @ NUL # rest"
    by (simp add: list_update_append)
  have first: "(CHR ''$'' # s @ NUL # hex_byte b @ NUL # rest) ! 1 = (s @ [NUL]) ! 0"
    by (simp add: nth_append)
  show ?thesis
    unfolding gdb_packet_analysis_def Let_def i upd
    using assms
    by (simp add: scan_hex_checksum ucast_u8_u32_eq gdb_send_ack_def gdb_write_def acked_def
        gdb_require_retransmission_def nth_append drop_2_Cons cong: option.case_cong)
qed

text \<open>
  Fact: a packet framed as the server frames its own packets is accepted: it is
  acknowledged and its command is run on the text, which may hold any bytes, between the command letter and the checksum.
\<close>

theorem framed_packet_is_dispatched:
  assumes "\<not> gdb_shut g"
  shows "gdb_packet_analysis be junk g (frame (c # s) @ NUL # rest) (length (frame (c # s))) =
    (case gdb_init c of
       Some h \<Rightarrow> run_handler be junk h (acked g) (s @ NUL # hex_byte (checksum (c # s)) @ NUL # rest)
     | None \<Rightarrow> Some (gdb_send_data (acked g) ''''))"
  using packet_analysis_eq [OF assms, of be junk "c # s" "checksum (c # s)" rest]
  by (simp add: frame_def cong: option.case_cong)

theorem framed_packet_is_dispatched_witness:
  "gdb_packet_analysis True 0 (gdb_init_data sample_core) (frame ''?'' @ [NUL]) 5 =
     Some (reason (acked (gdb_init_data sample_core)))"
  using framed_packet_is_dispatched [of "gdb_init_data sample_core" True 0 "CHR ''?''" "[]" "[]"]
  by (simp add: gdb_init_data_def gdb_init_def NUL_def)

text \<open>
  Property C25: a packet whose checksum is not that of its text is refused: the server asks for
  it again and its whole state, the processor and the memory included, is as before.
\<close>

theorem corrupted_packet_is_refused:
  assumes "\<not> gdb_shut g" and "checksum s \<noteq> b"
  shows "gdb_packet_analysis be junk g
      (CHR ''$'' # s @ CHR ''#'' # hex_byte b @ NUL # rest) (length s + 4) =
    Some (Ret (g\<lparr>gdb_out := gdb_out g @ ''-''\<rparr>))"
  using assms by (simp add: packet_analysis_eq)

theorem corrupted_packet_is_refused_witness:
  "gdb_packet_analysis True 0 (gdb_init_data sample_core)
      (CHR ''$'' # ''g'' @ CHR ''#'' # hex_byte 0 @ NUL # []) 5 =
    Some (Ret ((gdb_init_data sample_core)\<lparr>gdb_out := ''-''\<rparr>))"
  using corrupted_packet_is_refused [of "gdb_init_data sample_core" "''g''" 0 True 0 "[]"]
  by (simp add: gdb_init_data_def NUL_def checksum_def byte_of_def)

section \<open>Words\<close>

lemma write_uint32_bytes:
  "write_uint32 be v = concat (map hex_byte (bytes_of_u32 (if be then BigEndianHost else LittleEndianHost) v))"
  by (simp add: write_uint32_def byte_indices_def build_host_def bytes_of_u32_def Let_def)

lemma length_write_uint32 [simp]: "length (write_uint32 be v) = 8"
  by (simp add: write_uint32_bytes bytes_of_u32_def Let_def split: host.split)

lemma NUL_write_uint32 [simp]: "NUL \<notin> set (write_uint32 be v)"
  by (auto simp: write_uint32_bytes dest: hex_byte_chars)

lemma read_bytes_hex:
  "NUL \<in> set t \<Longrightarrow> read_bytes (i # is) (hex_byte b @ t) v bs = read_bytes is t (ucast b) (bs[i := b])"
  by (simp add: cstr_append scan_hex_byte Let_def)

lemma read_write_uint32:
  assumes "NUL \<in> set t"
  shows "read_uint32 be junk (write_uint32 be v @ t) = Ret v"
proof -
  obtain a b c d where bs: "bytes_of_u32 LittleEndianHost v = [a, b, c, d]"
    using length_bytes_of_u32 by (rule length_4_E)
  have v: "u32_of_le [a, b, c, d] = v" using u32_of_le_bytes_of [of v] by (simp add: bs)
  have bs': "bytes_of_u32 BigEndianHost v = [d, c, b, a]"
    using bs by (simp add: bytes_of_u32_def Let_def)
  show ?thesis
    unfolding read_uint32_def write_uint32_bytes byte_indices_def
    using assms v
    by (cases be) (simp_all add: bs bs' build_host_def read_bytes_hex u32_of_bytes_def
        del: u32_of_le.simps read_bytes.simps(2) add: read_bytes.simps(1))
qed

lemma read_bytes_Ret:
  "NUL \<in> set (drop (2 * length is) t) \<Longrightarrow> \<exists>bs'. read_bytes is t v bs = Ret bs'"
proof (induction "is" arbitrary: t v bs)
  case (Cons i "is")
  then have "NUL \<in> set (drop (2 * length is) (drop 2 t))" by (simp add: add.commute)
  from Cons.IH [OF this] Cons.prems show ?case
    by (auto simp: cstr_def Let_def dest: in_set_dropD)
qed simp

lemma read_uint32_Ret:
  assumes "NUL \<in> set (drop 8 t)"
  shows "\<exists>v. read_uint32 be junk t = Ret v"
  using read_bytes_Ret [of "byte_indices be" t junk "[0, 0, 0, 0]"] assms
  by (auto simp: read_uint32_def byte_indices_def)

lemma skip_words_eq:
  "NUL \<in> set (drop (8 * n) t) \<Longrightarrow> skip_words be junk n t = Ret (drop (8 * n) t)"
proof (induction n arbitrary: t)
  case (Suc n)
  have d: "drop (8 * Suc n) t = drop (8 * n) (drop 8 t)" by (simp add: add.commute)
  with Suc.prems have n: "NUL \<in> set (drop (8 * n) (drop 8 t))" by (simp only:)
  then have "NUL \<in> set (drop 8 t)" by (rule in_set_dropD)
  with read_uint32_Ret obtain v where "read_uint32 be junk t = Ret v" by blast
  with Suc.IH [OF n] d show ?case by (simp only: skip_words.simps cbind_simps)
qed simp

section \<open>Registers\<close>

definition register_word :: "arm_core \<Rightarrow> nat \<Rightarrow> u32" where
  "register_word p i = arm_read_register p (of_nat i) - (if i = 15 then 4 else 0)"

definition registers_text :: "bool \<Rightarrow> arm_core \<Rightarrow> string" where
  "registers_text be p =
     concat (map (\<lambda>i. write_uint32 be (register_word p i)) [0..<16]) @
     replicate 200 CHR ''x'' @ write_uint32 be (arm_read_cpsr p)"

lemma read_general_registers_eq:
  "read_general_registers be g = gdb_send_buffer g (registers_text be (gdb_arm g))"
proof -
  let ?p = "gdb_arm g"
  have split: "[0..<16] = [0..<15] @ [15]" by (simp add: upt_rec)
  have x: "concat (replicate (8 * 3) ''xxxxxxxx'') @ ''xxxxxxxx'' @ s = replicate 200 CHR ''x'' @ s" for s
    by (simp add: numeral_eq_Suc)
  have words: "map (\<lambda>i. write_uint32 be (arm_read_register ?p (of_nat i))) [0..<15] =
      map (\<lambda>i. write_uint32 be (register_word ?p i)) [0..<15]"
    by (simp add: register_word_def del: upt_Suc)
  have pc: "arm_read_register ?p 15 - 4 = register_word ?p 15"
    by (simp add: register_word_def)
  show ?thesis
    unfolding read_general_registers_def registers_text_def Let_def split map_append concat_append
      words pc x
    by (simp only: append_assoc list.map concat.simps append_Nil2)
qed

lemma write_registers_eq:
  assumes "NUL \<in> set t"
  shows "write_registers be junk is q (concat (map (\<lambda>i. write_uint32 be (f i)) is) @ t) =
    Ret (write_all arm_write_register (map (\<lambda>i. (of_nat i, f i)) is) q)"
  by (induction "is" arbitrary: q) (simp_all add: read_write_uint32 assms)

lemma length_words: "length (concat (map (\<lambda>i. write_uint32 be (f i)) is)) = 8 * length is"
  by (induction "is") simp_all

lemma of_nat_16_inj: "inj_on (of_nat :: nat \<Rightarrow> u8) {0..<16}"
proof (rule inj_onI)
  fix x y :: nat assume "x \<in> {0..<16}" "y \<in> {0..<16}" "(of_nat x :: u8) = of_nat y"
  then show "x = y" by (simp add: word_unat_eq_iff unsigned_of_nat take_bit_eq_mod)
qed

definition answered :: "gdb_protocol_data \<Rightarrow> string \<Rightarrow> gdb_protocol_data" where
  "answered g s = g\<lparr>gdb_packet := frame s, gdb_out := gdb_out g @ frame s\<rparr>"

lemma write_general_registers_eq:
  assumes "\<not> gdb_shut g"
  shows "write_general_registers be junk g (registers_text be p @ NUL # rest) =
    Ret (answered (g\<lparr>gdb_arm := arm_write_cpsr (write_all arm_write_register
      (map (\<lambda>i. (of_nat i, register_word p i)) [0..<16]) (gdb_arm g)) (arm_read_cpsr p)\<rparr>) ''OK'')"
proof -
  let ?words = "concat (map (\<lambda>i. write_uint32 be (register_word p i)) [0..<16])"
  let ?cpsr = "write_uint32 be (arm_read_cpsr p) @ NUL # rest"
  let ?x = "replicate 200 CHR ''x''"
  have data: "registers_text be p @ NUL # rest = ?words @ ?x @ ?cpsr"
    by (simp add: registers_text_def)
  have n: "NUL \<in> set ?cpsr" "NUL \<in> set (?x @ ?cpsr)" by simp_all
  have "drop (16 * 8) (?words @ ?x @ ?cpsr) = ?x @ ?cpsr"
    by (simp add: length_words del: upt_Suc)
  moreover have "drop (8 * (8 * 3)) (?x @ ?cpsr) = replicate 8 CHR ''x'' @ ?cpsr" by simp
  moreover have "drop 8 (replicate 8 CHR ''x'' @ ?cpsr) = ?cpsr" by simp
  moreover have "skip_words be junk (8 * 3) (?x @ ?cpsr) = Ret (drop (8 * (8 * 3)) (?x @ ?cpsr))"
    by (rule skip_words_eq) simp
  moreover obtain fps where "read_uint32 be junk (replicate 8 CHR ''x'' @ ?cpsr) = Ret fps"
    using read_uint32_Ret [of "replicate 8 CHR ''x'' @ ?cpsr" be junk] by auto
  moreover have "read_uint32 be junk ?cpsr = Ret (arm_read_cpsr p)"
    by (rule read_write_uint32) simp
  ultimately show ?thesis
    unfolding write_general_registers_def data write_registers_eq [OF n(2)]
    using assms by (simp only: cbind_simps) (simp add: gdb_sends answered_def)
qed

text \<open>The registers of \<open>p\<close> written in the processor \<open>q\<close>.\<close>

definition with_registers :: "arm_core \<Rightarrow> arm_core \<Rightarrow> arm_core" where
  "with_registers q p = arm_write_cpsr (write_all arm_write_register
     (map (\<lambda>i. (of_nat i, register_word p i)) [0..<16]) q) (arm_read_cpsr p)"

lemma with_registers_sel:
  "n < 16 \<Longrightarrow> arm_read_register (with_registers q p) n = arm_read_register p n"
  "arm_read_cpsr (with_registers q p) = arm_read_cpsr p"
  "core_mem (with_registers q p) = core_mem q"
  "cycle_count (with_registers q p) = cycle_count q"
  "core_wf (with_registers q p) = core_wf q"
proof -
  let ?nvs = "map (\<lambda>i. (of_nat i :: u8, register_word p i)) [0..<16]"
  let ?w = "write_all arm_write_register ?nvs q"
  have reg: "read_register (core_reg ?w) n = register_word p (unat n)" if "n < 16" for n
  proof (rule core_regs.rd_write_all)
    show "distinct (map fst ?nvs)"
      using of_nat_16_inj by (simp add: comp_def distinct_map del: upt_Suc)
    have "unat n < 16" using that by (rule reg_index)
    then show "(n, register_word p (unat n)) \<in> set ?nvs" by (auto intro!: image_eqI [of _ _ "unat n"] simp del: upt_Suc)
  qed (rule that)
  have "arm_read_register ?w n = arm_read_register p n" if "n < 16" for n
  proof (cases "n = 15")
    case True
    have "read_register (core_reg ?w) 15 = arm_read_register p 15 - 4"
      using reg [of 15] by (simp add: register_word_def)
    then show ?thesis using True by (simp add: arm_read_register_def)
  next
    case False
    then have "unat n \<noteq> 15" by (simp add: word_unat_eq_iff)
    with False that reg [OF that] show ?thesis
      by (simp add: arm_read_register_no_pc register_word_def)
  qed
  then show "n < 16 \<Longrightarrow> arm_read_register (with_registers q p) n = arm_read_register p n"
    by (simp add: with_registers_def)
  show "arm_read_cpsr (with_registers q p) = arm_read_cpsr p" by (simp add: with_registers_def)
  show "core_mem (with_registers q p) = core_mem q" "cycle_count (with_registers q p) = cycle_count q"
    using core_regs.status_write_all [of ?nvs q] by (simp_all add: with_registers_def)
  show "core_wf (with_registers q p) = core_wf q" by (simp add: with_registers_def)
qed

text \<open>
  Property C26: the registers written back are the ones read. Sending to \<^verbatim>\<open>G\<close> the text that \<^verbatim>\<open>g\<close>
  answers for a processor gives every register and CPSR of that processor to the server's own, in
  either byte order, and answers OK; its memory and its cycle counter stay.
\<close>

theorem registers_roundtrip:
  assumes "\<not> gdb_shut g"
  shows "read_general_registers be g = gdb_send_buffer g (registers_text be (gdb_arm g)) \<and>
    (\<exists>q. write_general_registers be junk g (registers_text be p @ NUL # rest) =
        Ret (answered (g\<lparr>gdb_arm := q\<rparr>) ''OK'') \<and>
      (\<forall>n. n < 16 \<longrightarrow> arm_read_register q n = arm_read_register p n) \<and>
      arm_read_cpsr q = arm_read_cpsr p \<and> core_mem q = core_mem (gdb_arm g) \<and>
      cycle_count q = cycle_count (gdb_arm g))"
  using write_general_registers_eq [OF assms, of be junk p rest]
  by (intro conjI exI [of _ "with_registers (gdb_arm g) p"])
    (simp_all add: read_general_registers_eq with_registers_sel, simp add: with_registers_def)

theorem registers_roundtrip_witness:
  "\<exists>q. write_general_registers True 0 (gdb_init_data (arm_create 0 (memory_create (\<lambda>_. 0) 32 1)))
      (registers_text True sample_core @ [NUL]) =
    Ret (answered (gdb_init_data q) ''OK'') \<and> arm_read_register q 2 = 7"
proof -
  let ?p = "arm_create 0 (memory_create (\<lambda>_. 0) 32 1)"
  have "\<not> gdb_shut (gdb_init_data ?p)" by (simp add: gdb_init_data_def)
  note rt = registers_roundtrip [OF this, of True 0 sample_core "[]"]
  moreover have "arm_read_register sample_core 2 = 7" by code_simp
  moreover have "(gdb_init_data ?p)\<lparr>gdb_arm := q\<rparr> = gdb_init_data q" for q
    by (simp add: gdb_init_data_def)
  ultimately show ?thesis by auto
qed

section \<open>Memory\<close>

lemma dump_memory_eq:
  assumes "mem_wf m" and "mem_size m < 2 ^ 32"
  shows "dump_memory m a n = Ret (concat (map hex_byte (take n (drop (unat a) (mem_data m)))))"
proof (induction n arbitrary: a)
  case (Suc n)
  have len: "length (mem_data m) = mem_size m" using assms(1) by (simp add: mem_wf_def)
  show ?case
  proof (cases "unat a < mem_size m")
    case True
    then have "unat (a + 1) = Suc (unat a)" using assms(2) by (simp add: unat_word_ariths)
    moreover have "aligned 1 m a" using True by (simp add: aligned_def)
    moreover have "drop (unat a) (mem_data m) = mem_data m ! unat a # drop (Suc (unat a)) (mem_data m)"
      using True len by (simp add: Cons_nth_drop_Suc)
    ultimately show ?thesis using Suc by (simp add: memory_read_byte_wf assms(1))
  next
    case False
    then show ?thesis using len by (simp add: memory_read_byte_wf assms(1) aligned_def)
  qed
qed simp

lemma length_hex_bytes [simp]: "length (concat (map hex_byte bs)) = 2 * length bs"
  by (induction bs) simp_all

text \<open>What a client sends: numbers without leading zeros, and bytes with the special ones escaped.\<close>

definition escape :: "u8 list \<Rightarrow> string" where
  "escape bs = concat (map (\<lambda>b.
     if b \<in> set [0x23, 0x24, 0x2a, 0x7d] then [CHR 0x7d, char_of (unat (b XOR 0x20))] else [char_of (unat b)]) bs)"

lemma scan_pair:
  assumes "a < 2 ^ 64" and "n < 2 ^ 64" and "ends_number t"
  shows "scan_hex_pair (hex_number a @ CHR '','' # hex_number n @ t) = (Some (of_nat a), Some (of_nat n))"
  using scan_hex_number [OF assms(1), of "CHR '','' # hex_number n @ t"] scan_hex_number [OF assms(2,3)]
  by (simp add: scan_hex_pair_def)

text \<open>
  Property C27: a memory request answers the bytes in hexadecimal, from the address asked to the
  end of the range or of the memory, whichever comes first. Nothing bounds the request: when the range holds
  more than 509 bytes the answer runs past the end of the packet array.
\<close>

theorem memory_request_answer:
  assumes "core_wf (gdb_arm g)" and "mem_size (core_mem (gdb_arm g)) < 2 ^ 32" and "\<not> gdb_shut g"
    and "cstr data = Ret s" and "scan_hex_pair s = (Some a, Some n)"
  shows "read_memory g data =
    (let bs = take (unat n) (drop (unat a) (mem_data (core_mem (gdb_arm g))))
     in if length bs \<le> 509 then Ret (answered g (concat (map hex_byte bs))) else Undef)"
proof -
  let ?bs = "take (unat n) (drop (unat a) (mem_data (core_mem (gdb_arm g))))"
  have "mem_wf (core_mem (gdb_arm g))" using assms(1) by (simp add: core_wf_def)
  from dump_memory_eq [OF this assms(2)] have "read_memory g data =
      gdb_send_buffer g (concat (map hex_byte ?bs))"
    using assms(4,5) by (simp add: read_memory_def)
  moreover have "length (concat (map hex_byte ?bs)) + 4 < MAX_PACKET_SIZE \<longleftrightarrow> length ?bs \<le> 509"
    unfolding length_hex_bytes MAX_PACKET_SIZE_def by linarith
  ultimately show ?thesis
    using assms(3) unfolding gdb_send_buffer_eq Let_def answered_def by simp
qed

theorem memory_request_answer_witness:
  "read_memory (gdb_init_data sample_core) (''4,2'' @ [NUL]) =
     Ret (answered (gdb_init_data sample_core) ''0000'')"
proof -
  let ?g = "gdb_init_data sample_core"
  have "\<not> gdb_shut ?g" "core_wf (gdb_arm ?g)"
    by (simp_all add: gdb_init_data_def sample_core_wf)
  moreover have "mem_size (core_mem (gdb_arm ?g)) = 32" by code_simp
  then have "mem_size (core_mem (gdb_arm ?g)) < 2 ^ 32" by simp
  moreover have "cstr (''4,2'' @ [NUL]) = Ret ''4,2''" by code_simp
  moreover have "hex_number 4 = ''4''" "hex_number 2 = ''2''" by code_simp+
  then have "scan_hex_pair ''4,2'' = (Some 4, Some 2)" using scan_pair [of 4 2 "[]"] by simp
  ultimately have r: "read_memory ?g (''4,2'' @ [NUL]) =
    (let bs = take (unat (2 :: u32)) (drop (unat (4 :: u32)) (mem_data (core_mem (gdb_arm ?g))))
     in if length bs \<le> 509 then Ret (answered ?g (concat (map hex_byte bs))) else Undef)"
    by (intro memory_request_answer)
  have "take (unat (2 :: u32)) (drop (unat (4 :: u32)) (mem_data (core_mem (gdb_arm ?g)))) = [0, 0]"
    "hex_byte 0 = ''00''"
    by code_simp+
  then show ?thesis unfolding r Let_def by simp
qed

lemma byte_of_char [simp]: "byte_of (char_of (unat b)) = b"
proof -
  have "byte_of (char_of (unat b)) = of_nat (of_char (char_of (unat b)))"
    by (simp only: byte_of_def of_nat_of_char)
  also have "\<dots> = of_nat (unat b mod 256)" by (simp only: of_char_of)
  also have "\<dots> = b" using unsigned_less [of b, where 'a = nat] by simp
  finally show ?thesis .
qed

lemma put_bytes_Cons:
  assumes "i + 1 + length bs \<le> length (mem_data m)"
  shows "put_bytes (put_bytes m i [b]) (Suc i) bs = put_bytes m i (b # bs)"
  using assms by (simp add: put_bytes_def ac_simps)

lemma put_bytes_Nil: "put_bytes m i [] = m"
  by (simp add: put_bytes_def)

lemma fill_memory_escape:
  assumes "mem_wf m" and "unat a + length bs \<le> mem_size m" and "mem_size m < 2 ^ 32"
  shows "fill_memory m a (length bs) (escape bs @ t) = Ret (True, put_bytes m (unat a) bs)"
  using assms
proof (induction bs arbitrary: m a)
  case Nil
  then show ?case by (simp add: put_bytes_Nil)
next
  case (Cons b bs)
  let ?m = "put_bytes m (unat a) [b]"
  have len: "length (mem_data m) = mem_size m" using Cons.prems(1) by (simp add: mem_wf_def)
  have a: "unat a < mem_size m" "unat (a + 1) = Suc (unat a)"
    using Cons.prems by (simp_all add: unat_word_ariths)
  then have w: "memory_write_byte m a b = Ret (0, ?m)"
    using Cons.prems(1) by (simp add: memory_write_byte_wf aligned_def)
  have "mem_wf ?m" using Cons.prems by (intro put_bytes_wf) auto
  then have "fill_memory ?m (a + 1) (length bs) (escape bs @ t) = Ret (True, put_bytes ?m (unat (a + 1)) bs)"
    using Cons.prems a by (intro Cons.IH) simp_all
  then have IH: "fill_memory ?m (a + 1) (length bs) (escape bs @ t) = Ret (True, put_bytes m (unat a) (b # bs))"
    using a Cons.prems(2) len put_bytes_Cons [of "unat a" bs m b] by simp
  show ?case
  proof (cases "b \<in> set [0x23, 0x24, 0x2a, 0x7d]")
    case True
    then have e: "escape (b # bs) = CHR 0x7d # char_of (unat (b XOR 0x20)) # escape bs"
      by (simp add: escape_def)
    have "byte_of CHR 0x7d = 0x7d" by (simp add: byte_of_def)
    moreover have "(b XOR 0x20) XOR 0x20 = b" by (simp add: xor.assoc)
    ultimately show ?thesis unfolding e by (simp add: w IH)
  next
    case False
    then have e: "escape (b # bs) = char_of (unat b) # escape bs" and "b \<noteq> 0x7d"
      by (simp_all add: escape_def)
    then show ?thesis unfolding e by (simp add: w IH)
  qed
qed

lemma after_colon: "CHR '':'' \<notin> set s \<Longrightarrow> after_char CHR '':'' (s @ CHR '':'' # t) = Some t"
  by (induction s) (auto simp: after_char_def)

lemma hex_number_plain: "NUL \<notin> set (hex_number n)" "CHR '':'' \<notin> set (hex_number n)"
proof -
  show "NUL \<notin> set (hex_number n)" using hex_number_shape(3) by blast
  have "\<not> is_hex CHR '':''" by (simp add: is_hex_def hex_value_def)
  then show "CHR '':'' \<notin> set (hex_number n)" using hex_number_shape(3) by blast
qed

definition range_text :: "u32 \<Rightarrow> nat \<Rightarrow> string" where
  "range_text a n = hex_number (unat a) @ CHR '','' # hex_number n"

lemma range_text_plain: "NUL \<notin> set (range_text a n)" "CHR '':'' \<notin> set (range_text a n)"
  using hex_number_plain by (auto simp: range_text_def NUL_def)

lemma scan_range_text:
  assumes "n < 2 ^ 64" and "ends_number t"
  shows "scan_hex_pair (range_text a n @ t) = (Some a, Some (of_nat n))"
proof -
  have "unat a < 2 ^ 64" using unsigned_less [of a, where 'a = nat] by simp
  from scan_pair [OF this assms] show ?thesis by (simp add: range_text_def)
qed

lemma write_memory_escape:
  assumes "core_wf (gdb_arm g)" and "mem_size (core_mem (gdb_arm g)) < 2 ^ 32" and "\<not> gdb_shut g"
    and "unat a < mem_size (core_mem (gdb_arm g))"
    and "unat a + length bs \<le> mem_size (core_mem (gdb_arm g))"
  shows "write_memory_binary g (range_text a (length bs) @ CHR '':'' # escape bs @ NUL # rest) =
    Ret (answered (g\<lparr>gdb_arm := (gdb_arm g)\<lparr>core_mem := put_bytes (core_mem (gdb_arm g)) (unat a) bs\<rparr>\<rparr>) ''OK'')"
proof -
  let ?m = "core_mem (gdb_arm g)" and ?h = "range_text a (length bs)"
  let ?w = "?h @ CHR '':'' # escape bs @ NUL # rest"
  have wf: "mem_wf ?m" using assms(1) by (simp add: core_wf_def)
  have less: "length bs < 2 ^ 32" using assms(2,5) by simp
  then have n: "unat (of_nat (length bs) :: u32) = length bs"
    by (simp add: unsigned_of_nat take_bit_eq_mod)
  have n64: "length bs < 2 ^ 64" using less by simp
  let ?u = "takeWhile (\<lambda>c. c \<noteq> NUL) (escape bs @ NUL # rest)"
  have "cstr ?w = Ret (?h @ takeWhile (\<lambda>c. c \<noteq> NUL) (CHR '':'' # escape bs @ NUL # rest))"
    by (intro cstr_append range_text_plain) simp
  then have s: "cstr ?w = Ret (?h @ CHR '':'' # ?u)" by (simp add: NUL_def)
  have sc: "scan_hex_pair (?h @ CHR '':'' # ?u) = (Some a, Some (of_nat (length bs)))"
    by (rule scan_range_text [OF n64]) simp
  show ?thesis
    using fill_memory_escape [OF wf assms(5,2), of "NUL # rest"] assms(3,4)
      after_colon [OF range_text_plain(2)]
    by (simp add: write_memory_binary_def s sc n memory_get_size_def gdb_sends answered_def)
qed

text \<open>
  Property C10: memory uploads. A binary write of up to 509 bytes into the memory, in the escaped form of the protocol,
  answers OK, and the memory request for the same range then answers exactly these bytes; the
  registers and the cycle counter stay.
\<close>

theorem upload_download:
  assumes "core_wf (gdb_arm g)" and "mem_size (core_mem (gdb_arm g)) < 2 ^ 32" and "\<not> gdb_shut g"
    and "unat a < mem_size (core_mem (gdb_arm g))"
    and "unat a + length bs \<le> mem_size (core_mem (gdb_arm g))" and "length bs \<le> 509"
  shows "\<exists>g'. write_memory_binary g (range_text a (length bs) @ CHR '':'' # escape bs @ NUL # rest) =
      Ret (answered g' ''OK'') \<and>
    read_memory g' (range_text a (length bs) @ NUL # rest') = Ret (answered g' (concat (map hex_byte bs))) \<and>
    core_reg (gdb_arm g') = core_reg (gdb_arm g) \<and> cycle_count (gdb_arm g') = cycle_count (gdb_arm g)"
proof -
  let ?m = "core_mem (gdb_arm g)" and ?h = "range_text a (length bs)"
  let ?m' = "put_bytes ?m (unat a) bs" and ?w = "?h @ CHR '':'' # escape bs @ NUL # rest"
  let ?g = "g\<lparr>gdb_arm := (gdb_arm g)\<lparr>core_mem := ?m'\<rparr>\<rparr>"
  have wf: "mem_wf ?m" using assms(1) by (simp add: core_wf_def)
  have wf': "mem_wf ?m'" using wf assms(5) by (intro put_bytes_wf)
  have n: "unat (of_nat (length bs) :: u32) = length bs"
    using assms(6) by (simp add: unsigned_of_nat take_bit_eq_mod)
  have n64: "length bs < 2 ^ 64" using assms(6) by simp
  have "write_memory_binary g ?w = Ret (answered ?g ''OK'')"
    using assms(1-5) by (rule write_memory_escape)
  moreover have "dump_memory ?m' a (length bs) = Ret (concat (map hex_byte bs))"
  proof -
    have "take (length bs) (drop (unat a) (mem_data ?m')) = bs"
      using wf assms(5) by (simp add: put_bytes_def mem_wf_def)
    then show ?thesis using dump_memory_eq [OF wf', of a "length bs"] assms(2) by simp
  qed
  then have "read_memory ?g (?h @ NUL # rest') = Ret (answered ?g (concat (map hex_byte bs)))"
    using scan_range_text [OF n64, of "[]" a] assms(3,6)
    by (simp add: read_memory_def range_text_plain n gdb_send_buffer_eq MAX_PACKET_SIZE_def answered_def)
  ultimately show ?thesis by (intro exI [of _ ?g]) simp
qed

theorem upload_download_witness:
  "\<exists>g'. read_memory g' (range_text 4 1 @ [NUL]) = Ret (answered g' (hex_byte 0x7d))"
proof -
  let ?g = "gdb_init_data sample_core"
  have g: "core_wf (gdb_arm ?g)" "mem_size (core_mem (gdb_arm ?g)) = 32" "\<not> gdb_shut ?g"
    using sample_core_wf by (simp_all add: gdb_init_data_def) code_simp
  show ?thesis
    using upload_download [of ?g 4 "[0x7d]" "[]" "[]"] g by auto
qed

section \<open>Continue\<close>

lemma step_wf:
  assumes "core_wf p" and "arm_step p = Ret (s, q)"
  shows "core_wf q" and "mem_kind (core_mem q) = mem_kind (core_mem p)"
  using step_keeps_fetched [OF assms] assms(1) by (simp_all add: keeps_def)

text \<open>One turn of the loop of \<^verbatim>\<open>cont\<close>: the next processor, the status and the instruction remembered.\<close>

inductive cont_turn :: "arm_core \<times> int \<times> u32 option \<Rightarrow> arm_core \<times> int \<times> u32 option \<Rightarrow> bool" where
  turn: "peek_instruction p mem = Ret (Some i) \<Longrightarrow> \<not> breakpoint i \<Longrightarrow> arm_step p = Ret (e', p') \<Longrightarrow>
    cont_turn (p, e, mem) (p', e', Some i)"

inductive_cases cont_turnE: "cont_turn (p, e, mem) s"

definition at_breakpoint :: "arm_core \<times> int \<times> u32 option \<Rightarrow> bool" where
  "at_breakpoint s = (case s of (p, e, mem) \<Rightarrow> \<exists>i. peek_instruction p mem = Ret (Some i) \<and> breakpoint i)"

lemma cont_loop_turn:
  "cont_turn (p, e, mem) (p', e', mem') \<Longrightarrow> cont_loop p e mem = cont_loop p' e' mem'"
  by (erule cont_turnE) (subst cont_loop.simps, simp)

lemma cont_loop_stops: "at_breakpoint (p, e, mem) \<Longrightarrow> cont_loop p e mem = Some (Ret (p, e))"
  unfolding at_breakpoint_def by (subst cont_loop.simps) auto

lemma cont_turns_loop:
  assumes "cont_turn\<^sup>*\<^sup>* s t"
  shows "cont_loop (fst s) (fst (snd s)) (snd (snd s)) = cont_loop (fst t) (fst (snd t)) (snd (snd t))"
  using assms
proof (induction rule: rtranclp_induct)
  case (step t u)
  then have "cont_loop (fst t) (fst (snd t)) (snd (snd t)) = cont_loop (fst u) (fst (snd u)) (snd (snd u))"
    using cont_loop_turn [of "fst t" "fst (snd t)" "snd (snd t)" "fst u" "fst (snd u)" "snd (snd u)"] by simp
  with step.IH show ?case by simp
qed simp

lemmas cont_loop_induct = cont_loop.raw_induct [rotated, consumes 1, case_names 1]

lemma cont_loop_reaches:
  assumes "cont_loop p e mem = Some (Ret (q, e'))"
  shows "\<exists>mem'. cont_turn\<^sup>*\<^sup>* (p, e, mem) (q, e', mem') \<and> at_breakpoint (q, e', mem')"
  using assms
proof (induction p e mem "Ret (q, e') :: (arm_core \<times> int) cres" rule: cont_loop_induct)
  case (1 loop p e mem)
  from 1(2) obtain i where i: "peek_instruction p mem = Ret (Some i)"
    by (auto split: cres.splits option.splits)
  show ?case
  proof (cases "breakpoint i")
    case True
    with 1(2) i have "q = p" "e' = e" by auto
    with i True show ?thesis by (intro exI [of _ mem]) (auto simp: at_breakpoint_def)
  next
    case False
    with 1(2) i obtain r where r: "arm_step p = Ret r" "loop (snd r) (fst r) (Some i) = Some (Ret (q, e'))"
      by (auto split: cres.splits)
    obtain st p' where p': "r = (st, p')" by force
    from 1(1) [OF r(2)] p' obtain mem' where "cont_turn\<^sup>*\<^sup>* (p', st, Some i) (q, e', mem')"
      "at_breakpoint (q, e', mem')" by auto
    moreover have "cont_turn (p, e, mem) (p', st, Some i)"
      using i False r(1) p' by (auto intro: turn)
    ultimately show ?thesis by (meson converse_rtranclp_into_rtranclp)
  qed
qed

text \<open>A loop that keeps some property and never meets a breakpoint has no result.\<close>

lemma cont_loop_never:
  assumes "cont_loop p e mem = Some r" and "P (p, e, mem)"
    and "\<And>p e mem. P (p, e, mem) \<Longrightarrow> \<exists>i p' e'. peek_instruction p mem = Ret (Some i) \<and> \<not> breakpoint i \<and>
      arm_step p = Ret (e', p') \<and> P (p', e', Some i)"
  shows False
  using assms(1,2)
proof (induction p e mem r rule: cont_loop_induct)
  case (1 loop p e mem r)
  from assms(3) [OF 1(3)] obtain i p' e' where "peek_instruction p mem = Ret (Some i)"
    "\<not> breakpoint i" "arm_step p = Ret (e', p')" "P (p', e', Some i)" by blast
  with 1(1,2) show ?case by auto
qed

lemma peek_next:
  "core_wf p \<Longrightarrow> peek_instruction p mem =
    Ret (case next_instruction p of None \<Rightarrow> mem | Some i \<Rightarrow> Some i)"
  by (auto simp: peek_instruction_def Let_def arm_read_pc core_reads_wf next_instruction_def
      fetch_address_def split: option.split)

text \<open>
  The breakpoint that gdb places is an instruction of the space that the ARM manual keeps undefined, by its
  fields: 0xE7F in the bits 31 to 20, 0xF in the bits 7 to 4. The processor is at one when it is the next instruction that the
  fetch would deliver.
\<close>

definition gdb_breakpoint :: "u32 \<Rightarrow> bool" where
  "gdb_breakpoint i \<longleftrightarrow> drop_bit 20 i = 0xE7F \<and> take_bit 4 (drop_bit 4 i) = 0xF"

definition stops_at :: "arm_core \<Rightarrow> bool" where
  "stops_at p \<longleftrightarrow> (case next_instruction p of None \<Rightarrow> False | Some i \<Rightarrow> gdb_breakpoint i)"

lemma breakpoint_fields: "breakpoint i = gdb_breakpoint i"
proof -
  have m: "(0xFFF000F0 :: u32) = push_bit 20 (mask 12) OR push_bit 4 (mask 4)" by code_simp
  have split: "i AND 0xFFF000F0 = push_bit 20 (drop_bit 20 i) OR push_bit 4 (take_bit 4 (drop_bit 4 i))"
    unfolding m by (rule bit_word_eqI) (auto simp: bit_simps)
  have fields: "drop_bit 20 (i AND 0xFFF000F0) = drop_bit 20 i"
    "take_bit 4 (drop_bit 4 (i AND 0xFFF000F0)) = take_bit 4 (drop_bit 4 i)"
    unfolding m by (rule bit_word_eqI, auto simp: bit_simps dest: bit_imp_le_length)+
  have k: "drop_bit 20 (0xE7F000F0 :: u32) = 0xE7F" "take_bit 4 (drop_bit 4 (0xE7F000F0 :: u32)) = 0xF"
    "push_bit 20 0xE7F OR push_bit 4 0xF = (0xE7F000F0 :: u32)"
    by code_simp+
  show ?thesis
    unfolding breakpoint_def gdb_breakpoint_def by (metis split fields k)
qed

text \<open>The processor and the status after \<open>n\<close> steps, none of which starts at a breakpoint.\<close>

fun steps_between :: "nat \<Rightarrow> arm_core \<times> int \<Rightarrow> (arm_core \<times> int) option" where
  "steps_between 0 s = Some s"
| "steps_between (Suc n) (p, e) =
     (if stops_at p then None
      else case arm_step p of Ret (e', q) \<Rightarrow> steps_between n (q, e') | _ \<Rightarrow> None)"

text \<open>The remembered instruction, which a refused read leaves to be tested again, is none or not a breakpoint.\<close>

definition remembers :: "arm_core \<Rightarrow> u32 option \<Rightarrow> bool" where
  "remembers p mem \<longleftrightarrow> core_wf p \<and> (case mem of None \<Rightarrow> next_instruction p \<noteq> None | Some i \<Rightarrow> \<not> breakpoint i)"

lemma remembers_peek:
  assumes "remembers p mem"
  obtains i where "peek_instruction p mem = Ret (Some i)" and "breakpoint i = stops_at p"
  using assms
  by (cases "next_instruction p"; cases mem)
    (auto simp: remembers_def peek_next stops_at_def breakpoint_fields)

lemma remembers_turn: "remembers p mem \<Longrightarrow> cont_turn (p, e, mem) (q, e', mem') \<Longrightarrow> remembers q mem'"
  by (auto simp: remembers_def elim!: cont_turnE dest: step_wf split: option.splits)

lemma steps_between_loop:
  "remembers p mem \<Longrightarrow> steps_between n (p, e) = Some (q, e') \<Longrightarrow> stops_at q \<Longrightarrow>
     cont_loop p e mem = Some (Ret (q, e'))"
proof (induction n arbitrary: p e mem)
  case 0
  from remembers_peek [OF 0(1)] obtain i where "peek_instruction p mem = Ret (Some i)" "breakpoint i = stops_at p" .
  with 0 show ?case by (subst cont_loop.simps) simp
next
  case (Suc n)
  from remembers_peek [OF Suc.prems(1)] obtain i where
    i: "peek_instruction p mem = Ret (Some i)" "breakpoint i = stops_at p" .
  from Suc.prems(2) obtain st r where r: "\<not> stops_at p" "arm_step p = Ret (st, r)" "steps_between n (r, st) = Some (q, e')"
    by (auto split: if_splits cres.splits)
  then have "cont_turn (p, e, mem) (r, st, Some i)" using i by (auto intro: turn)
  with remembers_turn [OF Suc.prems(1)] cont_loop_turn Suc.IH [OF _ r(3) Suc.prems(3)] show ?case by metis
qed

lemma turns_steps_between:
  assumes "cont_turn\<^sup>*\<^sup>* s t" and "remembers (fst s) (snd (snd s))"
  shows "remembers (fst t) (snd (snd t)) \<and>
    (\<exists>n. steps_between n (fst s, fst (snd s)) = Some (fst t, fst (snd t)))"
  using assms
proof (induction rule: converse_rtranclp_induct)
  case base
  then show ?case by (auto intro: exI [of _ 0])
next
  case (step s u)
  obtain p e mem where s: "s = (p, e, mem)" by (cases s)
  obtain q e' mem' where u: "u = (q, e', mem')" by (cases u)
  from step.prems remembers_peek [of p mem] obtain i where
    i: "peek_instruction p mem = Ret (Some i)" "breakpoint i = stops_at p" by (auto simp: s)
  from step.hyps(1) have "\<not> stops_at p" "arm_step p = Ret (e', q)" using i by (auto simp: s u elim!: cont_turnE)
  then have more: "steps_between (Suc n) (p, e) = steps_between n (q, e')" for n by simp
  have "remembers q mem'" using step.prems step.hyps(1) remembers_turn by (simp add: s u)
  with step.IH obtain n where "remembers (fst t) (snd (snd t))" "steps_between n (q, e') = Some (fst t, fst (snd t))"
    by (auto simp: u)
  then show ?case unfolding s fst_conv snd_conv more [symmetric] by blast
qed

lemma cont_loop_iff:
  assumes "remembers p mem"
  shows "cont_loop p e mem = Some (Ret (q, e')) \<longleftrightarrow> (\<exists>n. steps_between n (p, e) = Some (q, e') \<and> stops_at q)"
proof
  assume "cont_loop p e mem = Some (Ret (q, e'))"
  from cont_loop_reaches [OF this] obtain mem' where
    t: "cont_turn\<^sup>*\<^sup>* (p, e, mem) (q, e', mem')" "at_breakpoint (q, e', mem')" by blast
  from turns_steps_between [OF t(1)] assms have "remembers q mem'" "\<exists>n. steps_between n (p, e) = Some (q, e')" by auto
  moreover from this(1) obtain i where "peek_instruction q mem' = Ret (Some i)" "breakpoint i = stops_at q"
    by (rule remembers_peek)
  ultimately show "\<exists>n. steps_between n (p, e) = Some (q, e') \<and> stops_at q"
    using t(2) by (auto simp: at_breakpoint_def)
qed (use steps_between_loop [OF assms] in blast)

lemma step_reports: "core_wf p \<Longrightarrow> arm_step p = Ret (s, q) \<Longrightarrow> s \<in> {0, 1}"
  by (auto simp: arm_step_eq split: option.splits)

lemma steps_between_status:
  "steps_between n (p, e) = Some (q, e') \<Longrightarrow> core_wf p \<Longrightarrow> e \<in> {0, 1} \<Longrightarrow> e' \<in> {0, 1}"
proof (induction n arbitrary: p e)
  case (Suc n)
  then obtain st r where "arm_step p = Ret (st, r)" "steps_between n (r, st) = Some (q, e')"
    by (auto split: if_splits cres.splits)
  with Suc.IH [of r st] Suc.prems(2) step_wf(1) step_reports show ?case by blast
qed simp

text \<open>
  Property C9: when a continue answers, and what. On a well-formed processor whose next instruction can be fetched, the command
  returns exactly when some number of steps leads to a processor that would fetch gdb's breakpoint next,
  and none of these steps starts at one. It then answers \<open>S05\<close>, whatever the steps met: a refused fetch, which resets the
  processor, is not told. Where the first instruction cannot be fetched, the test of the uninitialised variable has
  no meaning in C.
\<close>

theorem continue_returns_at_breakpoint:
  assumes "core_wf (gdb_arm g)" and "\<not> gdb_shut g" and "target_exception g \<in> {0, 1}"
  shows "(next_instruction (gdb_arm g) = None \<longrightarrow> cont g = Some Undef) \<and>
    (next_instruction (gdb_arm g) \<noteq> None \<longrightarrow> (cont g = Some (Ret g') \<longleftrightarrow>
       (\<exists>n q e. steps_between n (gdb_arm g, target_exception g) = Some (q, e) \<and> stops_at q \<and>
          g' = answered (g\<lparr>gdb_arm := q, target_exception := e\<rparr>) ''S05'')))"
proof (intro conjI impI)
  assume "next_instruction (gdb_arm g) = None"
  then have "cont_loop (gdb_arm g) (target_exception g) None = Some Undef"
    using assms(1) by (subst cont_loop.simps) (simp add: peek_next)
  then show "cont g = Some Undef" by (simp add: cont_def)
next
  assume "next_instruction (gdb_arm g) \<noteq> None"
  then have m: "remembers (gdb_arm g) None" using assms(1) by (simp add: remembers_def)
  have answer: "gdb_send_stop_reason (g\<lparr>gdb_arm := q, target_exception := e\<rparr>) =
      Ret (answered (g\<lparr>gdb_arm := q, target_exception := e\<rparr>) ''S05'')" if "e \<in> {0, 1}" for q e
    using that assms(2) by (auto simp: gdb_send_stop_reason_def gdb_sends answered_def UNDEFINED_INSTRUCTION_def
        PREFETCH_ABORT_def DATA_ABORT_def)
  have "cont g = Some (Ret g') \<longleftrightarrow> (\<exists>q e. cont_loop (gdb_arm g) (target_exception g) None = Some (Ret (q, e)) \<and>
      gdb_send_stop_reason (g\<lparr>gdb_arm := q, target_exception := e\<rparr>) = Ret g')"
    by (auto simp: cont_def)
  also have "\<dots> \<longleftrightarrow> (\<exists>q e. (\<exists>n. steps_between n (gdb_arm g, target_exception g) = Some (q, e)) \<and> stops_at q \<and>
      gdb_send_stop_reason (g\<lparr>gdb_arm := q, target_exception := e\<rparr>) = Ret g')"
    unfolding cont_loop_iff [OF m] by blast
  also have "\<dots> \<longleftrightarrow> (\<exists>n q e. steps_between n (gdb_arm g, target_exception g) = Some (q, e) \<and> stops_at q \<and>
      g' = answered (g\<lparr>gdb_arm := q, target_exception := e\<rparr>) ''S05'')"
  proof -
    have "gdb_send_stop_reason (g\<lparr>gdb_arm := q, target_exception := e\<rparr>) = Ret g' \<longleftrightarrow>
        g' = answered (g\<lparr>gdb_arm := q, target_exception := e\<rparr>) ''S05''"
      if "steps_between n (gdb_arm g, target_exception g) = Some (q, e)" for n q e
      using answer [OF steps_between_status [OF that assms(1,3)], of q] by auto
    then show ?thesis by blast
  qed
  finally show "cont g = Some (Ret g') \<longleftrightarrow> (\<exists>n q e. steps_between n (gdb_arm g, target_exception g) = Some (q, e) \<and>
      stops_at q \<and> g' = answered (g\<lparr>gdb_arm := q, target_exception := e\<rparr>) ''S05'')" .
qed

lemma fetch_address_write [simp]:
  "fetch_address (arm_write_register p n v) = (if n = 15 then v AND 0xFFFFFFFD else fetch_address p)"
  "fetch_address (arm_write_cpsr p w) = fetch_address p"
  by (simp_all add: fetch_address_def core_regs.rd_wr_same core_regs.rd_wr_other)
    (simp add: arm_write_cpsr_def)

lemma fetched_reads:
  "n \<noteq> 15 \<Longrightarrow> arm_read_register (fetched p) n = arm_read_register p n"
  "fetch_address (fetched p) = (fetch_address p + 4) AND 0xFFFFFFFD"
  by (simp_all add: fetched_def)

text \<open>The instruction moves the byte \<open>b\<close> to the register \<open>n\<close>.\<close>

definition moves_byte :: "u32 \<Rightarrow> u8 \<Rightarrow> u32 \<Rightarrow> bool" where
  "moves_byte i n b \<longleftrightarrow> class_of i = Data \<and> condition_field i = 14 \<and> bit i 25 \<and> rotation i = 0 \<and> opcode_of i = 13 \<and>
     \<not> bit i 20 \<and> rd_of i = n \<and> take_bit 8 i = b \<and> \<not> breakpoint i"

lemma run_mov_byte:
  assumes "moves_byte i n b"
  shows "handler_of (class_of i) f i = Ret (0, arm_write_register f n b)"
  using assms by (simp add: moves_byte_def arm_data_processing_shift_eq ConditionPassed_cases(1) decode_operand_eq
      apply_rotation_imm_eq dp_run_def dp_switch_simps arm_mov_eq)

text \<open>A move to \<^verbatim>\<open>r0\<close>, and gdb's breakpoint behind it.\<close>

definition stopping_core :: arm_core where
  "stopping_core = put_word (put_word sample_core 0 0xE3A00005) 4 0xE7F000F0"

theorem continue_returns_at_breakpoint_witness:
  "\<exists>g'. cont (gdb_init_data stopping_core) = Some (Ret g') \<and> gdb_out g' = frame ''S05'' \<and>
     arm_read_register (gdb_arm g') 0 = 5"
proof -
  let ?g = "gdb_init_data stopping_core"
  let ?q = "arm_write_register (fetched stopping_core) 0 5"
  have p: "core_wf stopping_core" by (simp add: stopping_core_def sample_core_wf put_wf)
  have first: "next_instruction stopping_core = Some 0xE3A00005" "fetch_address stopping_core = 0"
    "word_at stopping_core 4 = Some 0xE7F000F0" "moves_byte 0xE3A00005 0 5" "\<not> gdb_breakpoint 0xE3A00005"
    "gdb_breakpoint 0xE7F000F0" by code_simp+
  have step: "arm_step stopping_core = Ret (0, ?q)"
    using p first(1) by (simp add: arm_step_eq run_mov_byte [OF first(4)] del: handler_of.simps)
  have "next_instruction ?q = Some 0xE7F000F0" using first(2,3)
    by (simp add: next_instruction_def fetched_reads) (simp add: fetched_def)
  then have q: "steps_between 1 (stopping_core, 0) = Some (?q, 0)" "stops_at ?q"
    using first step by (simp_all add: stops_at_def)
  have "core_wf (gdb_arm ?g)" "\<not> gdb_shut ?g" "target_exception ?g \<in> {0, 1}"
    by (simp_all add: gdb_init_data_def stopping_core_def sample_core_wf put_wf)
  note iff = continue_returns_at_breakpoint [OF this]
  let ?h = "answered (?g\<lparr>gdb_arm := ?q, target_exception := 0\<rparr>) ''S05''"
  have "steps_between 1 (gdb_arm ?g, target_exception ?g) = Some (?q, 0)" using q(1) by (simp add: gdb_init_data_def)
  moreover have "next_instruction (gdb_arm ?g) \<noteq> None" using first(1) by (simp add: gdb_init_data_def)
  ultimately have "cont ?g = Some (Ret ?h)" using iff [of ?h] q(2) by blast
  then show ?thesis by (simp add: answered_def gdb_init_data_def)
qed

text \<open>
  Fact: a continue into a program that loops does not return, and so neither answers gdb
  nor gives the lock back: at a branch to itself there is no result, whatever was remembered.
\<close>

theorem continue_diverges_on_self_branch:
  assumes "core_wf p" and "next_instruction p = Some 0xEAFFFFFE"
  shows "cont_loop p e mem = None"
proof (rule ccontr)
  assume "cont_loop p e mem \<noteq> None"
  then obtain r where r: "cont_loop p e mem = Some r" by auto
  define P where "P s \<longleftrightarrow> core_wf (fst s) \<and> next_instruction (fst s) = Some 0xEAFFFFFE"
    for s :: "arm_core \<times> int \<times> u32 option"
  have b: "class_of 0xEAFFFFFE = Branch" "\<not> bit (0xEAFFFFFE :: u32) 24" "bit (0xEAFFFFFE :: u32) 23"
    "branch_offset 0xEAFFFFFE = - 8" "\<not> breakpoint 0xEAFFFFFE" "condition_field 0xEAFFFFFE = 14"
    by code_simp+
  show False
  proof (rule cont_loop_never [OF r, of P])
    show "P (p, e, mem)" using assms by (simp add: P_def)
    fix p e mem assume "P (p, e, mem :: u32 option)"
    then have p: "core_wf p" "next_instruction p = Some 0xEAFFFFFE" by (simp_all add: P_def)
    let ?q = "arm_write_register (fetched p) 15 (fetch_address p)"
    have "arm_branch (fetched p) 0xEAFFFFFE = (0, ?q)"
      using ConditionPassed_cases(1) [OF b(6)] by (simp add: arm_branch_eq b fetched_pc)
    then have "arm_step p = Ret (0, ?q)" using p b by (simp add: arm_step_eq)
    moreover have "fetch_address ?q = fetch_address p"
      by (simp add: fetch_address_def core_regs.rd_wr_same)
    then have "next_instruction ?q = next_instruction p"
      by (simp add: next_instruction_def) (simp add: fetched_def)
    ultimately show "\<exists>i p' e'. peek_instruction p mem = Ret (Some i) \<and> \<not> breakpoint i \<and>
        arm_step p = Ret (e', p') \<and> P (p', e', Some i)"
      using p b by (auto simp: peek_next P_def)
  qed
qed

theorem continue_diverges_on_self_branch_witness:
  "cont_loop (put_word sample_core 0 0xEAFFFFFE) 0 None = None"
proof -
  have "core_wf (put_word sample_core 0 0xEAFFFFFE)" by (simp add: sample_core_wf put_wf)
  moreover have "next_instruction (put_word sample_core 0 0xEAFFFFFE) = Some 0xEAFFFFFE" by code_simp
  ultimately show ?thesis by (rule continue_diverges_on_self_branch)
qed

section \<open>One answer to every packet\<close>

definition answers :: "gdb_protocol_data \<Rightarrow> gdb_protocol_data \<Rightarrow> bool" where
  "answers g g' \<longleftrightarrow> (\<exists>s. gdb_out g' = gdb_out g @ frame s \<and> gdb_packet g' = frame s) \<and>
     gdb_shut g' = gdb_shut g \<and> (core_wf (gdb_arm g) \<longrightarrow> core_wf (gdb_arm g') \<and>
     mem_kind (core_mem (gdb_arm g')) = mem_kind (core_mem (gdb_arm g)))"

lemma answers_send:
  assumes "gdb_send_data (g\<lparr>gdb_arm := p, target_exception := e\<rparr>) s = Ret g'"
    and "core_wf (gdb_arm g) \<Longrightarrow> core_wf p \<and> mem_kind (core_mem p) = mem_kind (core_mem (gdb_arm g))"
  shows "answers g g'"
  using assms by (auto simp: answers_def gdb_sends split: if_splits)

lemma answers_sends:
  "gdb_send_data g s = Ret g' \<Longrightarrow> answers g g'"
  "gdb_send_buffer g s = Ret g' \<Longrightarrow> answers g g'"
  by (auto simp: answers_def gdb_sends split: if_splits)

lemma answers_send_arm:
  assumes "gdb_send_data (g\<lparr>gdb_arm := p\<rparr>) s = Ret g'"
    and "core_wf (gdb_arm g) \<Longrightarrow> core_wf p \<and> mem_kind (core_mem p) = mem_kind (core_mem (gdb_arm g))"
  shows "answers g g'"
  using assms by (auto simp: answers_def gdb_sends split: if_splits)

lemma stop_reason_answers:
  assumes "gdb_send_stop_reason (g\<lparr>gdb_arm := p, target_exception := e\<rparr>) = Ret g'"
    and "core_wf (gdb_arm g) \<Longrightarrow> core_wf p \<and> mem_kind (core_mem p) = mem_kind (core_mem (gdb_arm g))"
  shows "answers g g'"
  using answers_send [OF _ assms(2)] assms(1)
  by (auto simp: gdb_send_stop_reason_def split: if_splits)

lemma cont_loop_wf:
  assumes "cont_loop p e mem = Some (Ret (q, e'))" and "core_wf p"
  shows "core_wf q \<and> mem_kind (core_mem q) = mem_kind (core_mem p)"
proof -
  from cont_loop_reaches [OF assms(1)] obtain mem' where
    "cont_turn\<^sup>*\<^sup>* (p, e, mem) (q, e', mem')" by blast
  then have "core_wf (fst (q, e', mem')) \<and>
      mem_kind (core_mem (fst (q, e', mem'))) = mem_kind (core_mem p)"
  proof (induction rule: rtranclp_induct)
    case (step t u)
    from step.hyps(2) obtain st where "arm_step (fst t) = Ret (st, fst u)"
      by (auto elim: cont_turn.cases)
    with step.IH step_wf [of "fst t" st "fst u"] show ?case by simp
  qed (simp add: assms(2))
  then show ?thesis by simp
qed

lemma fill_memory_wf:
  "mem_wf m \<Longrightarrow> fill_memory m a n content = Ret (ok, m') \<Longrightarrow> mem_wf m' \<and> mem_kind m' = mem_kind m"
proof (induction n arbitrary: m a content)
  case (Suc n)
  obtain c cs where content: "content = c # cs" using Suc.prems(2) by (cases content) auto
  define D where "D = (if byte_of c = 0x7d
    then case cs of [] \<Rightarrow> Undef | d # ds \<Rightarrow> Ret (byte_of d XOR 0x20, ds) else Ret (byte_of c, cs))"
  have "cbind D (\<lambda>(value, rest). cbind (memory_write_byte m a value) (\<lambda>(status, m').
      if status = 0 then fill_memory m' (a + 1) n rest else Ret (False, m'))) = Ret (ok, m')"
    using Suc.prems(2) by (simp only: content fill_memory.simps list.case D_def)
  then obtain v rest where "cbind (memory_write_byte m a v) (\<lambda>(status, m').
      if status = 0 then fill_memory m' (a + 1) n rest else Ret (False, m')) = Ret (ok, m')"
    by (cases D) auto
  moreover obtain s m1 where w: "memory_write_byte m a v = Ret (s, m1)" "mem_wf m1" "mem_kind m1 = mem_kind m"
    using byte_port.wr_total [OF Suc.prems(1), of a v] by auto
  ultimately have "(if s = 0 then fill_memory m1 (a + 1) n rest else Ret (False, m1)) = Ret (ok, m')"
    by simp
  with Suc.IH [OF w(2)] w show ?case by (auto split: if_splits)
qed simp

lemma write_registers_keeps: "write_registers be junk is p pos = Ret q \<Longrightarrow> keeps p q"
  by (induction "is" arbitrary: p pos) (auto, metis keeps_writes(1) keeps_trans keeps_refl)

lemma answers_if_keeps:
  assumes "gdb_send_data (g\<lparr>gdb_arm := p\<rparr>) s = Ret g'" and "keeps (gdb_arm g) p"
  shows "answers g g'"
  using assms(2) by (intro answers_send_arm [OF assms(1)]) (auto simp: keeps_def)

lemma write_memory_answers:
  assumes "write_memory_binary g data = Ret g'"
  shows "answers g g'"
proof -
  let ?m = "core_mem (gdb_arm g)"
  from assms obtain s where s: "cstr data = Ret s" by (cases "cstr data") (simp_all add: write_memory_binary_def)
  obtain oa on where pair: "scan_hex_pair s = (oa, on)" by force
  from assms s pair obtain a n where "oa = Some a" "on = Some n"
    by (cases oa; cases on) (simp_all add: write_memory_binary_def)
  with assms s pair obtain c where c: "after_char CHR '':'' s = Some c"
    by (cases "after_char CHR '':'' s") (simp_all add: write_memory_binary_def)
  define F where "F = (if unat a < memory_get_size ?m
    then fill_memory ?m a (unat n) (the (after_char CHR '':'' data)) else Ret (False, ?m))"
  have "cbind F (\<lambda>(write_ok, m). gdb_send_data (g\<lparr>gdb_arm := (gdb_arm g)\<lparr>core_mem := m\<rparr>\<rparr>)
      (if write_ok then ''OK'' else ''E02'')) = Ret g'"
    using assms by (simp only: write_memory_binary_def s cbind_simps pair \<open>oa = Some a\<close> \<open>on = Some n\<close>
        prod.case option.case c Let_def F_def)
  then obtain ok m where F: "F = Ret (ok, m)" and sent:
    "gdb_send_data (g\<lparr>gdb_arm := (gdb_arm g)\<lparr>core_mem := m\<rparr>\<rparr>) (if ok then ''OK'' else ''E02'') = Ret g'"
    by (cases F) auto
  have "mem_wf m \<and> mem_kind m = mem_kind ?m" if "mem_wf ?m"
    using F that fill_memory_wf [OF that] by (auto simp: F_def split: if_splits)
  then show ?thesis by (intro answers_send_arm [OF sent]) (simp_all add: core_wf_def)
qed

lemma cont_answers: "cont g = Some (Ret g') \<Longrightarrow> answers g g'"
proof -
  assume "cont g = Some (Ret g')"
  then obtain r where r: "cont_loop (gdb_arm g) (target_exception g) None = Some r"
    "cbind r (\<lambda>(p, e). gdb_send_stop_reason (g\<lparr>gdb_arm := p, target_exception := e\<rparr>)) = Ret g'"
    by (auto simp: cont_def)
  then obtain p e where p: "r = Ret (p, e)"
    "gdb_send_stop_reason (g\<lparr>gdb_arm := p, target_exception := e\<rparr>) = Ret g'"
    by (cases r) auto
  from r(1) p(1) have "core_wf (gdb_arm g) \<Longrightarrow> core_wf p \<and> mem_kind (core_mem p) = mem_kind (core_mem (gdb_arm g))"
    by (intro cont_loop_wf) simp_all
  then show ?thesis by (rule stop_reason_answers [OF p(2)])
qed

lemma step_answers: "step_cmd g = Ret g' \<Longrightarrow> answers g g'"
proof -
  assume "step_cmd g = Ret g'"
  then obtain e p where p: "arm_step (gdb_arm g) = Ret (e, p)"
    "gdb_send_stop_reason (g\<lparr>gdb_arm := p, target_exception := e\<rparr>) = Ret g'"
    by (auto simp: step_cmd_def)
  have "core_wf (gdb_arm g) \<Longrightarrow> core_wf p \<and> mem_kind (core_mem p) = mem_kind (core_mem (gdb_arm g))"
    using step_wf [OF _ p(1)] by simp
  then show ?thesis by (rule stop_reason_answers [OF p(2)])
qed

lemma write_registers_answers: "write_general_registers be junk g data = Ret g' \<Longrightarrow> answers g g'"
  by (auto simp: write_general_registers_def intro!: answers_if_keeps dest: write_registers_keeps)

lemma write_register_answers:
  assumes "write_register_cmd be junk g data = Ret g'"
  shows "answers g g'"
proof -
  from assms obtain s where s: "cstr data = Ret s" by (cases "cstr data") (simp_all add: write_register_cmd_def)
  with assms obtain reg t where r: "scan_hex None s = Some (reg, t)"
    by (cases "scan_hex None s") (auto simp: write_register_cmd_def)
  with assms s obtain c where c: "after_char CHR ''='' s = Some c"
    by (cases "after_char CHR ''='' s") (simp_all add: write_register_cmd_def)
  with assms s r obtain v where "gdb_send_data
      (g\<lparr>gdb_arm := arm_write_register (gdb_arm g) (ucast reg) v\<rparr>) ''OK'' = Ret g'"
    by (auto simp: write_register_cmd_def split: if_splits)
  then show ?thesis by (rule answers_if_keeps) simp
qed

lemma read_memory_answers:
  assumes "read_memory g data = Ret g'"
  shows "answers g g'"
proof -
  from assms obtain s where s: "cstr data = Ret s" by (cases "cstr data") (simp_all add: read_memory_def)
  obtain oa on where "scan_hex_pair s = (oa, on)" by force
  with assms s obtain reply where "gdb_send_buffer g reply = Ret g'"
    by (cases oa; cases on) (auto simp: read_memory_def)
  then show ?thesis by (rule answers_sends)
qed

lemma run_handler_answers:
  assumes "run_handler be junk h g data = Some (Ret g')" and "h \<noteq> KillRequest"
  shows "answers g g'"
proof (cases h)
  case Query
  with assms show ?thesis
    by (auto simp: query_def intro: answers_sends split: if_splits)
next
  case ReadGeneralRegisters
  with assms show ?thesis by (auto simp: read_general_registers_def Let_def intro: answers_sends)
next
  case ReadRegister
  with assms show ?thesis
    by (auto simp: read_register_cmd_def Let_def intro: answers_sends split: if_splits)
next
  case Reason
  with assms show ?thesis
    by (auto simp: reason_def gdb_send_stop_reason_def intro: answers_sends split: if_splits)
next
  case SetThread
  with assms show ?thesis
    by (auto simp: set_thread_def Let_def intro: answers_sends split: if_splits list.splits)
qed (use assms cont_answers step_answers read_memory_answers write_registers_answers
    write_memory_answers write_register_answers in auto)

text \<open>The three ways an analysis that returns can end.\<close>

definition outcome :: "gdb_protocol_data \<Rightarrow> gdb_protocol_data \<Rightarrow> bool" where
  "outcome g g' \<longleftrightarrow> g' = g\<lparr>gdb_out := gdb_out g @ ''-''\<rparr> \<or> answers (acked g) g' \<or>
     g' = (acked g)\<lparr>gdb_shut := True\<rparr>"

lemma packet_analysis_outcome:
  assumes "gdb_packet_analysis be junk g packet len = Some (Ret g')"
  shows "outcome g g'"
proof -
  define i where "i = max 1 (len - 3)"
  note A = assms [unfolded gdb_packet_analysis_def Let_def, folded i_def]
  have room: "\<not> length packet \<le> i + 1" using A by (auto split: if_splits)
  define check where "check = checksum (take (i - 1) (drop 1 packet))"
  obtain s where s: "cstr (drop (i + 1) packet) = Ret s"
    using A room by (cases "cstr (drop (i + 1) packet)") simp_all
  obtain given t where given: "scan_hex None s = Some (given, t)"
    using A room s by (cases "scan_hex None s") auto
  have eq: "(if ucast check = given
      then (case gdb_send_ack g of
          Ret g \<Rightarrow> (case gdb_init (packet[i := NUL] ! 1) of
                Some h \<Rightarrow> run_handler be junk h g (drop 2 (packet[i := NUL]))
              | None \<Rightarrow> Some (gdb_send_data g ''''))
        | Exit \<Rightarrow> Some Exit | Undef \<Rightarrow> Some Undef)
      else Some (gdb_require_retransmission g)) = Some (Ret g')"
    using A room unfolding check_def [symmetric]
    by (simp only: s given if_False cres.case option.case prod.case)
  show ?thesis
  proof (cases "ucast check = given")
    case False
    with eq show ?thesis
      by (auto simp: gdb_require_retransmission_def gdb_write_def outcome_def split: if_splits)
  next
    case True
    with eq have ack: "gdb_send_ack g = Ret (acked g)"
      by (auto simp: gdb_send_ack_def gdb_write_def acked_def split: if_splits)
    show ?thesis
    proof (cases "gdb_init (packet[i := NUL] ! 1)")
      case None
      with True eq ack show ?thesis by (auto simp: outcome_def intro: answers_sends)
    next
      case (Some h)
      with True eq ack have h: "run_handler be junk h (acked g) (drop 2 (packet[i := NUL])) = Some (Ret g')"
        by simp
      then show ?thesis
        by (cases "h = KillRequest") (auto simp: outcome_def kill_request_def intro: run_handler_answers)
    qed
  qed
qed

text \<open>
  Property C6: every packet analysis that returns does one of three things. It refuses the packet
  with a minus, changing nothing else; or it writes a plus and exactly one framed answer, keeps it for retransmission and keeps the
  processor well formed; or, for the kill request only, it writes a plus and shuts the
  connection's write side.
\<close>

theorem one_answer_per_packet:
  assumes "gdb_packet_analysis be junk g packet len = Some (Ret g')"
  shows "g' = g\<lparr>gdb_out := gdb_out g @ ''-''\<rparr> \<or>
    g' = g\<lparr>gdb_out := gdb_out g @ ''+'', gdb_shut := True\<rparr> \<or>
    (\<exists>s. gdb_out g' = gdb_out g @ ''+'' @ frame s \<and> gdb_packet g' = frame s \<and> gdb_shut g' = gdb_shut g) \<and>
      (core_wf (gdb_arm g) \<longrightarrow> core_wf (gdb_arm g') \<and>
        mem_kind (core_mem (gdb_arm g')) = mem_kind (core_mem (gdb_arm g)))"
  using packet_analysis_outcome [OF assms] by (auto simp: outcome_def answers_def acked_def)

theorem one_answer_per_packet_witness:
  "\<exists>s. gdb_out (answered (acked (gdb_init_data sample_core)) ''S05'') = ''+'' @ frame s"
proof -
  let ?g = "gdb_init_data sample_core" and ?g' = "answered (acked (gdb_init_data sample_core)) ''S05''"
  have "gdb_packet_analysis True 0 ?g (CHR ''$'' # ''?'' @ CHR ''#'' # hex_byte 0x3f @ NUL # []) (length ''?'' + 4) = Some (Ret ?g')"
    by (subst packet_analysis_eq)
      (auto simp: gdb_init_data_def gdb_init_def NUL_def checksum_def byte_of_def reason_def
        gdb_send_stop_reason_def exception_defs gdb_sends answered_def acked_def)
  from one_answer_per_packet [OF this] show ?thesis
    by (auto simp: answered_def acked_def gdb_init_data_def)
qed

section \<open>Register numbers\<close>

text \<open>
  Fact: the single-register read takes its number in decimal, while the protocol sends it in
  hexadecimal: for the registers 10 to 15, whose numbers gdb writes as a letter, the program counter among
  them, the answer is the content of \<open>r0\<close>.
\<close>

theorem register_number_is_decimal:
  assumes "\<not> gdb_shut g" and "10 \<le> n" and "n < 16"
  shows "read_register_cmd be g (hex_number n @ NUL # rest) =
    Ret (answered g (write_uint32 be (arm_read_register (gdb_arm g) 0)))"
proof -
  have h: "hex_number n = [digit_chars False ! n]"
    using assms(3) unfolding hex_number_def by (subst digits.simps) simp
  have d: "\<not> is_digit (digit_chars False ! n)"
    using less_16_cases [OF assms(3)] assms(2) by (auto simp: digit_chars_def is_digit_def)
  have "atoi (hex_number n) = 0"
    using d digit_chars_hex [OF assms(3), of False] unfolding h
    by (simp add: atoi_def scan_sign_def number_in_def)
  then show ?thesis
    using assms(1) hex_number_plain(1) [of n]
    by (simp add: read_register_cmd_def gdb_send_buffer_eq MAX_PACKET_SIZE_def answered_def)
qed

theorem register_number_is_decimal_witness:
  "read_register_cmd True (gdb_init_data sample_core) (hex_number 15 @ NUL # []) =
     Ret (answered (gdb_init_data sample_core) (write_uint32 True (arm_read_register sample_core 0)))"
  using register_number_is_decimal [of "gdb_init_data sample_core" 15 True "[]"]
  by (simp add: gdb_init_data_def)

end
