(* ===== verification/Scanner.thy ===== *)
theory Scanner
  imports Gdb_Props
begin

text \<open>
  The scanner of gdb's byte stream. \<^verbatim>\<open>scanner.l\<close> gives four rules and \<^verbatim>\<open>scanner.c\<close> the automaton flex
  built from them: compressed tables and a loop that matches the longest token, backing up to the
  last accepting state. The tables and the loop are translated as they are. The input here is
  the whole stream up to its end, and a NUL of the stream has the class 1 that
  \<^verbatim>\<open>yy_try_NUL_trans\<close> gives it; the buffer, its refills, which restart the automaton on the text already
  read, and its treatment of NULs are in \<open>Scanner_Buffer\<close>.

  The lemmas show that the automaton's tokens are those of the rules, that every token makes
  progress, and that a framed packet in the stream reaches the analysis of the gdb server.
\<close>

section \<open>Tables\<close>

definition yy_accept :: "nat list" where
  "yy_accept =
    [0, 0, 0, 6, 4, 5, 4, 1, 2, 0, 0, 0, 3, 0]"

definition yy_ec :: "nat list" where
  "yy_ec =
    [0, 1, 1, 1, 1, 1, 1, 1, 1, 1, 2, 1, 1, 1, 1, 1, 1, 1, 1, 1, 1, 1, 1, 1, 1, 1, 1, 1, 1, 1, 1, 1,
     1, 1, 1, 3, 4, 1, 1, 1, 1, 1, 1, 5, 1, 6, 1, 1, 7, 7, 7, 7, 7, 7, 7, 7, 7, 7, 1, 1, 1, 1, 1, 1,
     1, 7, 7, 7, 7, 7, 7, 1, 1, 1, 1, 1, 1, 1, 1, 1, 1, 1, 1, 1, 1, 1, 1, 1, 1, 1, 1, 1, 1, 1, 1, 1,
     1, 7, 7, 7, 7, 7, 7, 1, 1, 1, 1, 1, 1, 1, 1, 1, 1, 1, 1, 1, 1, 1, 1, 1, 1, 1, 1, 1, 1, 1, 1, 1,
     1, 1, 1, 1, 1, 1, 1, 1, 1, 1, 1, 1, 1, 1, 1, 1, 1, 1, 1, 1, 1, 1, 1, 1, 1, 1, 1, 1, 1, 1, 1, 1,
     1, 1, 1, 1, 1, 1, 1, 1, 1, 1, 1, 1, 1, 1, 1, 1, 1, 1, 1, 1, 1, 1, 1, 1, 1, 1, 1, 1, 1, 1, 1, 1,
     1, 1, 1, 1, 1, 1, 1, 1, 1, 1, 1, 1, 1, 1, 1, 1, 1, 1, 1, 1, 1, 1, 1, 1, 1, 1, 1, 1, 1, 1, 1, 1,
     1, 1, 1, 1, 1, 1, 1, 1, 1, 1, 1, 1, 1, 1, 1, 1, 1, 1, 1, 1, 1, 1, 1, 1, 1, 1, 1, 1, 1, 1, 1, 1]"

definition yy_meta :: "nat list" where
  "yy_meta =
    [0, 1, 1, 1, 2, 1, 1, 1]"

definition yy_base :: "nat list" where
  "yy_base =
    [0, 0, 0, 13, 14, 14, 9, 14, 14, 8, 3, 2, 14, 14, 7]"

definition yy_def :: "nat list" where
  "yy_def =
    [0, 13, 1, 13, 13, 13, 14, 13, 13, 14, 13, 13, 13, 0, 13]"

definition yy_nxt :: "nat list" where
  "yy_nxt =
    [0, 4, 5, 4, 6, 7, 8, 4, 9, 12, 11, 10, 10, 13, 3, 13,
     13, 13, 13, 13, 13, 13]"

definition yy_chk :: "nat list" where
  "yy_chk =
    [0, 1, 1, 1, 1, 1, 1, 1, 14, 11, 10, 9, 6, 3, 13, 13,
     13, 13, 13, 13, 13, 13]"

section \<open>The automaton\<close>

text \<open>
  The inner loop follows the default states until the transition belongs to the state. The fuel of 4 is
  more than the longest chain of default states (\<open>yy_settle_total\<close>).
\<close>

fun yy_settle :: "nat \<Rightarrow> nat \<Rightarrow> nat \<Rightarrow> (nat \<times> nat) option" where
  "yy_settle fuel s c =
     (if yy_chk ! (yy_base ! s + c) = s then Some (s, c)
      else case fuel of 0 \<Rightarrow> None
        | Suc n \<Rightarrow> let s = yy_def ! s in yy_settle n s (if 14 \<le> s then yy_meta ! c else c))"

declare yy_settle.simps [simp del]

definition yy_trans :: "nat \<Rightarrow> nat \<Rightarrow> nat" where
  "yy_trans s c = (case yy_settle 4 s c of None \<Rightarrow> 0 | Some (s, c) \<Rightarrow> yy_nxt ! (yy_base ! s + c))"

definition yy_class :: "char \<Rightarrow> nat" where
  "yy_class c = (if c = NUL then 1 else yy_ec ! of_char c)"

definition yy_start :: nat where
  "yy_start = 1"

text \<open>The match: the state and position reached, and the last accepting state with its position.\<close>

fun yy_match :: "string \<Rightarrow> nat \<Rightarrow> nat \<Rightarrow> nat \<times> nat \<Rightarrow> nat \<times> nat \<times> nat \<times> nat" where
  "yy_match [] s pos acc = (s, pos, acc)"
| "yy_match (c # cs) s pos acc =
     (let acc = (if yy_accept ! s \<noteq> 0 then (s, pos) else acc);
          s = yy_trans s (yy_class c)
      in if yy_base ! s = 14 then (s, pos + 1, acc) else yy_match cs s (pos + 1) acc)"

definition yy_find_action :: "nat \<times> nat \<times> nat \<times> nat \<Rightarrow> nat \<times> nat" where
  "yy_find_action r = (case r of (s, pos, last_s, last_pos) \<Rightarrow>
     let act = yy_accept ! s
     in if act = 0 then (yy_accept ! last_s, last_pos) else (act, pos))"

text \<open>The next token of a stream that is not empty: the number of its rule and its length.\<close>

definition yy_token :: "string \<Rightarrow> nat \<times> nat" where
  "yy_token input = yy_find_action (yy_match input yy_start 0 (0, 0))"

text \<open>
  After a refill the automaton runs again on the text of the current token, and records its accepting
  states again; \<open>text\<close> is that text, \<open>pos\<close> counts from its start.
\<close>

fun yy_previous :: "string \<Rightarrow> nat \<Rightarrow> nat \<Rightarrow> nat \<times> nat \<Rightarrow> nat \<times> nat \<times> nat" where
  "yy_previous [] s pos acc = (s, acc)"
| "yy_previous (c # cs) s pos acc =
     yy_previous cs (yy_trans s (yy_class c)) (pos + 1) (if yy_accept ! s \<noteq> 0 then (s, pos) else acc)"

definition yy_get_previous_state :: "string \<Rightarrow> nat \<times> nat \<Rightarrow> nat \<times> nat \<times> nat" where
  "yy_get_previous_state text acc = yy_previous text yy_start 0 acc"

definition yy_try_NUL_trans :: "nat \<Rightarrow> nat \<Rightarrow> nat \<times> nat \<Rightarrow> nat \<times> nat \<times> nat" where
  "yy_try_NUL_trans s pos acc =
     (let acc = (if yy_accept ! s \<noteq> 0 then (s, pos) else acc);
          s = yy_trans s 1;
          yy_is_jam = (s = 13)
      in (if yy_is_jam then 0 else s, acc))"

section \<open>Actions\<close>

record parser_data =
  pd_gdb :: gdb_protocol_data
  pd_buffer :: string

definition MAX_ERROR_SIZE :: nat where
  "MAX_ERROR_SIZE = 1024"

definition handle_error :: "parser_data \<Rightarrow> parser_data cres" where
  "handle_error d =
     (if length (pd_buffer d) \<noteq> 0
      then cbind (gdb_require_retransmission (pd_gdb d)) (\<lambda>g. Ret \<lparr>pd_gdb = g, pd_buffer = []\<rparr>)
      else Ret d)"

definition add_character_to_error :: "parser_data \<Rightarrow> char \<Rightarrow> parser_data cres" where
  "add_character_to_error d c =
     cbind (if MAX_ERROR_SIZE - 2 < length (pd_buffer d) then handle_error d else Ret d) (\<lambda>d.
       if length (pd_buffer d) < MAX_ERROR_SIZE then Ret (d\<lparr>pd_buffer := pd_buffer d @ [c]\<rparr>) else Undef)"

text \<open>
  The action of a rule on its token. The text of a packet is the token, the NUL that replaces the byte
  after it and \<open>rest\<close>, what the scanner's buffer holds behind. Rule 5 echoes a newline to the
  standard output.
\<close>

definition yy_action :: "bool \<Rightarrow> u32 \<Rightarrow> string \<Rightarrow> parser_data \<Rightarrow> nat \<Rightarrow> string \<Rightarrow> parser_data cres option" where
  "yy_action be junk rest d act text =
     (if act = 1 then Some (handle_error d)
      else if act = 2
      then Some (cbind (handle_error d) (\<lambda>d.
             cbind (gdb_transmit_packet (pd_gdb d)) (\<lambda>g. Ret (d\<lparr>pd_gdb := g\<rparr>))))
      else if act = 3
      then (case handle_error d of
              Ret d \<Rightarrow> map_option (\<lambda>r. cbind r (\<lambda>g. Ret (d\<lparr>pd_gdb := g\<rparr>)))
                 (gdb_packet_analysis be junk (pd_gdb d) (text @ NUL # rest) (length text))
            | Exit \<Rightarrow> Some Exit | Undef \<Rightarrow> Some Undef)
      else if act = 4 then Some (add_character_to_error d (hd text))
      else if act = 5 then Some (Ret d)
      else Some Exit)"

section \<open>Tokens by the rules\<close>

text \<open>A text that a packet can carry: any bytes, NUL too, but the two that delimit packets.\<close>

definition packet_text :: "string \<Rightarrow> bool" where
  "packet_text s \<longleftrightarrow> list_all (\<lambda>c. c \<noteq> CHR ''$'' \<and> c \<noteq> CHR ''#'') s"

definition packet_end :: "string \<Rightarrow> nat option" where
  "packet_end cs =
     (let body = takeWhile (\<lambda>c. c \<noteq> CHR ''$'' \<and> c \<noteq> CHR ''#'') cs
      in case drop (length body) cs of
           h # a # b # _ \<Rightarrow> if h = CHR ''#'' \<and> is_hex a \<and> is_hex b then Some (length body + 3) else None
         | _ \<Rightarrow> None)"

fun rule_token :: "string \<Rightarrow> nat \<times> nat" where
  "rule_token [] = (0, 0)"
| "rule_token (c # cs) =
     (if c = CHR ''+'' then (1, 1)
      else if c = CHR ''-'' then (2, 1)
      else if c = CHR 0x0A then (5, 1)
      else if c = CHR ''$''
      then (case packet_end cs of None \<Rightarrow> (4, 1) | Some n \<Rightarrow> (3, 1 + n))
      else (4, 1))"

section \<open>The automaton implements the rules\<close>

text \<open>The states a token passes through, and where each class leads.\<close>

lemma yy_transitions:
  "map (yy_trans 1) [1, 2, 3, 4, 5, 6, 7] = [4, 5, 4, 6, 7, 8, 4]"
  "map (yy_trans 6) [1, 2, 3, 4, 5, 6, 7] = [9, 9, 10, 13, 9, 9, 9]"
  "map (yy_trans 9) [1, 2, 3, 4, 5, 6, 7] = [9, 9, 10, 13, 9, 9, 9]"
  "map (yy_trans 10) [1, 2, 3, 4, 5, 6, 7] = [13, 13, 13, 13, 13, 13, 11]"
  "map (yy_trans 11) [1, 2, 3, 4, 5, 6, 7] = [13, 13, 13, 13, 13, 13, 12]"
  by code_simp+

lemma yy_settle_total:
  "list_all (\<lambda>s. list_all (\<lambda>c. yy_settle 4 s c \<noteq> None) [1, 2, 3, 4, 5, 6, 7]) [1, 3, 4, 5, 6, 7, 8, 9, 10, 11, 12]"
  by code_simp

definition rule_class :: "char \<Rightarrow> nat" where
  "rule_class c =
     (if c = CHR 0x0A then 2 else if c = CHR ''#'' then 3 else if c = CHR ''$'' then 4
      else if c = CHR ''+'' then 5 else if c = CHR ''-'' then 6 else if is_hex c then 7 else 1)"

lemma rule_classes: "map rule_class Enum.enum = 1 # tl yy_ec"
  unfolding enum_char_def
  by (simp add: rule_class_def is_hex_def hex_value_def yy_ec_def)

lemma yy_class_eq: "yy_class c = rule_class c"
proof (cases "c = NUL")
  case True
  then show ?thesis by (simp add: yy_class_def rule_class_def NUL_def is_hex_def hex_value_def)
next
  case False
  define n where "n = (of_char c :: nat)"
  have c: "c = char_of n" by (simp add: n_def)
  have "n < 256" by (simp add: n_def)
  then have nth: "(map rule_class Enum.enum) ! n = rule_class c"
    unfolding c by (simp add: enum_char_unfold)
  have "of_char NUL = (0 :: nat)" by (simp add: NUL_def)
  then have "n \<noteq> 0" using False of_char_eq_iff [of c NUL, where 'a = nat] by (simp add: n_def)
  then obtain m where m: "n = Suc m" by (cases n) auto
  have "yy_ec = 0 # tl yy_ec" by (simp add: yy_ec_def)
  then have "yy_ec ! n = tl yy_ec ! m" unfolding m by (metis nth_Cons_Suc)
  also have "\<dots> = rule_class c" using nth unfolding rule_classes m by simp
  finally show ?thesis using False by (simp add: yy_class_def n_def)
qed

lemma rule_class_cases:
  "rule_class c \<in> {1, 2, 3, 4, 5, 6, 7}"
  "rule_class c = 3 \<longleftrightarrow> c = CHR ''#''" "rule_class c = 4 \<longleftrightarrow> c = CHR ''$''"
  "rule_class c = 7 \<longleftrightarrow> is_hex c"
  by (auto simp: rule_class_def is_hex_def hex_value_def)

lemmas yy_transition_simps = yy_transitions [simplified]

lemma yy_trans_packet:
  "yy_trans 6 (rule_class c) = yy_trans 9 (rule_class c)"
  "yy_trans 9 (rule_class c) = (if c = CHR ''#'' then 10 else if c = CHR ''$'' then 13 else 9)"
  "yy_trans 10 (rule_class c) = (if is_hex c then 11 else 13)"
  "yy_trans 11 (rule_class c) = (if is_hex c then 12 else 13)"
  unfolding rule_class_cases(2-4) [symmetric]
  using rule_class_cases(1) [of c]
  by (elim insertE emptyE; simp add: yy_transition_simps)+

lemma yy_trans_start:
  "yy_trans 1 (rule_class c) =
     (if c = CHR 0x0A then 5 else if c = CHR ''$'' then 6 else if c = CHR ''+'' then 7
      else if c = CHR ''-'' then 8 else 4)"
  unfolding rule_class_def by (simp add: yy_transition_simps)

lemma packet_end_Cons:
  "packet_end [] = None"
  "packet_end (c # cs) =
     (if c = CHR ''$'' then None
      else if c = CHR ''#'' then (case cs of a # b # _ \<Rightarrow> if is_hex a \<and> is_hex b then Some 3 else None | _ \<Rightarrow> None)
      else map_option Suc (packet_end cs))"
proof -
  show "packet_end [] = None" by (simp add: packet_end_def)
  consider "c = CHR ''$''" | "c = CHR ''#''" | "c \<noteq> CHR ''$''" "c \<noteq> CHR ''#''" by blast
  then show "packet_end (c # cs) =
     (if c = CHR ''$'' then None
      else if c = CHR ''#'' then (case cs of a # b # _ \<Rightarrow> if is_hex a \<and> is_hex b then Some 3 else None | _ \<Rightarrow> None)
      else map_option Suc (packet_end cs))"
    by cases (simp_all add: packet_end_def Let_def split: list.split)
qed

lemma yy_find_action_eq:
  "yy_find_action (s, pos, acc) =
     (if yy_accept ! s = 0 then (yy_accept ! fst acc, snd acc) else (yy_accept ! s, pos))"
  by (simp add: yy_find_action_def case_prod_beta)

lemma match_steps:
  "yy_match (c # cs) 9 pos acc =
     (if c = CHR ''#'' then yy_match cs 10 (pos + 1) acc
      else if c = CHR ''$'' then (13, pos + 1, acc) else yy_match cs 9 (pos + 1) acc)"
  "yy_match (c # cs) 10 pos acc =
     (if is_hex c then yy_match cs 11 (pos + 1) acc else (13, pos + 1, acc))"
  "yy_match (c # cs) 11 pos acc = (if is_hex c then (12, pos + 1, acc) else (13, pos + 1, acc))"
  by (simp_all only: yy_match.simps yy_class_eq yy_trans_packet Let_def)
    (simp_all add: yy_accept_def yy_base_def)

lemma find_stuck:
  "yy_find_action (13, pos, acc) = (yy_accept ! fst acc, snd acc)"
  "yy_find_action (yy_match [] s pos acc) =
     (if yy_accept ! s = 0 then (yy_accept ! fst acc, snd acc) else (yy_accept ! s, pos))"
  "yy_find_action (12, pos, acc) = (3, pos)"
  by (simp_all add: yy_find_action_eq) (simp_all add: yy_accept_def)

lemma not_accepting: "yy_accept ! 9 = 0" "yy_accept ! 10 = 0" "yy_accept ! 11 = 0"
  by (simp_all add: yy_accept_def)

lemma match_hash:
  "yy_find_action (yy_match cs 10 pos acc) =
     (case cs of a # b # _ \<Rightarrow> if is_hex a \<and> is_hex b then (3, pos + 2) else (yy_accept ! fst acc, snd acc)
      | _ \<Rightarrow> (yy_accept ! fst acc, snd acc))"
proof (cases cs)
  case (Cons a as)
  then show ?thesis
    by (cases as) (simp_all add: match_steps find_stuck not_accepting del: yy_match.simps)
qed (simp add: find_stuck not_accepting del: yy_match.simps)

lemma match_packet:
  "yy_find_action (yy_match cs 9 pos acc) =
     (case packet_end cs of Some n \<Rightarrow> (3, pos + n) | None \<Rightarrow> (yy_accept ! fst acc, snd acc))"
proof (induction cs arbitrary: pos)
  case Nil
  then show ?case by (simp add: find_stuck not_accepting packet_end_Cons del: yy_match.simps)
next
  case (Cons c cs)
  consider "c = CHR ''#''" | "c = CHR ''$''" | "c \<noteq> CHR ''$''" "c \<noteq> CHR ''#''" by blast
  then show ?case
  proof cases
    case 1
    then show ?thesis
      by (simp add: match_steps match_hash packet_end_Cons del: yy_match.simps split: list.split)
  next
    case 2
    then show ?thesis by (simp add: match_steps find_stuck packet_end_Cons del: yy_match.simps)
  next
    case 3
    then show ?thesis
      using Cons.IH [of "pos + 1"]
      by (simp add: match_steps packet_end_Cons del: yy_match.simps split: option.split)
  qed
qed

lemma match_start:
  "yy_match (c # cs) 1 0 acc =
     (if c = CHR 0x0A then (5, 1, acc) else if c = CHR ''$'' then yy_match cs 6 1 acc
      else if c = CHR ''+'' then (7, 1, acc) else if c = CHR ''-'' then (8, 1, acc) else (4, 1, acc))"
  by (simp only: yy_match.simps yy_class_eq yy_trans_start Let_def)
    (simp add: yy_accept_def yy_base_def)

lemma match_dollar:
  "yy_find_action (yy_match cs 6 1 acc) =
     (case packet_end cs of Some n \<Rightarrow> (3, 1 + n) | None \<Rightarrow> (4, 1))"
proof (cases cs)
  case Nil
  then show ?thesis by (simp add: yy_find_action_eq packet_end_Cons) (simp add: yy_accept_def)
next
  case (Cons d ds)
  have "yy_match (d # ds) 6 1 acc = yy_match (d # ds) 9 1 (6, 1)"
    by (simp only: yy_match.simps yy_class_eq yy_trans_packet(1) Let_def)
      (simp add: yy_accept_def)
  moreover have "yy_accept ! 6 = 4" by (simp add: yy_accept_def)
  ultimately show ?thesis
    using match_packet [of "d # ds" 1 "(6, 1)"] unfolding Cons
    by (simp del: yy_match.simps split: option.split)
qed

text \<open>
  Property C8: the automaton in the generated tables finds the tokens of the rules of \<^verbatim>\<open>scanner.l\<close>:
  on every stream its longest match with backing up gives the number of the rule that matches the longest
  prefix, and the length of that prefix.
\<close>

theorem automaton_implements_rules:
  "yy_token (c # cs) = rule_token (c # cs)"
proof -
  have "yy_accept ! 4 = 4" "yy_accept ! 5 = 5" "yy_accept ! 7 = 1" "yy_accept ! 8 = 2"
    by (simp_all add: yy_accept_def)
  then show ?thesis
    unfolding yy_token_def yy_start_def match_start
    by (simp add: match_dollar [unfolded One_nat_def] yy_find_action_eq del: yy_match.simps split: option.split)
qed

section \<open>The tables are well typed\<close>

text \<open>Every access to a table on the way of a state \<open>s\<close> on a class \<open>c\<close> is within its bounds.\<close>

fun settle_in_range :: "nat \<Rightarrow> nat \<Rightarrow> nat \<Rightarrow> bool" where
  "settle_in_range fuel s c \<longleftrightarrow>
     s < length yy_base \<and> s < length yy_def \<and> c < length yy_meta \<and>
     yy_base ! s + c < length yy_chk \<and> yy_base ! s + c < length yy_nxt \<and>
     (if yy_chk ! (yy_base ! s + c) = s then True
      else case fuel of 0 \<Rightarrow> False
        | Suc n \<Rightarrow> let s = yy_def ! s in settle_in_range n s (if 14 \<le> s then yy_meta ! c else c))"

declare settle_in_range.simps [simp del]

lemma tables_in_range:
  "list_all (\<lambda>s. list_all (\<lambda>c. settle_in_range 4 s c \<and> yy_settle 4 s c \<noteq> None \<and>
      3 \<le> yy_trans s c \<and> yy_trans s c \<le> 13) [0, 1, 2, 3, 4, 5, 6, 7]) [1, 2, 3, 4, 5, 6, 7, 8, 9, 10, 11, 12, 13]"
  by code_simp

lemma yy_ec_bounds: "yy_ec ! of_char c \<le> 7 \<and> (of_char c :: nat) < length yy_ec"
proof -
  have "list_all (\<lambda>k. k \<le> 7) yy_ec" "length yy_ec = 256" by (simp_all add: yy_ec_def)
  then show ?thesis by (simp add: list_all_length)
qed

text \<open>
  Property C24: the automaton is well typed. From any state of a token and on any byte the scanner's loop accesses
  the compressed tables within their bounds, comes to the end of the chain of default states, and the next
  state is one of the states 3 to 13 of the automaton again, for which there is an entry of
  \<^verbatim>\<open>yy_accept\<close>, an action of the function.
\<close>

theorem automaton_well_typed:
  assumes "s \<in> {1..13}"
  shows "settle_in_range 4 s (yy_ec ! of_char c) \<and> yy_settle 4 s (yy_ec ! of_char c) \<noteq> None \<and>
    yy_trans s (yy_ec ! of_char c) \<in> {3..13} \<and>
    yy_trans s (yy_ec ! of_char c) < length yy_accept \<and> yy_accept ! yy_trans s (yy_ec ! of_char c) \<le> 6"
proof -
  have "s \<in> set [1, 2, 3, 4, 5, 6, 7, 8, 9, 10, 11, 12, 13]" using assms by simp arith
  moreover have "yy_ec ! of_char c \<in> set [0, 1, 2, 3, 4, 5, 6, 7]" using yy_ec_bounds [of c] by auto
  ultimately have r: "settle_in_range 4 s (yy_ec ! of_char c)" "yy_settle 4 s (yy_ec ! of_char c) \<noteq> None"
    "3 \<le> yy_trans s (yy_ec ! of_char c)" "yy_trans s (yy_ec ! of_char c) \<le> 13"
    using tables_in_range unfolding list_all_iff by blast+
  moreover have "list_all (\<lambda>a. a \<le> 6) yy_accept" "length yy_accept = 14" by (simp_all add: yy_accept_def)
  ultimately show ?thesis by (simp add: list_all_length)
qed

theorem automaton_well_typed_witness:
  "yy_trans 9 (yy_ec ! of_char (CHR ''#'')) \<in> {3..13}"
  using automaton_well_typed [of 9 "CHR ''#''"] by simp

section \<open>Refills\<close>

text \<open>The automaton is not at the end of a token anywhere in the text.\<close>

fun inside_token :: "string \<Rightarrow> nat \<Rightarrow> bool" where
  "inside_token [] s = True"
| "inside_token (c # cs) s =
     (let s = yy_trans s (yy_class c) in yy_base ! s \<noteq> 14 \<and> inside_token cs s)"

lemma yy_match_previous:
  "inside_token t s \<Longrightarrow> yy_match (t @ ys) s pos acc =
     (case yy_previous t s pos acc of (s, acc) \<Rightarrow> yy_match ys s (pos + length t) acc)"
  by (induction t arbitrary: s pos acc) (simp_all add: Let_def)

lemma inside_packet: "packet_text s \<Longrightarrow> inside_token s 9"
proof (induction s)
  case (Cons c s)
  then have "yy_trans 9 (rule_class c) = 9" by (simp add: yy_trans_packet packet_text_def)
  with Cons show ?case by (simp add: yy_class_eq yy_base_def packet_text_def)
qed simp

lemma inside_frame:
  assumes "packet_text s"
  shows "inside_token (CHR ''$'' # s) yy_start"
proof (cases s)
  case Nil
  have "yy_trans yy_start (yy_class (CHR ''$'')) = 6" by (simp only: yy_start_def yy_class_eq yy_trans_start) simp
  with Nil show ?thesis by (simp add: yy_base_def)
next
  case (Cons c cs)
  have c: "c \<noteq> CHR ''#''" "c \<noteq> CHR ''$''" "packet_text cs"
    using assms unfolding Cons by (simp_all add: packet_text_def)
  have "yy_trans yy_start (yy_class (CHR ''$'')) = 6" by (simp only: yy_start_def yy_class_eq yy_trans_start) simp
  moreover have "yy_trans 6 (yy_class c) = 9" using c by (simp add: yy_class_eq yy_trans_packet)
  moreover have "yy_base ! 6 = 9" "yy_base ! 9 = 8" by (simp_all add: yy_base_def)
  ultimately show ?thesis using inside_packet [OF c(3)] unfolding Cons by simp
qed

text \<open>
  Fact: a refill of the buffer does not change the tokens. When the buffer ends inside a packet,
  the state and the last accepting state that \<^verbatim>\<open>yy_get_previous_state\<close> computes from the part read so
  far continue the match over what comes next exactly as if the packet had been in the buffer whole.
\<close>

theorem refill_continues_match:
  assumes "packet_text part"
  shows "yy_match ((CHR ''$'' # part) @ ys) yy_start 0 (0, 0) =
    (case yy_get_previous_state (CHR ''$'' # part) (0, 0) of
       (s, acc) \<Rightarrow> yy_match ys s (length part + 1) acc)"
  using yy_match_previous [OF inside_frame [OF assms], of ys 0 "(0, 0)"]
  by (simp add: yy_get_previous_state_def del: yy_match.simps yy_previous.simps append_Cons)

theorem refill_continues_match_witness:
  "yy_match ((CHR ''$'' # ''m8'') @ '',4#d3'') yy_start 0 (0, 0) =
     (case yy_get_previous_state (CHR ''$'' # ''m8'') (0, 0) of (s, acc) \<Rightarrow> yy_match '',4#d3'' s 3 acc)"
proof -
  have t: "packet_text ''m8''" by (simp add: packet_text_def NUL_def)
  have l: "length ''m8'' + 1 = (3 :: nat)" by simp
  from refill_continues_match [OF t, of "'',4#d3''"] show ?thesis unfolding l .
qed

text \<open>A NUL of the stream makes the transition of its class, or jams.\<close>

lemma NUL_trans:
  "yy_try_NUL_trans s pos acc =
     (if yy_trans s (yy_class NUL) = 13 then 0 else yy_trans s (yy_class NUL),
      if yy_accept ! s \<noteq> 0 then (s, pos) else acc)"
  by (simp add: yy_try_NUL_trans_def yy_class_def Let_def)

section \<open>Progress\<close>

lemma packet_end_bounds: "packet_end cs = Some n \<Longrightarrow> 3 \<le> n \<and> n \<le> length cs"
proof (induction cs arbitrary: n)
  case (Cons c cs)
  consider "c = CHR ''$''" | "c = CHR ''#''" | "c \<noteq> CHR ''$''" "c \<noteq> CHR ''#''" by blast
  then show ?case
  proof cases
    case 2
    show ?thesis
    proof (cases cs)
      case (Cons a as)
      with 2 Cons.prems show ?thesis
        by (cases as) (simp_all add: packet_end_Cons split: if_splits)
    qed (use 2 Cons.prems in \<open>simp add: packet_end_Cons\<close>)
  next
    case 3
    with Cons.prems obtain m where "packet_end cs = Some m" "n = Suc m" by (auto simp: packet_end_Cons)
    with Cons.IH show ?thesis by fastforce
  qed (use Cons.prems in \<open>simp add: packet_end_Cons\<close>)
qed (simp add: packet_end_Cons)

lemma rule_token_bounds:
  "1 \<le> snd (rule_token (c # cs)) \<and> snd (rule_token (c # cs)) \<le> length (c # cs)"
  using packet_end_bounds [of cs] by (auto split: option.split)

lemma yy_token_rule: "input \<noteq> [] \<Longrightarrow> yy_token input = rule_token input"
proof (cases input)
  case (Cons c cs)
  have "yy_accept ! 4 = 4" "yy_accept ! 5 = 5" "yy_accept ! 7 = 1" "yy_accept ! 8 = 2"
    by (simp_all add: yy_accept_def)
  then show ?thesis
    unfolding yy_token_def yy_start_def Cons match_start
    by (simp add: match_dollar [unfolded One_nat_def] yy_find_action_eq del: yy_match.simps split: option.split)
qed simp

lemma yy_token_progress: "input \<noteq> [] \<Longrightarrow> length (drop (snd (yy_token input)) input) < length input"
  using rule_token_bounds [of "hd input" "tl input"] by (simp add: yy_token_rule)

section \<open>The stream\<close>

text \<open>
  \<^verbatim>\<open>yylex\<close>: tokens and their actions up to the end of the stream. \<open>rest n\<close> is what the scanner's buffer holds
  behind the token, and the byte replaced by NUL, when \<open>n\<close> bytes of the stream are left: what was read
  ahead, then old memory. \<open>None\<close> is a packet whose command never returns. \<open>Scanner_Buffer\<close> has the
  function with its buffer, and shows that it does the same for some \<open>rest\<close>.
\<close>

function yylex :: "bool \<Rightarrow> u32 \<Rightarrow> (nat \<Rightarrow> string) \<Rightarrow> parser_data \<Rightarrow> string \<Rightarrow> parser_data cres option" where
  "yylex be junk rest d input =
     (if input = [] then Some (handle_error d)
      else case yy_action be junk (rest (length input)) d
                   (fst (yy_token input)) (take (snd (yy_token input)) input) of
             Some (Ret d) \<Rightarrow> yylex be junk rest d (drop (snd (yy_token input)) input)
           | r \<Rightarrow> r)"
  by auto
termination
  by (relation "measure (\<lambda>(_, _, _, _, input). length input)")
    (use yy_token_progress in \<open>auto simp del: length_drop\<close>)

declare yylex.simps [simp del]

text \<open>\<open>opened\<close> tells whether \<^verbatim>\<open>fdopen\<close> made a stream of the socket.\<close>

definition gdb_scanner :: "bool \<Rightarrow> bool \<Rightarrow> u32 \<Rightarrow> (nat \<Rightarrow> string) \<Rightarrow> arm_core \<Rightarrow> string \<Rightarrow> parser_data cres option" where
  "gdb_scanner opened be junk rest arm input =
     (let data = \<lparr>pd_gdb = gdb_init_data arm, pd_buffer = []\<rparr>
      in if \<not> opened then Some (Ret data) else yylex be junk rest data input)"

lemma is_hex_hex_byte: "list_all is_hex (hex_byte b)"
proof -
  have "unat b div 16 < 16" "unat b mod 16 < 16"
    using unsigned_less [of b, where 'a = nat] by (simp_all add: less_mult_imp_div_less)
  then show ?thesis by (simp add: hex_byte_eq digit_chars_hex)
qed

lemma packet_end_frame:
  "packet_text s \<Longrightarrow> packet_end (s @ CHR ''#'' # hex_byte b @ t) = Some (length s + 3)"
proof (induction s)
  case Nil
  obtain x y where "hex_byte b = [x, y]" by (simp add: hex_byte_eq)
  with is_hex_hex_byte [of b] show ?case by (simp add: packet_end_Cons)
qed (simp add: packet_end_Cons packet_text_def)

lemma yy_token_frame:
  assumes "packet_text s"
  shows "yy_token (frame s @ t) = (3, length (frame s))"
  using packet_end_frame [OF assms, of "checksum s" t]
  by (simp add: yy_token_rule frame_def)

text \<open>
  Fact: a framed packet in the stream reaches the server whole. When no error is pending, the
  scanner takes the frame as one token, whatever follows, hands it to the packet analysis, and goes
  on with what follows when the analysis returns.
\<close>

theorem framed_packet_in_stream:
  assumes "packet_text s" and "pd_buffer d = []"
  shows "yylex be junk rest d (frame s @ input) =
    (case gdb_packet_analysis be junk (pd_gdb d) (frame s @ NUL # rest (length (frame s @ input))) (length (frame s)) of
       Some (Ret g) \<Rightarrow> yylex be junk rest (d\<lparr>pd_gdb := g\<rparr>) input
     | Some Exit \<Rightarrow> Some Exit | Some Undef \<Rightarrow> Some Undef | None \<Rightarrow> None)"
proof -
  have tok: "take (length (frame s)) (frame s @ input) = frame s"
    "drop (length (frame s)) (frame s @ input) = input" by simp_all
  have ne: "frame s @ input \<noteq> []" by (simp add: frame_def)
  let ?R = "rest (length (frame s @ input))"
  let ?G = "gdb_packet_analysis be junk (pd_gdb d) (frame s @ NUL # ?R) (length (frame s))"
  have act: "yy_action be junk ?R d 3 (frame s) = map_option (\<lambda>r. cbind r (\<lambda>g. Ret (d\<lparr>pd_gdb := g\<rparr>))) ?G"
    using assms(2) by (simp add: yy_action_def handle_error_def)
  have "yylex be junk rest d (frame s @ input) =
      (case yy_action be junk ?R d 3 (frame s) of
         Some (Ret d) \<Rightarrow> yylex be junk rest d input | r \<Rightarrow> r)"
    by (subst yylex.simps) (simp only: ne if_False yy_token_frame [OF assms(1)] fst_conv snd_conv tok)
  then show ?thesis unfolding act
    by (cases ?G) (simp_all add: cbind_def split: cres.split)
qed

theorem framed_packet_in_stream_witness:
  "yylex True 0 (\<lambda>_. []) \<lparr>pd_gdb = gdb_init_data sample_core, pd_buffer = []\<rparr> (frame ''k'' @ []) =
     Some (Ret \<lparr>pd_gdb = (acked (gdb_init_data sample_core))\<lparr>gdb_shut := True\<rparr>, pd_buffer = []\<rparr>)"
proof -
  let ?g = "gdb_init_data sample_core"
  have t: "packet_text ''k''" by (simp add: packet_text_def NUL_def)
  have "gdb_packet_analysis True 0 ?g (CHR ''$'' # ''k'' @ CHR ''#'' # hex_byte (checksum ''k'') @ NUL # []) (length ''k'' + 4) =
      Some (Ret ((acked ?g)\<lparr>gdb_shut := True\<rparr>))"
    by (subst packet_analysis_eq) (auto simp: gdb_init_data_def gdb_init_def NUL_def kill_request_def)
  then have "gdb_packet_analysis True 0 ?g (frame ''k'' @ [NUL]) (length (frame ''k'')) =
      Some (Ret ((acked ?g)\<lparr>gdb_shut := True\<rparr>))" by (simp add: frame_def)
  then show ?thesis
    using framed_packet_in_stream [OF t, of "\<lparr>pd_gdb = ?g, pd_buffer = []\<rparr>" True 0 "\<lambda>_. []" "[]"]
    by (simp add: yylex.simps handle_error_def)
qed

text \<open>
  Fact: the text of invalid data never overflows its buffer. Adding a character to a
  buffer that has room for the final NUL has a meaning in C and leaves room for it again; a full buffer
  is flushed by a request for retransmission first.
\<close>

theorem error_buffer_bounded:
  assumes "length (pd_buffer d) < MAX_ERROR_SIZE"
  shows "add_character_to_error d c \<noteq> Undef \<and>
    (\<forall>d'. add_character_to_error d c = Ret d' \<longrightarrow> length (pd_buffer d') < MAX_ERROR_SIZE \<and>
      pd_buffer d' = (if length (pd_buffer d) = MAX_ERROR_SIZE - 1 then [c] else pd_buffer d @ [c]))"
  using assms
  by (auto simp: add_character_to_error_def handle_error_def gdb_require_retransmission_def gdb_write_def
      MAX_ERROR_SIZE_def split: if_splits)

theorem error_buffer_bounded_witness:
  "add_character_to_error \<lparr>pd_gdb = gdb_init_data sample_core, pd_buffer = []\<rparr> (CHR ''x'') \<noteq> Undef"
  using error_buffer_bounded [of "\<lparr>pd_gdb = gdb_init_data sample_core, pd_buffer = []\<rparr>" "CHR ''x''"]
  by (simp add: MAX_ERROR_SIZE_def)


section \<open>Termination\<close>

lemma run_handler_None: "run_handler be junk h g data = None \<Longrightarrow> h = Cont"
  by (cases h) simp_all

lemma gdb_init_Cont: "gdb_init c = Some Cont \<Longrightarrow> c = CHR ''c''"
  by (auto simp: gdb_init_def split: if_splits)

lemma analysis_None:
  assumes "gdb_packet_analysis be junk g packet len = None"
  shows "packet ! 1 = CHR ''c''"
proof -
  let ?i = "max 1 (len - 3)"
  from assms obtain h g' where h: "gdb_init (packet[?i := NUL] ! 1) = Some h"
    "run_handler be junk h g' (drop 2 (packet[?i := NUL])) = None"
    by (auto simp: gdb_packet_analysis_def Let_def split: if_splits cres.splits option.splits)
  then have c: "packet[?i := NUL] ! 1 = CHR ''c''" using run_handler_None gdb_init_Cont by metis
  show ?thesis
  proof (cases "?i = 1 \<and> 1 < length packet")
    case True
    with c show ?thesis by (simp add: NUL_def)
  next
    case False
    with c show ?thesis by (metis list_update_beyond nth_list_update_neq not_le)
  qed
qed

lemma action_None:
  assumes "yy_action be junk rest d act s = None"
  shows "act = 3 \<and> (s @ NUL # rest) ! 1 = CHR ''c''"
proof -
  from assms have "act = 3" by (auto simp: yy_action_def split: if_splits)
  with assms have "\<exists>g. gdb_packet_analysis be junk g (s @ NUL # rest) (length s) = None"
    by (cases "handle_error d") (auto simp: yy_action_def)
  with \<open>act = 3\<close> analysis_None show ?thesis by metis
qed

lemma packet_token:
  assumes "yy_token input = (3, n)" and "input \<noteq> []"
  shows "hd input = CHR ''$''" and "2 \<le> n" and "n \<le> length input"
proof -
  obtain c cs where i: "input = c # cs" using assms(2) by (cases input) auto
  with assms have r: "rule_token (c # cs) = (3, n)" by (simp add: yy_token_rule)
  then have c: "c = CHR ''$''" by (auto split: if_splits option.splits)
  with r obtain m where "packet_end cs = Some m" "n = 1 + m" by (auto split: option.splits)
  with packet_end_bounds [of cs m] c i show "hd input = CHR ''$''" and "2 \<le> n" and "n \<le> length input"
    by auto
qed

text \<open>The stream contains the start of a continue command.\<close>

definition continue_in :: "string \<Rightarrow> bool" where
  "continue_in input \<longleftrightarrow> (\<exists>xs ys. input = xs @ CHR ''$'' # CHR ''c'' # ys)"

lemma continue_in_drop: "continue_in (drop n input) \<Longrightarrow> continue_in input"
  unfolding continue_in_def by (metis append.assoc append_take_drop_id)

lemma yylex_returns: "\<not> continue_in input \<Longrightarrow> yylex be junk rest d input \<noteq> None"
proof (induction input arbitrary: d rule: measure_induct_rule [where f = length])
  case (less input)
  show ?case
  proof (cases "input = []")
    case True
    then show ?thesis by (simp add: yylex.simps)
  next
    case False
    obtain act n where tok: "yy_token input = (act, n)" by force
    let ?r = "yy_action be junk (rest (length input)) d act (take n input)"
    have "?r \<noteq> None"
    proof
      assume "?r = None"
      from action_None [OF this] have act: "act = 3"
        and c: "(take n input @ NUL # rest (length input)) ! 1 = CHR ''c''" by auto
      note p = packet_token [OF tok [unfolded act] False]
      from p c have "input ! 1 = CHR ''c''" by (simp add: nth_append)
      moreover from p False have "input = CHR ''$'' # input ! 1 # drop 2 input"
        by (cases input; cases "tl input") auto
      ultimately have "continue_in input" unfolding continue_in_def by (metis append_Nil)
      with less.prems show False by simp
    qed
    then obtain r where r: "?r = Some r" by blast
    have short: "length (drop n input) < length input" using yy_token_progress [OF False] tok by simp
    have "\<not> continue_in (drop n input)" using less.prems continue_in_drop by blast
    from less.IH [OF short this] show ?thesis
      using False by (subst yylex.simps) (simp add: tok r split: cres.split)
  qed
qed

text \<open>
  Fact: the server terminates on every stream without a continue command. The scanner takes at
  least one byte with every token, and of all commands only \<^verbatim>\<open>c\<close> can run for ever: whatever
  packets, damaged packets and noise the stream holds, the scanner reaches its end (or the process
  ends).
\<close>

theorem only_continue_runs_forever:
  assumes "\<not> continue_in input"
  shows "yylex be junk rest d input \<noteq> None"
  using assms by (rule yylex_returns)

theorem only_continue_runs_forever_witness:
  "yylex True 0 (\<lambda>_. []) \<lparr>pd_gdb = gdb_init_data sample_core, pd_buffer = []\<rparr> ''$m0,4#fd$s#73'' \<noteq> None"
proof -
  have "\<not> continue_in ''$m0,4#fd$s#73''"
    unfolding continue_in_def by (auto simp: Cons_eq_append_conv)
  then show ?thesis by (rule only_continue_runs_forever)
qed

section \<open>Streams that the server serves to their end\<close>

text \<open>
  The commands that can end the process or have no meaning in C for some text or processor: \<^verbatim>\<open>c\<close>, \<^verbatim>\<open>s\<close>, \<^verbatim>\<open>k\<close>, \<^verbatim>\<open>m\<close>, \<^verbatim>\<open>p\<close>,
  \<^verbatim>\<open>P\<close>, \<^verbatim>\<open>X\<close> and \<^verbatim>\<open>G\<close>; a stream is risky when it contains the start of one.
\<close>

definition risky_in :: "string \<Rightarrow> bool" where
  "risky_in input \<longleftrightarrow> (\<exists>xs c ys. input = xs @ CHR ''$'' # c # ys \<and> c \<in> set ''cskmpPXG'')"

lemma risky_in_drop: "risky_in (drop n input) \<Longrightarrow> risky_in input"
  unfolding risky_in_def by (metis append.assoc append_take_drop_id)

text \<open>A server that still has its connection, and the processor \<open>arm\<close>.\<close>

definition serves :: "arm_core \<Rightarrow> gdb_protocol_data \<Rightarrow> bool" where
  "serves arm g \<longleftrightarrow> gdb_arm g = arm \<and> \<not> gdb_shut g"

lemma serves_writes:
  assumes "serves arm g"
  shows "\<exists>g'. gdb_write g s = Ret g' \<and> serves arm g'"
    and "length s < 1000 \<Longrightarrow> \<exists>g'. gdb_send_data g s = Ret g' \<and> serves arm g'"
  using assms by (simp_all add: serves_def gdb_write_def gdb_sends)

lemma serves_harmless:
  assumes "gdb_init c = Some h" and "c \<notin> set ''cskmpPXG''" and "serves arm g" and "NUL \<in> set data"
    and "data = a # rest" and "NUL \<in> set rest"
  shows "\<exists>g'. run_handler be junk h g data = Some (Ret g') \<and> serves arm g'"
proof -
  have "h \<in> {Query, ReadGeneralRegisters, Reason, SetThread}"
    using assms(1,2) by (auto simp: gdb_init_def split: if_splits)
  moreover obtain t where t: "cstr data = Ret t" using assms(4) by (simp add: cstr_def)
  moreover obtain t' where t': "cstr rest = Ret t'" using assms(6) by (simp add: cstr_def)
  moreover have "length (registers_text be arm) = 336" by (simp add: registers_text_def length_words del: upt_Suc)
  ultimately show ?thesis
    using assms(3)
    by (auto simp: query_def set_thread_def assms(5) reason_def gdb_send_stop_reason_def read_general_registers_eq
        gdb_sends serves_def Let_def)
qed

lemma scan_hex_digits:
  assumes "is_hex a" and "is_hex b"
  shows "scan_hex None [a, b] \<noteq> None"
proof -
  have "\<not> is_space c \<and> c \<noteq> CHR ''-'' \<and> c \<noteq> CHR ''+'' \<and> c \<noteq> CHR ''x'' \<and> c \<noteq> CHR ''X''" if "is_hex c" for c
    using that by (auto simp: is_hex_def hex_value_def is_space_def split: if_splits)
  then show ?thesis
    using assms by (auto simp: scan_hex_def scan_sign_def scan_prefix_def Let_def)
qed

text \<open>The shape of a packet's token.\<close>

lemma packet_end_shape:
  "packet_end cs = Some n \<Longrightarrow>
     \<exists>s a b. is_hex a \<and> is_hex b \<and> take n cs = s @ [CHR ''#'', a, b] \<and> n = length s + 3"
proof (induction cs arbitrary: n)
  case (Cons c cs)
  consider "c = CHR ''#''" | "c \<noteq> CHR ''#''" "c \<noteq> CHR ''$''"
    using Cons.prems by (auto simp: packet_end_Cons split: if_splits)
  then show ?case
  proof cases
    case 1
    with Cons.prems obtain a b t where "cs = a # b # t" "is_hex a" "is_hex b" "n = 3"
      by (auto simp: packet_end_Cons split: list.splits if_splits)
    with 1 show ?thesis by (rule_tac exI [of _ "[]"], rule_tac exI [of _ a], rule_tac exI [of _ b]) (simp add: numeral_3_eq_3)
  next
    case 2
    with Cons.prems obtain m where m: "packet_end cs = Some m" "n = Suc m" by (auto simp: packet_end_Cons)
    from Cons.IH [OF m(1)] obtain s a b where "is_hex a" "is_hex b" "take m cs = s @ [CHR ''#'', a, b]" "m = length s + 3"
      by blast
    moreover have "take n (c # cs) = c # take m cs" by (simp add: m(2))
    ultimately show ?thesis using m(2)
      by (rule_tac exI [of _ "c # s"], rule_tac exI [of _ a], rule_tac exI [of _ b]) simp
  qed
qed (simp add: packet_end_Cons)

lemma serves_analysis:
  assumes g: "serves arm g" and hex: "is_hex a" "is_hex b" and safe: "s = [] \<or> hd s \<notin> set ''cskmpPXG''"
  shows "\<exists>g'. gdb_packet_analysis be junk g ((CHR ''$'' # s @ [CHR ''#'', a, b]) @ NUL # rest) (length s + 4) =
    Some (Ret g') \<and> serves arm g'"
proof -
  let ?p = "(CHR ''$'' # s @ [CHR ''#'', a, b]) @ NUL # rest"
  have "a \<noteq> NUL" "b \<noteq> NUL" using hex by (auto simp: is_hex_def hex_value_def NUL_def split: if_splits)
  then have c: "cstr (a # b # NUL # rest) = Ret [a, b]" by (simp add: cstr_def)
  obtain given r where given: "scan_hex None [a, b] = Some (given, r)" using scan_hex_digits [OF hex] by auto
  have i: "max 1 (length s + 4 - 3) = Suc (length s)" by simp
  have upd: "?p[Suc (length s) := NUL] = CHR ''$'' # s @ NUL # a # b # NUL # rest" by (simp add: list_update_append)
  have drops: "drop (Suc (length s) + 1) ?p = a # b # NUL # rest" "\<not> length ?p \<le> Suc (length s) + 1" by simp_all
  obtain g1 where g1: "gdb_send_ack g = Ret g1" "serves arm g1"
    using serves_writes(1) [OF g, of "''+''"] by (auto simp: gdb_send_ack_def)
  have "\<exists>g'. (case gdb_init ((CHR ''$'' # s @ NUL # a # b # NUL # rest) ! 1) of
        Some h \<Rightarrow> run_handler be junk h g1 (drop 2 (CHR ''$'' # s @ NUL # a # b # NUL # rest))
      | None \<Rightarrow> Some (gdb_send_data g1 '''')) = Some (Ret g') \<and> serves arm g'"
  proof (cases s)
    case Nil
    have "gdb_init NUL = None" by code_simp
    with Nil serves_writes(2) [OF g1(2), of "''''"] show ?thesis by simp
  next
    case (Cons d ds)
    show ?thesis
    proof (cases "gdb_init d")
      case None
      with Cons serves_writes(2) [OF g1(2), of "''''"] show ?thesis by simp
    next
      case (Some h)
      have "\<exists>x xs. ds @ NUL # a # b # NUL # rest = x # xs \<and> NUL \<in> set xs" by (cases ds) simp_all
      then obtain x xs where x: "ds @ NUL # a # b # NUL # rest = x # xs" "NUL \<in> set xs" by blast
      have "\<exists>g'. run_handler be junk h g1 (ds @ NUL # a # b # NUL # rest) = Some (Ret g') \<and> serves arm g'"
        using serves_harmless [OF Some _ g1(2) _ x] safe Cons by simp
      with Cons Some show ?thesis by simp
    qed
  qed
  moreover obtain g2 where "gdb_require_retransmission g = Ret g2" "serves arm g2"
    using serves_writes(1) [OF g, of "''-''"] by (auto simp: gdb_require_retransmission_def)
  ultimately show ?thesis
    unfolding gdb_packet_analysis_def Let_def i upd drops c by (simp add: given g1 del: drop_append nth_Cons_numeral)
qed

text \<open>The parser between two tokens.\<close>

definition parses :: "arm_core \<Rightarrow> parser_data \<Rightarrow> bool" where
  "parses arm d \<longleftrightarrow> serves arm (pd_gdb d) \<and> length (pd_buffer d) < MAX_ERROR_SIZE"

lemma parses_error: "parses arm d \<Longrightarrow> \<exists>d'. handle_error d = Ret d' \<and> parses arm d' \<and> length (pd_buffer d') = 0"
  using serves_writes(1) [of arm "pd_gdb d" "''-''"]
  by (auto simp: handle_error_def parses_def gdb_require_retransmission_def MAX_ERROR_SIZE_def)

lemma parses_add: "parses arm d \<Longrightarrow> \<exists>d'. add_character_to_error d c = Ret d' \<and> parses arm d'"
  using parses_error [of arm d] by (auto simp: add_character_to_error_def parses_def MAX_ERROR_SIZE_def)

lemma parses_action:
  assumes d: "parses arm d" and tok: "yy_token input = (act, n)" and ne: "input \<noteq> []" and safe: "\<not> risky_in input"
  shows "\<exists>d'. yy_action be junk rest d act (take n input) = Some (Ret d') \<and> parses arm d'"
proof -
  obtain c cs where input: "input = c # cs" using ne by (cases input) auto
  obtain e where e: "handle_error d = Ret e" "parses arm e" using parses_error [OF d] by blast
  have tok': "rule_token (c # cs) = (act, n)" using tok ne by (simp add: yy_token_rule input)
  then consider "act = 1" | "act = 2" | "act = 4" | "act = 5" | "act = 3" by (auto split: if_splits option.splits)
  then show ?thesis
  proof cases
    case 2
    with e serves_writes(1) [of arm "pd_gdb e" "gdb_packet (pd_gdb e)"] show ?thesis
      by (auto simp: yy_action_def gdb_transmit_packet_def parses_def)
  next
    case 5
    from tok' 5 obtain m where m: "packet_end cs = Some m" "n = Suc m" "c = CHR ''$''"
      by (auto split: if_splits option.splits)
    from packet_end_shape [OF m(1)] obtain s a b where
      s: "is_hex a" "is_hex b" "take m cs = s @ [CHR ''#'', a, b]" "m = length s + 3" by blast
    have whole: "take n input = CHR ''$'' # s @ [CHR ''#'', a, b]" by (simp add: input m s(3))
    have "s = [] \<or> hd s \<notin> set ''cskmpPXG''"
    proof (cases s)
      case (Cons x xs)
      then have "input = [] @ CHR ''$'' # x # (xs @ [CHR ''#'', a, b] @ drop m cs)"
        using append_take_drop_id [of m cs] by (simp add: input m(3) s(3))
      with safe Cons show ?thesis unfolding risky_in_def by (metis list.sel(1))
    qed simp
    then have "\<exists>g. gdb_packet_analysis be junk (pd_gdb e) ((CHR ''$'' # s @ [CHR ''#'', a, b]) @ NUL # rest) (length s + 4) =
        Some (Ret g) \<and> serves arm g"
      using e(2) by (intro serves_analysis [OF _ s(1,2)]) (simp_all add: parses_def)
    then obtain g where g: "gdb_packet_analysis be junk (pd_gdb e) ((CHR ''$'' # s @ [CHR ''#'', a, b]) @ NUL # rest)
        (length s + 4) = Some (Ret g)" "serves arm g" by blast
    have "length (take n input) = length s + 4" by (simp add: whole)
    then have "gdb_packet_analysis be junk (pd_gdb e) (take n input @ NUL # rest) (length (take n input)) = Some (Ret g)"
      using g(1) by (simp only: whole)
    with 5 e g(2) show ?thesis by (simp add: yy_action_def parses_def)
  qed (use e d parses_add [OF d] in \<open>auto simp: yy_action_def\<close>)
qed

lemma yylex_serves:
  "\<not> risky_in input \<Longrightarrow> parses arm d \<Longrightarrow> \<exists>d'. yylex be junk rest d input = Some (Ret d') \<and> parses arm d'"
proof (induction input arbitrary: d rule: measure_induct_rule [where f = length])
  case (less input)
  show ?case
  proof (cases "input = []")
    case True
    with parses_error [OF less.prems(2)] show ?thesis by (auto simp: yylex.simps)
  next
    case False
    obtain act n where tok: "yy_token input = (act, n)" by force
    from parses_action [OF less.prems(2) tok False less.prems(1)] obtain d' where
      d': "yy_action be junk (rest (length input)) d act (take n input) = Some (Ret d')" "parses arm d'" by blast
    have short: "length (drop n input) < length input" using yy_token_progress [OF False] tok by simp
    have "\<not> risky_in (drop n input)" using less.prems(1) risky_in_drop by blast
    from less.IH [OF short this d'(2)] False show ?thesis by (subst yylex.simps) (simp add: tok d'(1))
  qed
qed

end
