(* ===== verification/Csapp.thy ===== *)
theory Csapp
  imports C_Prelude "HOL-Library.Sublist"
begin

text \<open>
  The wrappers of \<^verbatim>\<open>csapp.c\<close>: the robust input and output functions (\<^verbatim>\<open>rio_*\<close>), which go on after a short
  or interrupted system call, and the wrappers that end the process when a call fails.

  The system is a parameter: the answers its \<^verbatim>\<open>read\<close> and \<^verbatim>\<open>write\<close> give, in order. A call with no answer
  left blocks, and the function that made it is \<open>None\<close>. An answer larger than the request, which the
  system's documentation excludes, is \<open>Undef\<close>. The other wrappers of the file are in
  \<open>Csapp_Wrappers\<close>.

  The lemmas show that a write that succeeds wrote the whole buffer in order, that the buffered
  reader is the byte stream it reads from, whatever the sizes of the system's answers, and what the
  line reader returns.
\<close>

section \<open>System calls\<close>

datatype read_answer = Got "u8 list" | Read_failed int
datatype write_answer = Wrote nat | Write_failed int

definition EINTR :: int where
  "EINTR = 4"

section \<open>Unbuffered input and output\<close>

text \<open>The loop of \<^verbatim>\<open>rio_readn\<close>: \<open>nleft\<close> bytes to go after the bytes \<open>buf\<close>.\<close>

fun readn_loop :: "read_answer list \<Rightarrow> nat \<Rightarrow> u8 list \<Rightarrow> (int \<times> u8 list \<times> read_answer list) cres option" where
  "readn_loop ans nleft buf =
     (if nleft = 0 then Some (Ret (int (length buf), buf, ans))
      else case ans of
        [] \<Rightarrow> None
      | Read_failed e # ans \<Rightarrow>
          if e = EINTR then readn_loop ans nleft buf else Some (Ret (- 1, buf, ans))
      | Got bs # ans \<Rightarrow>
          if nleft < length bs then Some Undef
          else if bs = [] then Some (Ret (int (length buf), buf, ans))
          else readn_loop ans (nleft - length bs) (buf @ bs))"

declare readn_loop.simps [simp del]

definition rio_readn :: "read_answer list \<Rightarrow> nat \<Rightarrow> (int \<times> u8 list \<times> read_answer list) cres option" where
  "rio_readn ans n = readn_loop ans n []"

text \<open>
  The loop of \<^verbatim>\<open>rio_writen\<close>: \<open>bufp\<close> is what is left of the buffer, \<open>out\<close> what was written. A \<^verbatim>\<open>write\<close> that
  returns 0 does not set \<^verbatim>\<open>errno\<close>, which then holds its old value.
\<close>

fun writen_loop :: "int \<Rightarrow> write_answer list \<Rightarrow> u8 list \<Rightarrow> u8 list \<Rightarrow> (bool \<times> u8 list \<times> write_answer list) cres option" where
  "writen_loop errno ans bufp out =
     (if bufp = [] then Some (Ret (True, out, ans))
      else case ans of
        [] \<Rightarrow> None
      | Write_failed e # ans \<Rightarrow>
          if e = EINTR then writen_loop e ans bufp out else Some (Ret (False, out, ans))
      | Wrote k # ans \<Rightarrow>
          if k = 0
          then if errno = EINTR then writen_loop errno ans bufp out else Some (Ret (False, out, ans))
          else if length bufp < k then Some Undef
          else writen_loop errno ans (drop k bufp) (out @ take k bufp))"

declare writen_loop.simps [simp del]

definition rio_writen :: "int \<Rightarrow> write_answer list \<Rightarrow> u8 list \<Rightarrow> (int \<times> u8 list \<times> write_answer list) cres option" where
  "rio_writen errno ans buf =
     map_option (\<lambda>r. cbind r (\<lambda>(fin, out, ans). Ret (if fin then int (length buf) else - 1, out, ans)))
       (writen_loop errno ans buf [])"

section \<open>Buffered input\<close>

definition RIO_BUFSIZE :: nat where
  "RIO_BUFSIZE = 8192"

record rio_t =
  rio_fd :: int
  rio_cnt :: int
  rio_bufptr :: nat
  rio_buf :: "u8 list"

definition rio_readinitb :: "rio_t \<Rightarrow> int \<Rightarrow> rio_t" where
  "rio_readinitb rp fd = rp\<lparr>rio_fd := fd, rio_cnt := 0, rio_bufptr := 0\<rparr>"

text \<open>The refilling loop of \<^verbatim>\<open>rio_read\<close>: \<open>Some True\<close> is a filled buffer, \<open>Some False\<close> the end of the input.\<close>

fun rio_fill :: "rio_t \<Rightarrow> read_answer list \<Rightarrow> (int \<times> rio_t \<times> read_answer list) cres option" where
  "rio_fill rp ans =
     (if 0 < rio_cnt rp then Some (Ret (1, rp, ans))
      else case ans of
        [] \<Rightarrow> None
      | Read_failed e # ans \<Rightarrow>
          let rp = rp\<lparr>rio_cnt := - 1\<rparr>
          in if e \<noteq> EINTR then Some (Ret (- 1, rp, ans)) else rio_fill rp ans
      | Got bs # ans \<Rightarrow>
          if RIO_BUFSIZE < length bs then Some Undef
          else let rp = rp\<lparr>rio_cnt := int (length bs), rio_buf := bs @ drop (length bs) (rio_buf rp)\<rparr>
               in if bs = [] then Some (Ret (0, rp, ans)) else rio_fill (rp\<lparr>rio_bufptr := 0\<rparr>) ans)"

declare rio_fill.simps [simp del]

text \<open>The result of \<^verbatim>\<open>rio_read\<close> with the bytes it copied.\<close>

definition rio_read ::
    "rio_t \<Rightarrow> read_answer list \<Rightarrow> nat \<Rightarrow> (int \<times> u8 list \<times> rio_t \<times> read_answer list) cres option" where
  "rio_read rp ans n =
     map_option (\<lambda>r. cbind r (\<lambda>(rc, rp, ans).
       if rc \<noteq> 1 then Ret (rc, [], rp, ans)
       else let cnt = (if rio_cnt rp < int n then nat (rio_cnt rp) else n)
            in if rio_bufptr rp + cnt \<le> length (rio_buf rp)
               then Ret (int cnt, take cnt (drop (rio_bufptr rp) (rio_buf rp)),
                         rp\<lparr>rio_bufptr := rio_bufptr rp + cnt, rio_cnt := rio_cnt rp - int cnt\<rparr>, ans)
               else Undef))
     (rio_fill rp ans)"

text \<open>
  The loop of \<^verbatim>\<open>rio_readnb\<close>. \<^verbatim>\<open>rio_read\<close> returns a negative number only when \<^verbatim>\<open>errno\<close> is not \<^verbatim>\<open>EINTR\<close>, so the
  test of \<^verbatim>\<open>errno\<close> here never holds. Every iteration but the last copies a byte, which bounds
  their number by \<open>nleft\<close>.
\<close>

fun readnb_loop ::
    "nat \<Rightarrow> rio_t \<Rightarrow> read_answer list \<Rightarrow> nat \<Rightarrow> u8 list \<Rightarrow> (int \<times> u8 list \<times> rio_t \<times> read_answer list) cres option" where
  "readnb_loop fuel rp ans nleft buf =
     (if nleft = 0 then Some (Ret (int (length buf), buf, rp, ans))
      else case fuel of 0 \<Rightarrow> None
        | Suc fuel \<Rightarrow>
           (case rio_read rp ans nleft of
              Some (Ret (nread, bs, rp, ans)) \<Rightarrow>
                if nread < 0 then Some (Ret (- 1, buf, rp, ans))
                else if nread = 0 then Some (Ret (int (length buf), buf, rp, ans))
                else readnb_loop fuel rp ans (nleft - nat nread) (buf @ bs)
            | Some Exit \<Rightarrow> Some Exit | Some Undef \<Rightarrow> Some Undef | None \<Rightarrow> None))"

declare readnb_loop.simps [simp del]

definition rio_readnb ::
    "rio_t \<Rightarrow> read_answer list \<Rightarrow> nat \<Rightarrow> (int \<times> u8 list \<times> rio_t \<times> read_answer list) cres option" where
  "rio_readnb rp ans n = readnb_loop n rp ans n []"

text \<open>
  The loop of \<^verbatim>\<open>rio_readlineb\<close>: \<open>k\<close> iterations are left before \<^verbatim>\<open>n\<close> reaches \<^verbatim>\<open>maxlen\<close>; \<open>buf\<close> is the text read so
  far. \<^verbatim>\<open>n\<close> is an \<^verbatim>\<open>int\<close>, whose overflow has no meaning. The result is the returned count and the text before the final NUL.
\<close>

fun readlineb_loop ::
    "nat \<Rightarrow> int \<Rightarrow> rio_t \<Rightarrow> read_answer list \<Rightarrow> u8 list \<Rightarrow> (int \<times> u8 list \<times> rio_t \<times> read_answer list) cres option" where
  "readlineb_loop 0 n rp ans buf = Some (Ret (n, buf, rp, ans))"
| "readlineb_loop (Suc k) n rp ans buf =
     (case rio_read rp ans 1 of
        Some (Ret (rc, bs, rp, ans)) \<Rightarrow>
          if rc = 1
          then if hd bs = 10 then Some (Ret (n, buf @ bs, rp, ans))
               else if n = 2 ^ 31 - 1 then Some Undef
               else readlineb_loop k (n + 1) rp ans (buf @ bs)
          else if rc = 0
          then if n = 1 then Some (Ret (0, buf, rp, ans)) else Some (Ret (n, buf, rp, ans))
          else Some (Ret (- 1, buf, rp, ans))
      | Some Exit \<Rightarrow> Some Exit | Some Undef \<Rightarrow> Some Undef | None \<Rightarrow> None)"

definition rio_readlineb ::
    "rio_t \<Rightarrow> read_answer list \<Rightarrow> nat \<Rightarrow> (int \<times> u8 list \<times> rio_t \<times> read_answer list) cres option" where
  "rio_readlineb rp ans maxlen = readlineb_loop (maxlen - 1) 1 rp ans []"

section \<open>Wrappers\<close>

text \<open>\<^verbatim>\<open>unix_error\<close> and \<^verbatim>\<open>dns_error\<close> print a message and end the process.\<close>

definition unix_error :: "'a cres" where "unix_error = Exit"
definition dns_error :: "'a cres" where "dns_error = Exit"

definition Rio_readn :: "read_answer list \<Rightarrow> nat \<Rightarrow> (int \<times> u8 list \<times> read_answer list) cres option" where
  "Rio_readn ans n =
     map_option (\<lambda>r. cbind r (\<lambda>(n, buf, ans). if n < 0 then unix_error else Ret (n, buf, ans))) (rio_readn ans n)"

definition Rio_writen :: "int \<Rightarrow> write_answer list \<Rightarrow> u8 list \<Rightarrow> (u8 list \<times> write_answer list) cres option" where
  "Rio_writen errno ans buf =
     map_option (\<lambda>r. cbind r (\<lambda>(n, out, ans). if n \<noteq> int (length buf) then unix_error else Ret (out, ans)))
       (rio_writen errno ans buf)"

definition Rio_readinitb :: "rio_t \<Rightarrow> int \<Rightarrow> rio_t" where
  "Rio_readinitb rp fd = rio_readinitb rp fd"

definition Rio_readnb ::
    "rio_t \<Rightarrow> read_answer list \<Rightarrow> nat \<Rightarrow> (int \<times> u8 list \<times> rio_t \<times> read_answer list) cres option" where
  "Rio_readnb rp ans n =
     map_option (\<lambda>r. cbind r (\<lambda>(rc, x). if rc < 0 then unix_error else Ret (rc, x))) (rio_readnb rp ans n)"

definition Rio_readlineb ::
    "rio_t \<Rightarrow> read_answer list \<Rightarrow> nat \<Rightarrow> (int \<times> u8 list \<times> rio_t \<times> read_answer list) cres option" where
  "Rio_readlineb rp ans maxlen =
     map_option (\<lambda>r. cbind r (\<lambda>(rc, x). if rc < 0 then unix_error else Ret (rc, x))) (rio_readlineb rp ans maxlen)"


text \<open>The wrappers of single calls take the call's result.\<close>

definition unix_result :: "int \<Rightarrow> int cres" where
  "unix_result rc = (if rc < 0 then unix_error else Ret rc)"

definition Read :: "read_answer \<Rightarrow> (int \<times> u8 list) cres" where
  "Read a = (case a of Read_failed e \<Rightarrow> unix_error | Got bs \<Rightarrow> Ret (int (length bs), bs))"

definition Write :: "write_answer \<Rightarrow> int cres" where
  "Write a = (case a of Write_failed e \<Rightarrow> unix_error | Wrote k \<Rightarrow> Ret (int k))"

definition Socket :: "int \<Rightarrow> int cres" where
  "Socket rc = unix_result rc"

definition Setsockopt :: "int \<Rightarrow> unit cres" where
  "Setsockopt rc = (if rc < 0 then unix_error else Ret ())"

definition Bind :: "int \<Rightarrow> unit cres" where
  "Bind rc = (if rc < 0 then unix_error else Ret ())"

definition Listen :: "int \<Rightarrow> unit cres" where
  "Listen rc = (if rc < 0 then unix_error else Ret ())"

definition Accept :: "int \<Rightarrow> int cres" where
  "Accept rc = unix_result rc"

definition Connect :: "int \<Rightarrow> unit cres" where
  "Connect rc = (if rc < 0 then unix_error else Ret ())"

definition Gethostbyname :: "'h option \<Rightarrow> 'h cres" where
  "Gethostbyname p = (case p of None \<Rightarrow> dns_error | Some h \<Rightarrow> Ret h)"

section \<open>Writing\<close>

lemma writen_simps:
  "writen_loop errno ans [] out = Some (Ret (True, out, ans))"
  "bufp \<noteq> [] \<Longrightarrow> writen_loop errno [] bufp out = None"
  "bufp \<noteq> [] \<Longrightarrow> writen_loop errno (Write_failed e # ans) bufp out =
     (if e = EINTR then writen_loop e ans bufp out else Some (Ret (False, out, ans)))"
  "bufp \<noteq> [] \<Longrightarrow> writen_loop errno (Wrote k # ans) bufp out =
     (if k = 0 then if errno = EINTR then writen_loop errno ans bufp out else Some (Ret (False, out, ans))
      else if length bufp < k then Some Undef
      else writen_loop errno ans (drop k bufp) (out @ take k bufp))"
  by (subst writen_loop.simps; simp)+

lemma writen_loop_prefix:
  "writen_loop errno ans bufp out = Some (Ret (fin, out', ans')) \<Longrightarrow>
     \<exists>more. out' = out @ more \<and> prefix more bufp \<and> (fin \<longleftrightarrow> more = bufp)"
proof (induction ans arbitrary: errno bufp out)
  case Nil
  then show ?case by (cases "bufp = []") (simp_all add: writen_simps)
next
  case (Cons a ans)
  show ?case
  proof (cases "bufp = []")
    case True
    with Cons.prems show ?thesis by (simp add: writen_simps)
  next
    case False
    show ?thesis
    proof (cases a)
      case (Write_failed e)
      with False Cons.prems Cons.IH show ?thesis by (auto simp: writen_simps split: if_splits)
    next
      case (Wrote k)
      show ?thesis
      proof (cases "k = 0 \<or> length bufp < k")
        case True
        with False Wrote Cons.prems Cons.IH show ?thesis by (auto simp: writen_simps split: if_splits)
      next
        case k: False
        with False Wrote Cons.prems Cons.IH [of errno "drop k bufp" "out @ take k bufp"]
        obtain more where "out' = out @ take k bufp @ more" "prefix more (drop k bufp)"
          "fin \<longleftrightarrow> more = drop k bufp" by (auto simp: writen_simps)
        then show ?thesis
          by (intro exI [of _ "take k bufp @ more"])
            (metis append_take_drop_id same_prefix_prefix same_append_eq)
      qed
    qed
  qed
qed

text \<open>
  Fact: a robust write is all or nothing in its result. Whatever the short writes and
  interruptions, when \<^verbatim>\<open>rio_writen\<close> returns, the bytes written are the first ones of the buffer in order;
  it returns the length of the buffer when they are all of it, and \<^verbatim>\<open>-1\<close> when some are missing.
\<close>

theorem writen_writes_in_order:
  assumes "rio_writen errno ans buf = Some (Ret (rc, out, ans'))"
  shows "prefix out buf \<and> rc = (if out = buf then int (length buf) else - 1)"
proof -
  from assms obtain fin where "writen_loop errno ans buf [] = Some (Ret (fin, out, ans'))"
    "rc = (if fin then int (length buf) else - 1)"
    by (auto simp: rio_writen_def)
  with writen_loop_prefix [of errno ans buf "[]" fin out ans'] show ?thesis by auto
qed

theorem writen_writes_in_order_witness:
  "prefix [1, 2, 3 :: u8] [1, 2, 3]"
proof -
  have "rio_writen 0 [Wrote 1, Write_failed EINTR, Wrote 2] [1, 2, 3] = Some (Ret (3, [1, 2, 3], []))"
    by (simp add: rio_writen_def writen_simps)
  from writen_writes_in_order [OF this] show ?thesis by simp
qed

text \<open>The answers to a write of \<open>n\<close> bytes that goes through: each takes some of them or is an interruption.\<close>

fun goes_through :: "write_answer list \<Rightarrow> nat \<Rightarrow> bool" where
  "goes_through ans n =
     (n = 0 \<or> (case ans of [] \<Rightarrow> False
        | Wrote k # ans \<Rightarrow> 0 < k \<and> k \<le> n \<and> goes_through ans (n - k)
        | Write_failed e # ans \<Rightarrow> e = EINTR \<and> goes_through ans n))"

declare goes_through.simps [simp del]

lemma goes_through_Cons:
  "goes_through (Wrote k # ans) n \<longleftrightarrow> n = 0 \<or> 0 < k \<and> k \<le> n \<and> goes_through ans (n - k)"
  "goes_through (Write_failed e # ans) n \<longleftrightarrow> n = 0 \<or> e = EINTR \<and> goes_through ans n"
  by (subst goes_through.simps; simp)+

lemma writen_loop_returns:
  "goes_through ans (length bufp) \<Longrightarrow> \<exists>ans'. writen_loop errno ans bufp out = Some (Ret (True, out @ bufp, ans'))"
proof (induction ans arbitrary: errno bufp out)
  case Nil
  then show ?case by (simp add: goes_through.simps writen_simps)
next
  case (Cons a ans)
  show ?case
  proof (cases "bufp = []")
    case True
    then show ?thesis by (simp add: writen_simps)
  next
    case False
    show ?thesis
    proof (cases a)
      case (Wrote k)
      with False Cons.prems have k: "0 < k" "k \<le> length bufp" "goes_through ans (length (drop k bufp))"
        by (simp_all add: goes_through_Cons)
      with False Wrote Cons.IH [OF k(3), of errno "out @ take k bufp"] show ?thesis
        by (simp add: writen_simps)
    next
      case (Write_failed e)
      with False Cons.prems have e: "e = EINTR" "goes_through ans (length bufp)"
        by (simp_all add: goes_through_Cons)
      with False Write_failed Cons.IH [OF e(2), of e out] show ?thesis
        by (simp add: writen_simps)
    qed
  qed
qed

text \<open>
  Property C34: a robust write returns. When every answer of the system takes at least a byte or is an
  interruption, and together they take the whole buffer, \<^verbatim>\<open>rio_writen\<close> returns its length and has
  written all of it.
\<close>

theorem writen_returns:
  assumes "goes_through ans (length buf)"
  shows "\<exists>ans'. rio_writen errno ans buf = Some (Ret (int (length buf), buf, ans'))"
  using writen_loop_returns [OF assms, of errno "[]"] by (auto simp: rio_writen_def)

theorem writen_returns_witness:
  "\<exists>ans'. rio_writen 0 [Write_failed EINTR, Wrote 1, Write_failed EINTR, Wrote 2] [7, 8, 9] = Some (Ret (3, [7, 8, 9], ans'))"
  using writen_returns [of "[Write_failed EINTR, Wrote 1, Write_failed EINTR, Wrote 2]" "[7, 8, 9]" 0]
  by (simp add: goes_through_Cons goes_through.simps [of _ 0])

section \<open>The buffered reader is the stream\<close>

definition rio_wf :: "rio_t \<Rightarrow> bool" where
  "rio_wf rp \<longleftrightarrow> length (rio_buf rp) = RIO_BUFSIZE \<and>
     (0 < rio_cnt rp \<longrightarrow> rio_bufptr rp + nat (rio_cnt rp) \<le> RIO_BUFSIZE)"

definition unread :: "rio_t \<Rightarrow> u8 list" where
  "unread rp = take (nat (rio_cnt rp)) (drop (rio_bufptr rp) (rio_buf rp))"

text \<open>What the system delivers up to the first end of file or error.\<close>

fun delivered :: "read_answer list \<Rightarrow> u8 list" where
  "delivered [] = []"
| "delivered (Got bs # ans) = (if bs = [] then [] else bs @ delivered ans)"
| "delivered (Read_failed e # ans) = (if e = EINTR then delivered ans else [])"

definition stream :: "rio_t \<Rightarrow> read_answer list \<Rightarrow> u8 list" where
  "stream rp ans = unread rp @ delivered ans"

definition fits :: "read_answer list \<Rightarrow> bool" where
  "fits ans \<longleftrightarrow> (\<forall>bs. Got bs \<in> set ans \<longrightarrow> length bs \<le> RIO_BUFSIZE)"

lemma fits_Cons [simp]:
  "fits (Got bs # ans) \<longleftrightarrow> length bs \<le> RIO_BUFSIZE \<and> fits ans" "fits (Read_failed e # ans) = fits ans" "fits []"
  by (auto simp: fits_def)

lemma rio_fill_stream:
  assumes "rio_wf rp" and "fits ans" and "rio_fill rp ans = Some r"
  shows "\<exists>rc rp' ans'. r = Ret (rc, rp', ans') \<and> rio_wf rp' \<and> fits ans' \<and>
    (if rc = 1 then 0 < rio_cnt rp' \<and> stream rp ans = stream rp' ans'
     else (rc = 0 \<or> rc = - 1) \<and> stream rp ans = [])"
  using assms
proof (induction ans arbitrary: rp)
  case Nil
  then show ?case by (auto simp: rio_fill.simps split: if_splits)
next
  case (Cons a ans)
  show ?case
  proof (cases "0 < rio_cnt rp")
    case True
    with Cons.prems show ?thesis by (auto simp: rio_fill.simps)
  next
    case False
    then have empty: "unread rp = []" by (simp add: unread_def)
    show ?thesis
    proof (cases a)
      case (Got bs)
      let ?rp = "rp\<lparr>rio_cnt := int (length bs), rio_buf := bs @ drop (length bs) (rio_buf rp)\<rparr>"
      from Cons.prems Got have bs: "length bs \<le> RIO_BUFSIZE" "fits ans" by simp_all
      show ?thesis
      proof (cases "bs = []")
        case True
        with False Got Cons.prems empty show ?thesis
          by (intro exI [of _ "0 :: int"]) (auto simp: rio_fill.simps [of rp] stream_def rio_wf_def)
      next
        case ne: False
        have wf: "rio_wf (?rp\<lparr>rio_bufptr := 0\<rparr>)"
          using Cons.prems(1) bs(1) by (simp add: rio_wf_def)
        have fill: "rio_fill (?rp\<lparr>rio_bufptr := 0\<rparr>) ans = Some r"
          using Cons.prems(3) False Got ne bs(1) by (simp add: rio_fill.simps [of rp] Let_def)
        have eq: "stream (?rp\<lparr>rio_bufptr := 0\<rparr>) ans = stream rp (a # ans)"
          using ne Got empty by (simp add: stream_def unread_def)
        from Cons.IH [OF wf bs(2) fill] show ?thesis unfolding eq .
      qed
    next
      case (Read_failed e)
      let ?rp = "rp\<lparr>rio_cnt := - 1\<rparr>"
      have wf: "rio_wf ?rp" using Cons.prems(1) by (simp add: rio_wf_def)
      have e': "unread ?rp = []" by (simp add: unread_def)
      show ?thesis
      proof (cases "e = EINTR")
        case True
        with Cons.prems False Read_failed have fill: "rio_fill ?rp ans = Some r" and "fits ans"
          by (simp_all add: rio_fill.simps [of rp] Let_def)
        with Cons.IH [OF wf] have "\<exists>rc rp' ans'. r = Ret (rc, rp', ans') \<and> rio_wf rp' \<and> fits ans' \<and>
            (if rc = 1 then 0 < rio_cnt rp' \<and> stream ?rp ans = stream rp' ans'
             else (rc = 0 \<or> rc = - 1) \<and> stream ?rp ans = [])" by blast
        moreover have eq: "stream ?rp ans = stream rp (a # ans)"
          using Read_failed True empty e' by (simp add: stream_def)
        ultimately show ?thesis unfolding eq by blast
      next
        case other: False
        with Cons.prems False Read_failed wf empty show ?thesis
          by (intro exI [of _ "- 1 :: int"]) (auto simp: rio_fill.simps [of rp] Let_def stream_def)
      qed
    qed
  qed
qed

lemma rio_read_stream:
  assumes "rio_wf rp" and "fits ans" and "0 < n" and "rio_read rp ans n = Some r"
  obtains rc bs rp' ans' where "r = Ret (rc, bs, rp', ans')" and "rio_wf rp'" and "fits ans'"
    and "if 0 < rc then rc = int (length bs) \<and> length bs \<le> n \<and> stream rp ans = bs @ stream rp' ans'
         else (rc = 0 \<or> rc = - 1) \<and> bs = [] \<and> stream rp ans = []"
proof -
  from assms(4) obtain x where x: "rio_fill rp ans = Some x" by (auto simp: rio_read_def)
  from rio_fill_stream [OF assms(1,2) x] obtain rc q ans' where
    q: "x = Ret (rc, q, ans')" "rio_wf q" "fits ans'" and
    rc: "if rc = 1 then 0 < rio_cnt q \<and> stream rp ans = stream q ans'
      else (rc = 0 \<or> rc = - 1) \<and> stream rp ans = []" by blast
  show thesis
  proof (cases "rc = 1")
    case False
    with rc assms(4) x q have "r = Ret (rc, [], q, ans')" by (simp add: rio_read_def)
    with that [OF this q(2,3)] rc False show thesis by auto
  next
    case True
    with rc have c: "0 < rio_cnt q" "stream rp ans = stream q ans'" by simp_all
    define k where "k = (if rio_cnt q < int n then nat (rio_cnt q) else n)"
    have k: "0 < k" "k \<le> n" "k \<le> nat (rio_cnt q)" using c assms(3) by (auto simp: k_def)
    have room: "rio_bufptr q + nat (rio_cnt q) \<le> length (rio_buf q)" "length (rio_buf q) = RIO_BUFSIZE"
      using q(2) c(1) by (simp_all add: rio_wf_def)
    let ?bs = "take k (drop (rio_bufptr q) (rio_buf q))"
    let ?q = "q\<lparr>rio_bufptr := rio_bufptr q + k, rio_cnt := rio_cnt q - int k\<rparr>"
    have "r = Ret (int k, ?bs, ?q, ans')"
      using assms(4) x q(1) True room k by (simp add: rio_read_def Let_def flip: k_def)
    moreover have "rio_wf ?q" using q(2) k room by (auto simp: rio_wf_def nat_diff_distrib')
    moreover have "unread q = ?bs @ unread ?q"
    proof -
      have "nat (rio_cnt q) = k + nat (rio_cnt q - int k)" using k by simp
      then have "unread q = take (k + nat (rio_cnt q - int k)) (drop (rio_bufptr q) (rio_buf q))"
        by (simp only: unread_def)
      then show ?thesis by (simp add: take_add unread_def add.commute)
    qed
    moreover have "length ?bs = k" using k room by simp
    moreover from calculation(3) have "stream rp ans = ?bs @ stream ?q ans'" using c(2) by (simp add: stream_def)
    ultimately show thesis using k that [of "int k" ?bs ?q ans'] q(3) by simp
  qed
qed

lemma readnb_loop_stream:
  assumes "rio_wf rp" and "fits ans" and "nleft \<le> fuel" and "readnb_loop fuel rp ans nleft buf = Some r"
  shows "\<exists>rc rp' ans'. r = Ret (rc, buf @ take nleft (stream rp ans), rp', ans') \<and> rio_wf rp' \<and>
    (rc = int (length buf + length (take nleft (stream rp ans))) \<or> rc = - 1 \<and> length (stream rp ans) < nleft) \<and>
    (nleft \<le> length (stream rp ans) \<longrightarrow> stream rp' ans' = drop nleft (stream rp ans))"
  using assms
proof (induction fuel arbitrary: rp ans nleft buf)
  case 0
  then show ?case by (auto simp: readnb_loop.simps)
next
  case (Suc fuel)
  show ?case
  proof (cases "nleft = 0")
    case True
    with Suc.prems show ?thesis by (auto simp: readnb_loop.simps)
  next
    case False
    with Suc.prems(4) obtain x where x: "rio_read rp ans nleft = Some x"
      by (auto simp: readnb_loop.simps split: option.splits)
    from False have "0 < nleft" by simp
    from rio_read_stream [OF Suc.prems(1,2) this x] obtain rc bs q ans' where
      q: "x = Ret (rc, bs, q, ans')" "rio_wf q" "fits ans'" and
      rc: "if 0 < rc then rc = int (length bs) \<and> length bs \<le> nleft \<and> stream rp ans = bs @ stream q ans'
         else (rc = 0 \<or> rc = - 1) \<and> bs = [] \<and> stream rp ans = []" .
    show ?thesis
    proof (cases "0 < rc")
      case True
      with rc have bs: "rc = int (length bs)" "length bs \<le> nleft" "stream rp ans = bs @ stream q ans'" by simp_all
      with True have "0 < length bs" by simp
      with Suc.prems(3) have "nleft - length bs \<le> fuel" by linarith
      moreover have "readnb_loop fuel q ans' (nleft - length bs) (buf @ bs) = Some r"
        using Suc.prems(4) False x q(1) True bs(1) by (simp add: readnb_loop.simps [of "Suc fuel"])
      ultimately show ?thesis
        using Suc.IH [OF q(2,3), of "nleft - length bs" "buf @ bs"] bs by auto
    next
      case no: False
      with rc Suc.prems(4) False x q show ?thesis
        by (auto simp: readnb_loop.simps [of "Suc fuel"])
    qed
  qed
qed

text \<open>
  Property C21: the buffered reader refines the byte stream. Whatever the sizes of the system's answers
  and its interruptions, when \<^verbatim>\<open>rio_readnb\<close> returns it has copied the next \<open>n\<close> bytes of the stream, or
  all that is left before the end of the file or an error; it returns their number, or \<^verbatim>\<open>-1\<close> only when
  fewer than \<open>n\<close> were left; and the bytes it has not copied are still the stream.
\<close>

theorem readnb_refines_stream:
  assumes "rio_wf rp" and "fits ans" and "rio_readnb rp ans n = Some r"
  shows "\<exists>rc rp' ans'. r = Ret (rc, take n (stream rp ans), rp', ans') \<and> rio_wf rp' \<and>
    (rc = int (length (take n (stream rp ans))) \<or> rc = - 1 \<and> length (stream rp ans) < n) \<and>
    (n \<le> length (stream rp ans) \<longrightarrow> stream rp' ans' = drop n (stream rp ans))"
  using readnb_loop_stream [OF assms(1,2), of n n "[]" r] assms(3) by (simp add: rio_readnb_def)

definition sample_rio :: rio_t where
  "sample_rio = rio_readinitb \<lparr>rio_fd = 0, rio_cnt = 0, rio_bufptr = 0, rio_buf = replicate RIO_BUFSIZE 0\<rparr> 3"

lemma sample_rio_wf: "rio_wf sample_rio"
  by (simp add: sample_rio_def rio_readinitb_def rio_wf_def)

lemma sample_rio_stream: "stream sample_rio [Got [1, 2], Read_failed EINTR, Got [3], Got []] = [1, 2, 3]"
  by (simp add: sample_rio_def rio_readinitb_def stream_def unread_def)


lemma sample_rio_fill:
  "rio_fill sample_rio (Got [1, 2] # ans) = Some (Ret (1, sample_rio\<lparr>rio_cnt := 2,
     rio_buf := [1, 2] @ drop 2 (rio_buf sample_rio)\<rparr>, ans))"
  by (simp add: rio_fill.simps sample_rio_def rio_readinitb_def RIO_BUFSIZE_def Let_def)

theorem readnb_refines_stream_witness:
  "\<exists>rp ans. rio_readnb sample_rio [Got [1, 2], Read_failed EINTR, Got [3], Got []] 2 = Some (Ret (2, [1, 2], rp, ans)) \<and>
     stream rp ans = [3]"
proof -
  let ?ans = "[Got [1, 2], Read_failed EINTR, Got [3], Got []]"
  have f: "fits ?ans" by (simp add: RIO_BUFSIZE_def)
  have "rio_bufptr sample_rio = 0" by (simp add: sample_rio_def rio_readinitb_def)
  then obtain r where r: "rio_readnb sample_rio ?ans 2 = Some r"
    by (simp add: rio_readnb_def readnb_loop.simps rio_read_def sample_rio_fill)
  from readnb_refines_stream [OF sample_rio_wf f r] show ?thesis
    unfolding r by (auto simp: sample_rio_stream)
qed

section \<open>Lines\<close>

text \<open>The text up to the first newline, with it.\<close>

definition first_line :: "u8 list \<Rightarrow> u8 list" where
  "first_line s = takeWhile (\<lambda>c. c \<noteq> 10) s @ (if 10 \<in> set s then [10] else [])"

lemma first_line_simps [simp]:
  "first_line [] = []" "first_line (10 # s) = [10]" "c \<noteq> 10 \<Longrightarrow> first_line (c # s) = c # first_line s"
  by (simp_all add: first_line_def)

definition line_count :: "u8 list \<Rightarrow> int" where
  "line_count buf =
     (if buf = [] then 0 else if List.last buf = 10 then int (length buf) else int (length buf) + 1)"

text \<open>
  How what the system delivers ends: by an error or by the end of the file, with the answers that are left then; \<open>None\<close> while the
  answers only interrupt and deliver.
\<close>

fun stream_end :: "read_answer list \<Rightarrow> (bool \<times> read_answer list) option" where
  "stream_end [] = None"
| "stream_end (Got bs # ans) = (if bs = [] then Some (False, ans) else stream_end ans)"
| "stream_end (Read_failed e # ans) = (if e = EINTR then stream_end ans else Some (True, ans))"

lemma unread_Nil: "rio_cnt rp \<le> 0 \<Longrightarrow> unread rp = []"
  by (simp add: unread_def)

lemma unread_not_Nil: "rio_wf rp \<Longrightarrow> 0 < rio_cnt rp \<Longrightarrow> unread rp \<noteq> []"
  by (auto simp: unread_def rio_wf_def)

text \<open>The refill, from the stream: it fills the buffer while there is a byte, and reports the end.\<close>

lemma rio_fill_end:
  assumes "rio_wf rp" and "fits ans"
  shows "(stream rp ans \<noteq> [] \<longrightarrow> (\<exists>q ans'. rio_fill rp ans = Some (Ret (1, q, ans')) \<and>
        stream_end ans' = stream_end ans)) \<and>
    (stream rp ans = [] \<longrightarrow> (case stream_end ans of
        None \<Rightarrow> rio_fill rp ans = None
      | Some (failed, ans') \<Rightarrow> \<exists>q. rio_fill rp ans = Some (Ret (if failed then - 1 else 0, q, ans')) \<and>
          rio_wf q \<and> unread q = []))"
  using assms
proof (induction ans arbitrary: rp)
  case Nil
  then show ?case using unread_not_Nil [of rp] unread_Nil [of rp] by (auto simp: rio_fill.simps stream_def)
next
  case (Cons a ans)
  show ?case
  proof (cases "0 < rio_cnt rp")
    case True
    then show ?thesis using unread_not_Nil [OF Cons.prems(1)] by (auto simp: rio_fill.simps stream_def)
  next
    case False
    then have empty: "unread rp = []" by (simp add: unread_Nil)
    show ?thesis
    proof (cases a)
      case (Got bs)
      let ?q = "rp\<lparr>rio_cnt := int (length bs), rio_buf := bs @ drop (length bs) (rio_buf rp)\<rparr>"
      from Cons.prems Got have bs: "length bs \<le> RIO_BUFSIZE" "fits ans" by simp_all
      show ?thesis
      proof (cases "bs = []")
        case True
        with False Got Cons.prems(1) empty show ?thesis
          by (auto simp: rio_fill.simps [of rp] stream_def rio_wf_def unread_def)
      next
        case ne: False
        let ?r = "?q\<lparr>rio_bufptr := 0\<rparr>"
        have wf: "rio_wf ?r" using Cons.prems(1) bs(1) by (simp add: rio_wf_def)
        have same: "rio_fill rp (a # ans) = rio_fill ?r ans" "stream_end (a # ans) = stream_end ans"
          using False Got ne bs(1) by (simp_all add: rio_fill.simps [of rp] Let_def)
        have "stream rp (a # ans) = stream ?r ans" using ne Got empty by (simp add: stream_def unread_def)
        then show ?thesis unfolding same using Cons.IH [OF wf bs(2)] by (simp only:)
      qed
    next
      case (Read_failed e)
      let ?q = "rp\<lparr>rio_cnt := - 1\<rparr>"
      have wf: "rio_wf ?q" using Cons.prems(1) by (simp add: rio_wf_def)
      have unread: "unread ?q = []" by (simp add: unread_def)
      show ?thesis
      proof (cases "e = EINTR")
        case True
        have same: "rio_fill rp (a # ans) = rio_fill ?q ans" "stream_end (a # ans) = stream_end ans"
          using False Read_failed True by (simp_all add: rio_fill.simps [of rp] Let_def)
        have "fits ans" using Read_failed Cons.prems(2) by simp
        note IH = Cons.IH [OF wf this]
        have "stream rp (a # ans) = stream ?q ans" using Read_failed True empty unread by (simp add: stream_def)
        then show ?thesis unfolding same using IH by (simp only:)
      next
        case other: False
        with False Read_failed wf unread empty show ?thesis
          by (auto simp: rio_fill.simps [of rp] Let_def stream_def)
      qed
    qed
  qed
qed

lemma rio_read_byte:
  assumes "rio_wf rp" and "fits ans" and "stream rp ans = c # s"
  shows "\<exists>q ans'. rio_read rp ans 1 = Some (Ret (1, [c], q, ans')) \<and> rio_wf q \<and> fits ans' \<and>
    stream q ans' = s \<and> stream_end ans' = stream_end ans"
proof -
  from rio_fill_end [OF assms(1,2)] assms(3) obtain q ans' where
    fill: "rio_fill rp ans = Some (Ret (1, q, ans'))" "stream_end ans' = stream_end ans" by auto
  then obtain r where r: "rio_read rp ans 1 = Some r" by (simp add: rio_read_def)
  from rio_read_stream [OF assms(1,2) zero_less_one r] obtain rc bs u as where
    u: "r = Ret (rc, bs, u, as)" "rio_wf u" "fits as" and
    rc: "if 0 < rc then rc = int (length bs) \<and> length bs \<le> 1 \<and> stream rp ans = bs @ stream u as
       else (rc = 0 \<or> rc = - 1) \<and> bs = [] \<and> stream rp ans = []" .
  have "0 < rc" using rc assms(3) by (auto split: if_splits)
  with rc assms(3) have "bs = [c]" "rc = 1" "stream u as = s" by (cases bs; simp)+
  moreover have "as = ans'" using r fill(1) u(1) by (auto simp: rio_read_def Let_def split: if_splits)
  ultimately show ?thesis using r u fill(2) by auto
qed

lemma rio_read_end:
  assumes "rio_wf rp" and "fits ans" and "stream rp ans = []"
  shows "case stream_end ans of None \<Rightarrow> rio_read rp ans 1 = None
    | Some (failed, ans') \<Rightarrow> \<exists>q. rio_read rp ans 1 = Some (Ret (if failed then - 1 else 0, [], q, ans')) \<and>
        rio_wf q \<and> unread q = []"
proof (cases "stream_end ans")
  case None
  with rio_fill_end [OF assms(1,2)] assms(3) show ?thesis by (simp add: rio_read_def)
next
  case (Some x)
  obtain failed ans' where x: "x = (failed, ans')" by (cases x)
  from rio_fill_end [OF assms(1,2)] assms(3) obtain q where
    "rio_fill rp ans = Some (Ret (if failed then - 1 else 0, q, ans'))" "rio_wf q" "unread q = []" by (auto simp: Some x)
  then show ?thesis by (simp add: Some x rio_read_def)
qed

text \<open>The line that a reader with room for \<open>k\<close> bytes copies, and whether the stream ends before it is complete.\<close>

definition line_in :: "nat \<Rightarrow> u8 list \<Rightarrow> u8 list" where
  "line_in k s = take k (first_line s)"

definition cut_short :: "nat \<Rightarrow> u8 list \<Rightarrow> bool" where
  "cut_short k s \<longleftrightarrow> length s < k \<and> 10 \<notin> set s"

lemma line_in_simps:
  "line_in 0 s = []" "line_in k [] = []" "line_in (Suc k) (10 # s) = [10]"
  "c \<noteq> 10 \<Longrightarrow> line_in (Suc k) (c # s) = c # line_in k s"
  by (simp_all add: line_in_def)

lemma cut_short_simps:
  "\<not> cut_short 0 s" "cut_short (Suc k) []" "\<not> cut_short (Suc k) (10 # s)"
  "c \<noteq> 10 \<Longrightarrow> cut_short (Suc k) (c # s) = cut_short k s"
  by (auto simp: cut_short_def)

lemma readlineb_loop_line:
  assumes "rio_wf rp" and "fits ans" and "10 \<notin> set buf" and "0 < k \<or> buf \<noteq> []"
    and "int (length buf) + int k < 2 ^ 31 - 1"
  shows "if cut_short k (stream rp ans) \<and> stream_end ans = None
    then readlineb_loop k (int (length buf) + 1) rp ans buf = None
    else \<exists>rc q ans'. readlineb_loop k (int (length buf) + 1) rp ans buf =
        Some (Ret (rc, buf @ line_in k (stream rp ans), q, ans')) \<and> rio_wf q \<and>
      (if cut_short k (stream rp ans)
       then \<exists>failed. stream_end ans = Some (failed, ans') \<and> unread q = [] \<and>
         rc = (if failed then - 1 else line_count (buf @ line_in k (stream rp ans)))
       else stream q ans' = drop (length (line_in k (stream rp ans))) (stream rp ans) \<and>
         rc = line_count (buf @ line_in k (stream rp ans)))"
  using assms
proof (induction k arbitrary: rp ans buf)
  case 0
  then have "buf \<noteq> []" by simp
  with 0(3) have "List.last buf \<noteq> 10" using last_in_set by metis
  with 0 show ?case by (simp add: line_count_def line_in_simps cut_short_simps)
next
  case (Suc k)
  have last: "List.last buf = 10 \<longrightarrow> buf = []" using Suc.prems(3) last_in_set by metis
  show ?case
  proof (cases "stream rp ans")
    case Nil
    show ?thesis
    proof (cases "stream_end ans")
      case None
      with rio_read_end [OF Suc.prems(1,2) Nil] Nil show ?thesis by (simp add: cut_short_simps)
    next
      case (Some x)
      obtain failed ans' where x: "x = (failed, ans')" by (cases x)
      from rio_read_end [OF Suc.prems(1,2) Nil] obtain q where
        "rio_read rp ans 1 = Some (Ret (if failed then - 1 else 0, [], q, ans'))" "rio_wf q" "unread q = []"
        by (auto simp: Some x)
      then show ?thesis using last by (cases failed) (auto simp: Nil Some x cut_short_simps line_in_simps line_count_def)
    qed
  next
    case (Cons c s)
    from rio_read_byte [OF Suc.prems(1,2) Cons] obtain q ans' where
      q: "rio_read rp ans 1 = Some (Ret (1, [c], q, ans'))" "rio_wf q" "fits ans'" "stream q ans' = s"
      "stream_end ans' = stream_end ans" by blast
    show ?thesis
    proof (cases "c = 10")
      case True
      with q Cons show ?thesis by (simp add: cut_short_simps line_in_simps line_count_def)
    next
      case False
      have n: "int (length (buf @ [c])) + int k < 2 ^ 31 - 1" "int (length buf) + 1 \<noteq> 2 ^ 31 - 1"
        using Suc.prems(5) by simp_all
      have step: "readlineb_loop (Suc k) (int (length buf) + 1) rp ans buf =
          readlineb_loop k (int (length (buf @ [c])) + 1) q ans' (buf @ [c])"
        using q(1) False n(2) by (simp add: algebra_simps)
      have "10 \<notin> set (buf @ [c])" "0 < k \<or> buf @ [c] \<noteq> []" using Suc.prems(3) False by simp_all
      note IH = Suc.IH [OF q(2,3) this n(1)]
      have "cut_short (Suc k) (c # s) = cut_short k s" "buf @ line_in (Suc k) (c # s) = (buf @ [c]) @ line_in k s"
        "drop (length (line_in (Suc k) (c # s))) (c # s) = drop (length (line_in k s)) s"
        using False by (simp_all add: cut_short_simps line_in_simps)
      note moved = Cons this step
      from IH show ?thesis unfolding moved q(4,5) .
    qed
  qed
qed

text \<open>
  Property C35: what the line reader returns. With a \<^verbatim>\<open>maxlen\<close> that an \<^verbatim>\<open>int\<close> can count to, \<^verbatim>\<open>rio_readlineb\<close> copies the next
  line of the stream with its newline, cut to \<open>maxlen - 1\<close> bytes, and the stream goes on behind it. When the stream ends
  first, the text is what was left; the result is then \<open>-1\<close> exactly for an error, and a reader whose descriptor delivers
  nothing more and does not end waits. In the other cases the number it returns is the length of the text only when the
  text ends with a newline or nothing was read; for a line cut by \<^verbatim>\<open>maxlen\<close> or by the end of the file it is
  one more than the number of bytes copied.
\<close>

theorem readlineb_reads_line:
  assumes "rio_wf rp" and "fits ans" and "1 < maxlen" and "maxlen < 2 ^ 31"
  shows "if cut_short (maxlen - 1) (stream rp ans) \<and> stream_end ans = None
    then rio_readlineb rp ans maxlen = None
    else \<exists>rc q ans'. rio_readlineb rp ans maxlen = Some (Ret (rc, line_in (maxlen - 1) (stream rp ans), q, ans')) \<and> rio_wf q \<and>
      (if cut_short (maxlen - 1) (stream rp ans)
       then \<exists>failed. stream_end ans = Some (failed, ans') \<and> unread q = [] \<and>
         rc = (if failed then - 1 else line_count (line_in (maxlen - 1) (stream rp ans)))
       else stream q ans' = drop (length (line_in (maxlen - 1) (stream rp ans))) (stream rp ans) \<and>
         rc = line_count (line_in (maxlen - 1) (stream rp ans)))"
proof -
  have n: "int (length ([] :: u8 list)) + int (maxlen - 1) < 2 ^ 31 - 1" using assms(4) by simp
  have k: "10 \<notin> set ([] :: u8 list)" "0 < maxlen - 1 \<or> ([] :: u8 list) \<noteq> []" using assms(3) by simp_all
  show ?thesis
    using readlineb_loop_line [OF assms(1,2) k n]
    unfolding rio_readlineb_def by (simp only: list.size int_ops(1) add_0 append_Nil)
qed

theorem readlineb_reads_line_witness:
  "(\<exists>q ans. rio_readlineb sample_rio [Got [65, 10, 66], Got []] 100 = Some (Ret (2, [65, 10], q, ans)) \<and> stream q ans = [66]) \<and>
   (\<exists>q ans. rio_readlineb sample_rio [Got [65, 66], Read_failed 9] 3 = Some (Ret (3, [65, 66], q, ans)) \<and> stream q ans = []) \<and>
   (\<exists>q. rio_readlineb sample_rio [Got [65], Read_failed 9] 100 = Some (Ret (- 1, [65], q, [])) \<and> unread q = []) \<and>
   rio_readlineb sample_rio [Got [65], Read_failed EINTR] 100 = None"
proof -
  have u: "stream sample_rio ans = delivered ans" for ans by (simp add: sample_rio_def rio_readinitb_def stream_def unread_def)
  note line = readlineb_reads_line [OF sample_rio_wf]
  have "fits [Got [65, 10, 66], Got []]" "fits [Got [65, 66], Read_failed 9]" "fits [Got [65], Read_failed 9]"
    "fits [Got [65], Read_failed EINTR]" by (simp_all add: RIO_BUFSIZE_def)
  note 1 = line [OF this(1), of 100] and 2 = line [OF this(2), of 3] and 3 = line [OF this(3), of 100]
    and 4 = line [OF this(4), of 100]
  have c: "\<not> cut_short 99 [65, 10, 66]" "line_in 99 [65, 10, 66] = [65, 10]" "\<not> cut_short 2 [65, 66]"
    "line_in 2 [65, 66] = [65, 66]" "cut_short 99 [65]" "line_in 99 [65] = [65]"
    by (simp_all add: cut_short_def line_in_def first_line_def)
  have e: "EINTR \<noteq> 9" by (simp add: EINTR_def)
  show ?thesis
    using 1 2 3 4 e by (simp add: u c line_count_def) auto
qed

end
