(* ===== verification/Flex_Buffer.thy ===== *)
theory Flex_Buffer
  imports Scanner Csapp
begin

text \<open>
  The state of the generated scanner in \<^verbatim>\<open>scanner.c\<close>: the input buffers, the stack of buffers, and the
  globals of a reentrant scanner (\<^verbatim>\<open>struct yyguts_t\<close>), with the functions that create, load, flush, switch,
  push, pop and delete buffers, the accessors, and the creation and destruction of a scanner.

  A pointer to a buffer state is its place in \<open>yy_buffers\<close>, the buffers allocated so far, where a freed one is
  \<open>None\<close>; a pointer into the text of a buffer is an index of \<open>yy_ch_buf\<close>. \<^verbatim>\<open>malloc\<close> is a parameter: for a
  size, \<open>None\<close> when it refuses, otherwise the bytes it finds. \<^verbatim>\<open>yy_fatal_error\<close> ends the process (\<open>Exit\<close>); the use of a
  null or freed pointer and an access outside a buffer are \<open>Undef\<close>. A \<^verbatim>\<open>FILE *\<close> is a number or \<open>None\<close>.

  The lemmas show how the stack of buffers behaves, and what the destruction of a scanner frees.
\<close>

section \<open>State\<close>

datatype yy_status = YY_BUFFER_NEW | YY_BUFFER_NORMAL | YY_BUFFER_EOF_PENDING

record yy_buffer_state =
  yy_input_file :: "nat option"
  yy_ch_buf :: string
  yy_buf_pos :: nat
  yy_buf_size :: nat
  yy_b_n_chars :: nat
  yy_is_our_buffer :: bool
  yy_is_interactive :: bool
  yy_at_bol :: bool
  yy_bs_lineno :: int
  yy_bs_column :: int
  yy_fill_buffer :: bool
  yy_buffer_status :: yy_status

text \<open>\<open>yyg_start\<close> is \<^verbatim>\<open>yy_start\<close>; \<open>yyextra_r\<close> is the structure the pointer leads to.\<close>

record yyguts =
  yyextra_r :: parser_data
  yyin_r :: "nat option"
  yyout_r :: "nat option"
  yy_buffer_stack_top :: nat
  yy_buffer_stack_max :: nat
  yy_buffer_stack :: "nat option list option"
  yy_hold_char :: char
  yy_n_chars :: nat
  yyleng_r :: nat
  yy_c_buf_p :: nat
  yy_init :: bool
  yyg_start :: nat
  yy_did_buffer_switch_on_eof :: bool
  yy_start_stack_ptr :: nat
  yy_start_stack_depth :: nat
  yy_start_stack :: "nat list option"
  yy_last_accepting_state :: nat
  yy_last_accepting_cpos :: nat
  yylineno_r :: int
  yy_flex_debug_r :: int
  yytext_r :: nat
  yy_more_flag :: int
  yy_more_len :: int
  yy_buffers :: "yy_buffer_state option list"

definition YY_BUF_SIZE :: nat where
  "YY_BUF_SIZE = 16384"

definition sizeof_yy_buffer_state :: nat where
  "sizeof_yy_buffer_state = 64"

definition sizeof_yyguts :: nat where
  "sizeof_yyguts = 144"

definition yyalloc :: "(nat \<Rightarrow> string option) \<Rightarrow> nat \<Rightarrow> string option" where
  "yyalloc malloc n = malloc n"

definition yyrealloc :: "(nat \<Rightarrow> string option) \<Rightarrow> string \<Rightarrow> nat \<Rightarrow> string option" where
  "yyrealloc malloc ptr n =
     (case malloc n of None \<Rightarrow> None | Some new \<Rightarrow> Some (take n ptr @ drop (length ptr) new))"

text \<open>\<^verbatim>\<open>malloc\<close> gives as many bytes as it is asked for.\<close>

definition malloc_ok :: "(nat \<Rightarrow> string option) \<Rightarrow> bool" where
  "malloc_ok malloc \<longleftrightarrow> (\<forall>n s. malloc n = Some s \<longrightarrow> length s = n)"

definition yy_fatal_error :: "'a cres" where
  "yy_fatal_error = Exit"

section \<open>Pointers\<close>

definition YY_CURRENT_BUFFER :: "yyguts \<Rightarrow> nat option" where
  "YY_CURRENT_BUFFER g =
     (case yy_buffer_stack g of None \<Rightarrow> None | Some stack \<Rightarrow> stack ! yy_buffer_stack_top g)"

text \<open>The assignment \<^verbatim>\<open>YY_CURRENT_BUFFER_LVALUE = p\<close>.\<close>

definition yy_set_current :: "nat option \<Rightarrow> yyguts \<Rightarrow> yyguts cres" where
  "yy_set_current p g =
     (case yy_buffer_stack g of
        None \<Rightarrow> Undef
      | Some stack \<Rightarrow>
          if yy_buffer_stack_top g < length stack
          then Ret (g\<lparr>yy_buffer_stack := Some (stack[yy_buffer_stack_top g := p])\<rparr>) else Undef)"

definition yy_deref :: "yyguts \<Rightarrow> nat option \<Rightarrow> yy_buffer_state cres" where
  "yy_deref g p =
     (case p of
        None \<Rightarrow> Undef
      | Some i \<Rightarrow>
          if i < length (yy_buffers g)
          then (case yy_buffers g ! i of None \<Rightarrow> Undef | Some b \<Rightarrow> Ret b) else Undef)"

definition yy_store :: "nat option \<Rightarrow> yy_buffer_state \<Rightarrow> yyguts \<Rightarrow> yyguts" where
  "yy_store p b g = (case p of None \<Rightarrow> g | Some i \<Rightarrow> g\<lparr>yy_buffers := (yy_buffers g)[i := Some b]\<rparr>)"

text \<open>The buffer the scanner reads from.\<close>

definition yy_cur :: "yyguts \<Rightarrow> yy_buffer_state cres" where
  "yy_cur g = yy_deref g (YY_CURRENT_BUFFER g)"

definition yy_put :: "yy_buffer_state \<Rightarrow> yyguts \<Rightarrow> yyguts" where
  "yy_put b g = yy_store (YY_CURRENT_BUFFER g) b g"

section \<open>Buffers\<close>

definition yy_load_buffer_state :: "yyguts \<Rightarrow> yyguts cres" where
  "yy_load_buffer_state g =
     cbind (yy_cur g) (\<lambda>b.
       if yy_buf_pos b < length (yy_ch_buf b)
       then Ret (g\<lparr>yy_n_chars := yy_b_n_chars b, yytext_r := yy_buf_pos b, yy_c_buf_p := yy_buf_pos b,
                   yyin_r := yy_input_file b, yy_hold_char := yy_ch_buf b ! yy_buf_pos b\<rparr>)
       else Undef)"

definition yy_flush_buffer :: "nat option \<Rightarrow> yyguts \<Rightarrow> yyguts cres" where
  "yy_flush_buffer p g =
     (if p = None then Ret g
      else cbind (yy_deref g p) (\<lambda>b.
        if length (yy_ch_buf b) < 2 then Undef
        else let g = yy_store p (b\<lparr>yy_b_n_chars := 0, yy_ch_buf := (yy_ch_buf b)[0 := NUL, 1 := NUL],
                      yy_buf_pos := 0, yy_at_bol := True, yy_buffer_status := YY_BUFFER_NEW\<rparr>) g
             in if p = YY_CURRENT_BUFFER g then yy_load_buffer_state g else Ret g))"

definition yy_init_buffer :: "nat option \<Rightarrow> nat option \<Rightarrow> yyguts \<Rightarrow> yyguts cres" where
  "yy_init_buffer p file g =
     cbind (yy_flush_buffer p g) (\<lambda>g.
     cbind (yy_deref g p) (\<lambda>b.
       let b = b\<lparr>yy_input_file := file, yy_fill_buffer := True\<rparr>;
           b = (if p \<noteq> YY_CURRENT_BUFFER g then b\<lparr>yy_bs_lineno := 1, yy_bs_column := 0\<rparr> else b)
       in Ret (yy_store p (b\<lparr>yy_is_interactive := True\<rparr>) g)))"

text \<open>The fields that are not named here are set by \<^verbatim>\<open>yy_init_buffer\<close>.\<close>

definition yy_create_buffer ::
    "(nat \<Rightarrow> string option) \<Rightarrow> nat option \<Rightarrow> nat \<Rightarrow> yyguts \<Rightarrow> (nat option \<times> yyguts) cres" where
  "yy_create_buffer malloc file n g =
     (case yyalloc malloc sizeof_yy_buffer_state of
        None \<Rightarrow> yy_fatal_error
      | Some _ \<Rightarrow>
          (case yyalloc malloc (n + 2) of
             None \<Rightarrow> yy_fatal_error
           | Some buf \<Rightarrow>
               let p = Some (length (yy_buffers g));
                   b = \<lparr>yy_input_file = None, yy_ch_buf = buf, yy_buf_pos = 0, yy_buf_size = n,
                        yy_b_n_chars = 0, yy_is_our_buffer = True, yy_is_interactive = False, yy_at_bol = False,
                        yy_bs_lineno = 0, yy_bs_column = 0, yy_fill_buffer = False,
                        yy_buffer_status = YY_BUFFER_NEW\<rparr>
               in cbind (yy_init_buffer p file (g\<lparr>yy_buffers := yy_buffers g @ [Some b]\<rparr>)) (\<lambda>g. Ret (p, g))))"

definition yy_delete_buffer :: "nat option \<Rightarrow> yyguts \<Rightarrow> yyguts cres" where
  "yy_delete_buffer p g =
     (case p of
        None \<Rightarrow> Ret g
      | Some i \<Rightarrow>
          cbind (if p = YY_CURRENT_BUFFER g then yy_set_current None g else Ret g) (\<lambda>g.
          cbind (yy_deref g p) (\<lambda>_. Ret (g\<lparr>yy_buffers := (yy_buffers g)[i := None]\<rparr>))))"

section \<open>The stack of buffers\<close>

definition yyensure_buffer_stack :: "(nat \<Rightarrow> string option) \<Rightarrow> yyguts \<Rightarrow> yyguts cres" where
  "yyensure_buffer_stack malloc g =
     (case yy_buffer_stack g of
        None \<Rightarrow>
          let num_to_alloc = 1
          in (case yyalloc malloc (num_to_alloc * 8) of
                None \<Rightarrow> yy_fatal_error
              | Some _ \<Rightarrow> Ret (g\<lparr>yy_buffer_stack := Some (replicate num_to_alloc None),
                                yy_buffer_stack_max := num_to_alloc, yy_buffer_stack_top := 0\<rparr>))
      | Some stack \<Rightarrow>
          if yy_buffer_stack_max g - 1 \<le> yy_buffer_stack_top g
          then let grow_size = 8; num_to_alloc = yy_buffer_stack_max g + grow_size
               in (case yyalloc malloc (num_to_alloc * 8) of
                     None \<Rightarrow> yy_fatal_error
                   | Some _ \<Rightarrow> Ret (g\<lparr>yy_buffer_stack := Some (stack @ replicate grow_size None),
                                     yy_buffer_stack_max := num_to_alloc\<rparr>))
          else Ret g)"

definition yyrestart :: "(nat \<Rightarrow> string option) \<Rightarrow> nat option \<Rightarrow> yyguts \<Rightarrow> yyguts cres" where
  "yyrestart malloc input_file g =
     cbind
       (if YY_CURRENT_BUFFER g = None
        then cbind (yyensure_buffer_stack malloc g) (\<lambda>g.
             cbind (yy_create_buffer malloc (yyin_r g) YY_BUF_SIZE g) (\<lambda>(p, g). yy_set_current p g))
        else Ret g)
       (\<lambda>g. cbind (yy_init_buffer (YY_CURRENT_BUFFER g) input_file g) yy_load_buffer_state)"

text \<open>The current buffer takes back what the globals hold of it.\<close>

definition yy_flush_out :: "yyguts \<Rightarrow> yyguts cres" where
  "yy_flush_out g =
     (if YY_CURRENT_BUFFER g = None then Ret g
      else cbind (yy_cur g) (\<lambda>b.
        if yy_c_buf_p g < length (yy_ch_buf b)
        then Ret (yy_put (b\<lparr>yy_ch_buf := (yy_ch_buf b)[yy_c_buf_p g := yy_hold_char g],
                            yy_buf_pos := yy_c_buf_p g, yy_b_n_chars := yy_n_chars g\<rparr>) g)
        else Undef))"

definition yy_switch_to_buffer :: "(nat \<Rightarrow> string option) \<Rightarrow> nat option \<Rightarrow> yyguts \<Rightarrow> yyguts cres" where
  "yy_switch_to_buffer malloc new_buffer g =
     cbind (yyensure_buffer_stack malloc g) (\<lambda>g.
       if YY_CURRENT_BUFFER g = new_buffer then Ret g
       else cbind (yy_flush_out g) (\<lambda>g.
            cbind (yy_set_current new_buffer g) (\<lambda>g.
            cbind (yy_load_buffer_state g) (\<lambda>g. Ret (g\<lparr>yy_did_buffer_switch_on_eof := True\<rparr>)))))"

definition yypush_buffer_state :: "(nat \<Rightarrow> string option) \<Rightarrow> nat option \<Rightarrow> yyguts \<Rightarrow> yyguts cres" where
  "yypush_buffer_state malloc new_buffer g =
     (if new_buffer = None then Ret g
      else cbind (yyensure_buffer_stack malloc g) (\<lambda>g.
           cbind (yy_flush_out g) (\<lambda>g.
             let g = (if YY_CURRENT_BUFFER g \<noteq> None then g\<lparr>yy_buffer_stack_top := yy_buffer_stack_top g + 1\<rparr> else g)
             in cbind (yy_set_current new_buffer g) (\<lambda>g.
                cbind (yy_load_buffer_state g) (\<lambda>g. Ret (g\<lparr>yy_did_buffer_switch_on_eof := True\<rparr>))))))"

definition yypop_buffer_state :: "yyguts \<Rightarrow> yyguts cres" where
  "yypop_buffer_state g =
     (if YY_CURRENT_BUFFER g = None then Ret g
      else cbind (yy_delete_buffer (YY_CURRENT_BUFFER g) g) (\<lambda>g.
           cbind (yy_set_current None g) (\<lambda>g.
             let g = (if 0 < yy_buffer_stack_top g then g\<lparr>yy_buffer_stack_top := yy_buffer_stack_top g - 1\<rparr> else g)
             in if YY_CURRENT_BUFFER g \<noteq> None
                then cbind (yy_load_buffer_state g) (\<lambda>g. Ret (g\<lparr>yy_did_buffer_switch_on_eof := True\<rparr>))
                else Ret g)))"

section \<open>Scanning from memory\<close>

text \<open>
  A buffer made of a text in memory, which has to end with two NULs. The fields \<^verbatim>\<open>yy_bs_lineno\<close> and
  \<^verbatim>\<open>yy_bs_column\<close> are not set by the code; \<open>junk\<close> is what is in them.
\<close>

definition yy_scan_buffer ::
    "(nat \<Rightarrow> string option) \<Rightarrow> int \<Rightarrow> string \<Rightarrow> nat \<Rightarrow> yyguts \<Rightarrow> (nat option \<times> yyguts) cres" where
  "yy_scan_buffer malloc junk base n g =
     (if n < 2 then Ret (None, g)
      else if length base < n then Undef
      else if base ! (n - 2) \<noteq> NUL \<or> base ! (n - 1) \<noteq> NUL then Ret (None, g)
      else case yyalloc malloc sizeof_yy_buffer_state of
          None \<Rightarrow> yy_fatal_error
        | Some _ \<Rightarrow>
            let p = Some (length (yy_buffers g));
                b = \<lparr>yy_input_file = None, yy_ch_buf = base, yy_buf_pos = 0, yy_buf_size = n - 2,
                     yy_b_n_chars = n - 2, yy_is_our_buffer = False, yy_is_interactive = False, yy_at_bol = True,
                     yy_bs_lineno = junk, yy_bs_column = junk, yy_fill_buffer = False,
                     yy_buffer_status = YY_BUFFER_NEW\<rparr>
            in cbind (yy_switch_to_buffer malloc p (g\<lparr>yy_buffers := yy_buffers g @ [Some b]\<rparr>)) (\<lambda>g. Ret (p, g)))"

definition yy_scan_bytes ::
    "(nat \<Rightarrow> string option) \<Rightarrow> int \<Rightarrow> string \<Rightarrow> nat \<Rightarrow> yyguts \<Rightarrow> (nat option \<times> yyguts) cres" where
  "yy_scan_bytes malloc junk yybytes len g =
     (let n = len + 2
      in case yyalloc malloc n of
           None \<Rightarrow> yy_fatal_error
         | Some _ \<Rightarrow>
             if length yybytes < len then Undef
             else let buf = take len yybytes @ [NUL, NUL]
                  in cbind (yy_scan_buffer malloc junk buf n g) (\<lambda>(p, g).
                       if p = None then yy_fatal_error
                       else cbind (yy_deref g p) (\<lambda>b. Ret (p, yy_store p (b\<lparr>yy_is_our_buffer := True\<rparr>) g))))"

definition yy_scan_string ::
    "(nat \<Rightarrow> string option) \<Rightarrow> int \<Rightarrow> string \<Rightarrow> yyguts \<Rightarrow> (nat option \<times> yyguts) cres" where
  "yy_scan_string malloc junk yystr g =
     cbind (cstr yystr) (\<lambda>s. yy_scan_bytes malloc junk yystr (length s) g)"

section \<open>Accessors\<close>

definition yyget_extra :: "yyguts \<Rightarrow> parser_data" where
  "yyget_extra g = yyextra_r g"

definition yyget_lineno :: "yyguts \<Rightarrow> int cres" where
  "yyget_lineno g =
     (if YY_CURRENT_BUFFER g = None then Ret 0 else cbind (yy_cur g) (\<lambda>b. Ret (yy_bs_lineno b)))"

definition yyget_column :: "yyguts \<Rightarrow> int cres" where
  "yyget_column g =
     (if YY_CURRENT_BUFFER g = None then Ret 0 else cbind (yy_cur g) (\<lambda>b. Ret (yy_bs_column b)))"

definition yyget_in :: "yyguts \<Rightarrow> nat option" where
  "yyget_in g = yyin_r g"

definition yyget_out :: "yyguts \<Rightarrow> nat option" where
  "yyget_out g = yyout_r g"

definition yyget_leng :: "yyguts \<Rightarrow> nat" where
  "yyget_leng g = yyleng_r g"

text \<open>The text from the pointer \<^verbatim>\<open>yyget_text\<close> returns to the end of the buffer.\<close>

definition yyget_text :: "yyguts \<Rightarrow> string cres" where
  "yyget_text g = cbind (yy_cur g) (\<lambda>b. Ret (drop (yytext_r g) (yy_ch_buf b)))"

definition yyset_extra :: "parser_data \<Rightarrow> yyguts \<Rightarrow> yyguts" where
  "yyset_extra user_defined g = g\<lparr>yyextra_r := user_defined\<rparr>"

definition yyset_lineno :: "int \<Rightarrow> yyguts \<Rightarrow> yyguts cres" where
  "yyset_lineno line_number g =
     (if YY_CURRENT_BUFFER g = None then yy_fatal_error
      else cbind (yy_cur g) (\<lambda>b. Ret (yy_put (b\<lparr>yy_bs_lineno := line_number\<rparr>) g)))"

definition yyset_column :: "int \<Rightarrow> yyguts \<Rightarrow> yyguts cres" where
  "yyset_column column_no g =
     (if YY_CURRENT_BUFFER g = None then yy_fatal_error
      else cbind (yy_cur g) (\<lambda>b. Ret (yy_put (b\<lparr>yy_bs_column := column_no\<rparr>) g)))"

definition yyset_in :: "nat option \<Rightarrow> yyguts \<Rightarrow> yyguts" where
  "yyset_in in_str g = g\<lparr>yyin_r := in_str\<rparr>"

definition yyset_out :: "nat option \<Rightarrow> yyguts \<Rightarrow> yyguts" where
  "yyset_out out_str g = g\<lparr>yyout_r := out_str\<rparr>"

definition yyget_debug :: "yyguts \<Rightarrow> int" where
  "yyget_debug g = yy_flex_debug_r g"

definition yyset_debug :: "int \<Rightarrow> yyguts \<Rightarrow> yyguts" where
  "yyset_debug bdebug g = g\<lparr>yy_flex_debug_r := bdebug\<rparr>"

section \<open>Scanners\<close>

definition yy_init_globals :: "yyguts \<Rightarrow> yyguts" where
  "yy_init_globals g =
     g\<lparr>yy_buffer_stack := None, yy_buffer_stack_top := 0, yy_buffer_stack_max := 0, yy_c_buf_p := 0,
       yy_init := False, yyg_start := 0, yy_start_stack_ptr := 0, yy_start_stack_depth := 0,
       yy_start_stack := None, yyin_r := None, yyout_r := None\<rparr>"

text \<open>What \<^verbatim>\<open>memset\<close> makes of the structure; the null pointer \<^verbatim>\<open>yyextra_r\<close> leads to no data, \<open>d\<close> stands in.\<close>

definition yyguts_zero :: "parser_data \<Rightarrow> yyguts" where
  "yyguts_zero d =
     \<lparr>yyextra_r = d, yyin_r = None, yyout_r = None, yy_buffer_stack_top = 0, yy_buffer_stack_max = 0,
      yy_buffer_stack = None, yy_hold_char = NUL, yy_n_chars = 0, yyleng_r = 0, yy_c_buf_p = 0,
      yy_init = False, yyg_start = 0, yy_did_buffer_switch_on_eof = False, yy_start_stack_ptr = 0,
      yy_start_stack_depth = 0, yy_start_stack = None, yy_last_accepting_state = 0,
      yy_last_accepting_cpos = 0, yylineno_r = 0, yy_flex_debug_r = 0, yytext_r = 0, yy_more_flag = 0,
      yy_more_len = 0, yy_buffers = []\<rparr>"

definition EINVAL :: int where "EINVAL = 22"
definition ENOMEM :: int where "ENOMEM = 12"

text \<open>
  The result of the functions that create a scanner: what they return, \<^verbatim>\<open>errno\<close> when they set it, and the scanner.
  \<open>ptr\<close> tells whether the pointer to it is not null.
\<close>

definition yylex_init ::
    "(nat \<Rightarrow> string option) \<Rightarrow> bool \<Rightarrow> parser_data \<Rightarrow> int \<times> int option \<times> yyguts option" where
  "yylex_init malloc ptr d =
     (if \<not> ptr then (1, Some EINVAL, None)
      else case yyalloc malloc sizeof_yyguts of
          None \<Rightarrow> (1, Some ENOMEM, None)
        | Some _ \<Rightarrow> (0, None, Some (yy_init_globals (yyguts_zero d))))"

definition yylex_init_extra ::
    "(nat \<Rightarrow> string option) \<Rightarrow> parser_data \<Rightarrow> bool \<Rightarrow> int \<times> int option \<times> yyguts option" where
  "yylex_init_extra malloc user_defined ptr =
     (if \<not> ptr then (1, Some EINVAL, None)
      else case yyalloc malloc sizeof_yyguts of
          None \<Rightarrow> (1, Some ENOMEM, None)
        | Some _ \<Rightarrow>
            (0, None, Some (yy_init_globals (yyset_extra user_defined (yyguts_zero user_defined)))))"

text \<open>The loop of \<^verbatim>\<open>yylex_destroy\<close> over the buffers, which \<open>None\<close> says does not end.\<close>

partial_function (option) yy_destroy_buffers :: "yyguts \<Rightarrow> yyguts cres option" where
  "yy_destroy_buffers g =
     (if YY_CURRENT_BUFFER g = None then Some (Ret g)
      else case cbind (yy_delete_buffer (YY_CURRENT_BUFFER g) g) (\<lambda>g.
                cbind (yy_set_current None g) yypop_buffer_state) of
             Ret g \<Rightarrow> yy_destroy_buffers g | Exit \<Rightarrow> Some Exit | Undef \<Rightarrow> Some Undef)"

declare yy_destroy_buffers.simps [code]

definition yylex_destroy :: "yyguts \<Rightarrow> (int \<times> yyguts) cres option" where
  "yylex_destroy g =
     map_option (\<lambda>r. cbind r (\<lambda>g.
       let g = g\<lparr>yy_buffer_stack := None\<rparr>;
           g = g\<lparr>yy_start_stack := None\<rparr>
       in Ret (0, yy_init_globals g)))
     (yy_destroy_buffers g)"

section \<open>The stack of buffers\<close>

definition yy_stack_wf :: "yyguts \<Rightarrow> bool" where
  "yy_stack_wf g \<longleftrightarrow>
     (case yy_buffer_stack g of
        None \<Rightarrow> True
      | Some stack \<Rightarrow> length stack = yy_buffer_stack_max g \<and> yy_buffer_stack_top g < length stack)"

lemma set_current_wf [wf_intros]:
  "yy_stack_wf g \<Longrightarrow> yy_set_current p g = Ret g' \<Longrightarrow> yy_stack_wf g'"
  by (auto simp: yy_stack_wf_def yy_set_current_def split: option.splits if_splits)

lemma load_wf [wf_intros]: "yy_stack_wf g \<Longrightarrow> yy_load_buffer_state g = Ret g' \<Longrightarrow> yy_stack_wf g'"
  by (auto simp: yy_stack_wf_def yy_load_buffer_state_def split: option.splits if_splits)

lemma flush_out_wf [wf_intros]: "yy_stack_wf g \<Longrightarrow> yy_flush_out g = Ret g' \<Longrightarrow> yy_stack_wf g'"
  by (auto simp: yy_stack_wf_def yy_flush_out_def yy_put_def yy_store_def split: option.splits if_splits)

lemma delete_wf [wf_intros]: "yy_stack_wf g \<Longrightarrow> yy_delete_buffer p g = Ret g' \<Longrightarrow> yy_stack_wf g'"
  by (auto simp: yy_delete_buffer_def yy_stack_wf_def yy_set_current_def split: option.splits if_splits)

text \<open>A stack that exists has room for a push after \<^verbatim>\<open>yyensure_buffer_stack\<close>; a new one has its top free.\<close>

lemma ensure_room:
  assumes "yy_stack_wf g" and "yyensure_buffer_stack malloc g = Ret g'"
  shows "yy_stack_wf g' \<and> YY_CURRENT_BUFFER g' = YY_CURRENT_BUFFER g \<and> yy_buffer_stack g' \<noteq> None \<and>
    yy_buffers g' = yy_buffers g \<and>
    (yy_buffer_stack g \<noteq> None \<longrightarrow> yy_buffer_stack_top g' + 1 < yy_buffer_stack_max g') \<and>
    g' = g\<lparr>yy_buffer_stack := yy_buffer_stack g', yy_buffer_stack_max := yy_buffer_stack_max g',
          yy_buffer_stack_top := yy_buffer_stack_top g'\<rparr>"
  using assms
  by (auto simp: yy_stack_wf_def yyensure_buffer_stack_def YY_CURRENT_BUFFER_def yy_fatal_error_def Let_def nth_append
      split: option.splits if_splits)

lemma push_wf:
  assumes "yy_stack_wf g" and "yypush_buffer_state malloc p g = Ret g'"
  shows "yy_stack_wf g'"
proof (cases "p = None")
  case True
  with assms show ?thesis by (simp add: yypush_buffer_state_def)
next
  case False
  with assms(2) obtain g1 g2 g3 g4 where s: "yyensure_buffer_stack malloc g = Ret g1" "yy_flush_out g1 = Ret g2"
    "g3 = (if YY_CURRENT_BUFFER g2 \<noteq> None then g2\<lparr>yy_buffer_stack_top := yy_buffer_stack_top g2 + 1\<rparr> else g2)"
    "yy_set_current p g3 = Ret g4"
    "cbind (yy_load_buffer_state g4) (\<lambda>g. Ret (g\<lparr>yy_did_buffer_switch_on_eof := True\<rparr>)) = Ret g'"
    unfolding yypush_buffer_state_def Let_def by (auto simp del: not_None_eq)
  have e: "yy_stack_wf g1" "YY_CURRENT_BUFFER g1 = YY_CURRENT_BUFFER g"
    "yy_buffer_stack g \<noteq> None \<longrightarrow> yy_buffer_stack_top g1 + 1 < yy_buffer_stack_max g1"
    using ensure_room [OF assms(1) s(1)] by blast+
  have f: "yy_buffer_stack g2 = yy_buffer_stack g1" "yy_buffer_stack_top g2 = yy_buffer_stack_top g1"
    "yy_buffer_stack_max g2 = yy_buffer_stack_max g1"
    using s(2) by (auto simp: yy_flush_out_def yy_put_def yy_store_def split: option.splits if_splits)
  have "YY_CURRENT_BUFFER g2 = YY_CURRENT_BUFFER g" unfolding e(2) [symmetric] by (simp only: YY_CURRENT_BUFFER_def f)
  then have "yy_stack_wf g3" using e f unfolding s(3)
    by (auto simp: yy_stack_wf_def YY_CURRENT_BUFFER_def split: option.splits)
  then have "yy_stack_wf g4" using s(4) by (rule set_current_wf)
  with s(5) show ?thesis
    by (auto simp: yy_stack_wf_def yy_load_buffer_state_def split: option.splits if_splits)
qed

lemma pop_wf:
  assumes "yy_stack_wf g" and "yypop_buffer_state g = Ret g'"
  shows "yy_stack_wf g'"
proof (cases "YY_CURRENT_BUFFER g = None")
  case True
  with assms show ?thesis by (simp add: yypop_buffer_state_def)
next
  case False
  with assms(2) obtain g1 g2 g3 where s: "yy_delete_buffer (YY_CURRENT_BUFFER g) g = Ret g1"
    "yy_set_current None g1 = Ret g2"
    "g3 = (if 0 < yy_buffer_stack_top g2 then g2\<lparr>yy_buffer_stack_top := yy_buffer_stack_top g2 - 1\<rparr> else g2)"
    "(if YY_CURRENT_BUFFER g3 \<noteq> None
      then cbind (yy_load_buffer_state g3) (\<lambda>g. Ret (g\<lparr>yy_did_buffer_switch_on_eof := True\<rparr>)) else Ret g3) = Ret g'"
    unfolding yypop_buffer_state_def Let_def by (auto simp del: not_None_eq)
  have "yy_stack_wf g2" using assms(1) s(1,2) by (blast intro: wf_intros)
  then have "yy_stack_wf g3" unfolding s(3) by (auto simp: yy_stack_wf_def split: option.splits)
  with s(4) show ?thesis
    by (auto simp: yy_stack_wf_def yy_load_buffer_state_def split: option.splits if_splits)
qed

text \<open>
  Fact: a buffer that was pushed and popped leaves the scanner where it was. Pushing a buffer on the
  current one saves the position, the count of characters and the held character in it; popping it
  frees the pushed buffer alone and takes them back: the current buffer with its text, the position in it, the
  count, the held character and the stream are as before.
\<close>

theorem pushed_buffer_pops:
  assumes "\<And>n. malloc n \<noteq> None" and "yy_stack_wf g" and "YY_CURRENT_BUFFER g = Some q" and "yy_cur g = Ret b"
    and "yy_c_buf_p g < length (yy_ch_buf b)" and "yy_deref g (Some p) = Ret b'"
    and "yy_buf_pos b' < length (yy_ch_buf b')" and "p \<noteq> q"
  shows "\<exists>g'. cbind (yypush_buffer_state malloc (Some p) g) yypop_buffer_state = Ret g' \<and>
    YY_CURRENT_BUFFER g' = Some q \<and> yy_c_buf_p g' = yy_c_buf_p g \<and> yy_n_chars g' = yy_n_chars g \<and>
    yy_hold_char g' = yy_hold_char g \<and> yyin_r g' = yy_input_file b \<and>
    yy_cur g' = Ret (b\<lparr>yy_ch_buf := (yy_ch_buf b)[yy_c_buf_p g := yy_hold_char g],
      yy_buf_pos := yy_c_buf_p g, yy_b_n_chars := yy_n_chars g\<rparr>) \<and>
    yy_deref g' (Some p) = Undef"
proof -
  obtain stack where st: "yy_buffer_stack g = Some stack" "length stack = yy_buffer_stack_max g"
    "yy_buffer_stack_top g < length stack" "stack ! yy_buffer_stack_top g = Some q"
    using assms(2,3) by (auto simp: yy_stack_wf_def YY_CURRENT_BUFFER_def split: option.splits)
  obtain g1 where ens: "yyensure_buffer_stack malloc g = Ret g1"
  proof (cases "yyensure_buffer_stack malloc g")
    case (Ret g1)
    then show thesis by (rule that)
  qed (use st(1) assms(1) in \<open>auto simp: yyensure_buffer_stack_def yyalloc_def yy_fatal_error_def Let_def
      simp del: not_None_eq split: option.splits if_splits\<close>)
  note e = ensure_room [OF assms(2) ens]
  obtain stack1 where st1: "yy_buffer_stack g1 = Some stack1" using e by blast
  define top where "top = yy_buffer_stack_top g1"
  have top: "Suc top < length stack1" "stack1 ! top = Some q"
    using e st(1) st1 assms(3) by (auto simp: top_def yy_stack_wf_def YY_CURRENT_BUFFER_def)
  have g1: "g1 = g\<lparr>yy_buffer_stack := Some stack1, yy_buffer_stack_max := yy_buffer_stack_max g1,
      yy_buffer_stack_top := top\<rparr>"
    using e unfolding st1 top_def by blast
  have bufs: "q < length (yy_buffers g)" "yy_buffers g ! q = Some b" "p < length (yy_buffers g)"
    "yy_buffers g ! p = Some b'"
    using assms(3,4,6) by (auto simp: yy_cur_def yy_deref_def split: if_splits option.splits)
  let ?b = "b\<lparr>yy_ch_buf := (yy_ch_buf b)[yy_c_buf_p g := yy_hold_char g], yy_buf_pos := yy_c_buf_p g,
      yy_b_n_chars := yy_n_chars g\<rparr>"
  let ?bufs = "(yy_buffers g)[q := Some ?b]"
  have cur1: "YY_CURRENT_BUFFER g1 = Some q" using e assms(3) by simp
  have "yy_cur g1 = Ret b" unfolding yy_cur_def cur1 by (subst g1) (simp add: yy_deref_def bufs)
  moreover have "yy_c_buf_p g1 = yy_c_buf_p g" "yy_hold_char g1 = yy_hold_char g" "yy_n_chars g1 = yy_n_chars g"
    "yy_buffers g1 = yy_buffers g"
    by (subst g1, simp)+
  ultimately have out: "yy_flush_out g1 = Ret (g1\<lparr>yy_buffers := ?bufs\<rparr>)"
    using assms(5) cur1 by (simp add: yy_flush_out_def yy_put_def yy_store_def)
  let ?stack = "stack1[Suc top := Some p]"
  have push: "\<exists>g2. yypush_buffer_state malloc (Some p) g = Ret g2 \<and> yy_buffer_stack g2 = Some ?stack \<and>
      yy_buffer_stack_top g2 = Suc top \<and> yy_buffers g2 = ?bufs"
    using top bufs assms(7,8) cur1 st1
    by (simp add: yypush_buffer_state_def ens out YY_CURRENT_BUFFER_def yy_set_current_def yy_load_buffer_state_def
        yy_cur_def yy_deref_def top_def [symmetric])
  then obtain g2 where g2: "yypush_buffer_state malloc (Some p) g = Ret g2" "yy_buffer_stack g2 = Some ?stack"
    "yy_buffer_stack_top g2 = Suc top" "yy_buffers g2 = ?bufs" by blast
  have cur2: "YY_CURRENT_BUFFER g2 = Some p" using top by (simp add: YY_CURRENT_BUFFER_def g2)
  let ?g3 = "g2\<lparr>yy_buffer_stack := Some (stack1[Suc top := None]), yy_buffers := ?bufs[p := None]\<rparr>"
  have "yy_delete_buffer (Some p) g2 = Ret ?g3"
    using top bufs assms(8) by (simp add: yy_delete_buffer_def cur2 yy_set_current_def yy_deref_def g2)
  then have "\<exists>g'. yypop_buffer_state g2 = Ret g' \<and> YY_CURRENT_BUFFER g' = Some q \<and>
      yy_c_buf_p g' = yy_c_buf_p g \<and> yy_n_chars g' = yy_n_chars g \<and> yy_hold_char g' = yy_hold_char g \<and>
      yyin_r g' = yy_input_file b \<and> yy_cur g' = Ret ?b \<and> yy_deref g' (Some p) = Undef"
    using top bufs assms(5,8)
    by (simp add: yypop_buffer_state_def cur2 yy_set_current_def g2 YY_CURRENT_BUFFER_def yy_load_buffer_state_def
        yy_cur_def yy_deref_def)
  then show ?thesis unfolding g2(1) by simp
qed

text \<open>A scanner with a buffer it reads from and another one.\<close>

definition sample_buffer :: yy_buffer_state where
  "sample_buffer =
     \<lparr>yy_input_file = Some 5, yy_ch_buf = ''+-'' @ [NUL, NUL], yy_buf_pos = 0, yy_buf_size = 2, yy_b_n_chars = 2,
      yy_is_our_buffer = True, yy_is_interactive = True, yy_at_bol = True, yy_bs_lineno = 1, yy_bs_column = 0,
      yy_fill_buffer = True, yy_buffer_status = YY_BUFFER_NORMAL\<rparr>"

definition sample_scanner :: yyguts where
  "sample_scanner = (yyguts_zero \<lparr>pd_gdb = gdb_init_data sample_core, pd_buffer = []\<rparr>)
     \<lparr>yy_buffer_stack := Some [Some 0], yy_buffer_stack_max := 1, yy_c_buf_p := 1, yy_n_chars := 2,
      yy_hold_char := CHR ''-'', yy_buffers := [Some sample_buffer, Some (sample_buffer\<lparr>yy_input_file := None\<rparr>)]\<rparr>"

theorem pushed_buffer_pops_witness:
  "\<exists>g'. cbind (yypush_buffer_state (\<lambda>n. Some []) (Some 1) sample_scanner) yypop_buffer_state = Ret g' \<and>
    YY_CURRENT_BUFFER g' = Some 0 \<and> yy_c_buf_p g' = 1 \<and> yyin_r g' = Some 5"
proof -
  have c: "YY_CURRENT_BUFFER sample_scanner = Some 0" "yy_stack_wf sample_scanner"
    "yy_cur sample_scanner = Ret sample_buffer" "yy_c_buf_p sample_scanner = 1"
    "yy_deref sample_scanner (Some 1) = Ret (sample_buffer\<lparr>yy_input_file := None\<rparr>)"
    by (simp_all add: sample_scanner_def yyguts_zero_def YY_CURRENT_BUFFER_def yy_cur_def yy_deref_def yy_stack_wf_def)
  show ?thesis
    using pushed_buffer_pops [of "\<lambda>n. Some []", OF _ c(2,1,3) _ c(5)] c(4)
    by (force simp: sample_buffer_def)
qed

text \<open>
  Property C38: the destruction of a scanner always ends, and of the buffers on the stack it frees the top one
  alone: the loop that is to destroy each element has emptied the top when it pops it, and the pop of an empty
  top does nothing, so the loop ends with the first buffer. The others stay allocated; the server's
  scanner never pushes a second buffer.
\<close>

theorem destroy_frees_top:
  assumes "YY_CURRENT_BUFFER g = Some q" and "yy_deref g (Some q) = Ret b" and "yy_stack_wf g"
  shows "\<exists>g'. yylex_destroy g = Some (Ret (0, g')) \<and> yy_deref g' (Some q) = Undef \<and>
    (\<forall>p. p \<noteq> q \<longrightarrow> yy_deref g' (Some p) = yy_deref g (Some p)) \<and>
    yy_buffer_stack g' = None"
proof -
  obtain stack where st: "yy_buffer_stack g = Some stack" "yy_buffer_stack_top g < length stack"
    "stack ! yy_buffer_stack_top g = Some q"
    using assms(1,3) by (auto simp: yy_stack_wf_def YY_CURRENT_BUFFER_def split: option.splits)
  have q: "q < length (yy_buffers g)" "yy_buffers g ! q = Some b"
    using assms(2) by (auto simp: yy_deref_def split: if_splits option.splits)
  let ?stack = "stack[yy_buffer_stack_top g := None]"
  let ?g = "g\<lparr>yy_buffers := (yy_buffers g)[q := None], yy_buffer_stack := Some ?stack\<rparr>"
  have none: "YY_CURRENT_BUFFER ?g = None" using st by (simp add: YY_CURRENT_BUFFER_def)
  then have stop: "yy_destroy_buffers ?g = Some (Ret ?g)" by (subst yy_destroy_buffers.simps) simp
  have "yy_delete_buffer (Some q) g = Ret (g\<lparr>yy_buffer_stack := Some ?stack, yy_buffers := (yy_buffers g)[q := None]\<rparr>)"
    using q st by (simp add: yy_delete_buffer_def assms(1) yy_set_current_def yy_deref_def)
  moreover have "yypop_buffer_state ?g = Ret ?g" using none by (simp add: yypop_buffer_state_def)
  ultimately have "yy_destroy_buffers g = Some (Ret ?g)"
    using st stop by (subst yy_destroy_buffers.simps) (simp add: assms(1) yy_set_current_def)
  then show ?thesis using q
    by (auto simp: yylex_destroy_def Let_def yy_init_globals_def yy_deref_def)
qed

theorem destroy_frees_top_witness:
  "\<exists>g'. yylex_destroy sample_scanner = Some (Ret (0, g')) \<and> yy_deref g' (Some 0) = Undef"
proof -
  have c: "YY_CURRENT_BUFFER sample_scanner = Some 0" "yy_deref sample_scanner (Some 0) = Ret sample_buffer"
    "yy_stack_wf sample_scanner"
    by (simp_all add: sample_scanner_def yyguts_zero_def YY_CURRENT_BUFFER_def yy_deref_def yy_stack_wf_def)
  from destroy_frees_top [OF c] show ?thesis by blast
qed

end
