(* ===== verification/Scanner_Buffer.thy ===== *)
theory Scanner_Buffer
  imports Flex_Buffer
begin

text \<open>
  \<^verbatim>\<open>yylex\<close> with its buffer, as \<^verbatim>\<open>scanner.c\<close> has it: the automaton runs over the buffer, whose end two NULs mark; it
  treats a NUL of the input apart, refills the buffer from the socket, moving the text of the current token to its
  front and growing it when it is full, and at the end of the input still matches what is left.

  The labels between which the function jumps are the constructors of \<open>yy_goto\<close>, one step of the model runs from
  one label to the next, and \<open>yy_scan\<close> runs the steps until the function returns. The socket is the list of the
  answers \<^verbatim>\<open>read\<close> gives: bytes that arrived together, none at the end of the input, or an error. \<^verbatim>\<open>read\<close> takes
  no more bytes than it is asked for and leaves the others for the next call. With no answer left it waits:
  \<open>None\<close>, as for a packet whose command does not return.
\<close>

section \<open>Input\<close>

definition YY_READ_BUF_SIZE :: nat where
  "YY_READ_BUF_SIZE = 8192"

fun YY_INPUT :: "read_answer list \<Rightarrow> nat \<Rightarrow> (u8 list \<times> read_answer list) cres option" where
  "YY_INPUT [] max_size = None"
| "YY_INPUT (Read_failed e # ans) max_size =
     (if e \<noteq> EINTR then Some yy_fatal_error else YY_INPUT ans max_size)"
| "YY_INPUT (Got bs # ans) max_size =
     (if length bs \<le> max_size then Some (Ret (bs, ans))
      else Some (Ret (take max_size bs, Got (drop max_size bs) # ans)))"

text \<open>The loop that moves the \<open>n\<close> characters from \<open>source\<close> to \<open>dest\<close>, one by one.\<close>

fun yy_move :: "nat \<Rightarrow> nat \<Rightarrow> nat \<Rightarrow> string \<Rightarrow> string" where
  "yy_move 0 dest source buf = buf"
| "yy_move (Suc n) dest source buf = yy_move n (dest + 1) (source + 1) (buf[dest := buf ! source])"

text \<open>
  The loop that grows the buffer until a character can be read. The doubling of the size overflows an \<open>int\<close> when the
  size reaches \<open>2 ^ 30\<close>, which has no meaning in C.
\<close>

partial_function (option) yy_grow ::
    "(nat \<Rightarrow> string option) \<Rightarrow> nat \<Rightarrow> yy_buffer_state \<Rightarrow> yy_buffer_state cres option" where
  "yy_grow malloc number_to_move b =
     (if number_to_move + 1 < yy_buf_size b then Some (Ret b)
      else if \<not> yy_is_our_buffer b then Some yy_fatal_error
      else if 2 ^ 31 \<le> yy_buf_size b * 2 then Some Undef
      else let new_size = yy_buf_size b * 2;
               b = (if new_size = 0 then b\<lparr>yy_buf_size := yy_buf_size b + yy_buf_size b div 8\<rparr>
                    else b\<lparr>yy_buf_size := yy_buf_size b * 2\<rparr>)
           in case yyrealloc malloc (yy_ch_buf b) (yy_buf_size b + 2) of
                None \<Rightarrow> Some yy_fatal_error
              | Some buf \<Rightarrow> yy_grow malloc number_to_move (b\<lparr>yy_ch_buf := buf\<rparr>))"

declare yy_grow.simps [code]

datatype yy_eob_act = EOB_ACT_CONTINUE_SCAN | EOB_ACT_END_OF_FILE | EOB_ACT_LAST_MATCH

definition chars_of :: "u8 list \<Rightarrow> string" where
  "chars_of bs = map (\<lambda>b. char_of (unat b)) bs"

text \<open>The text \<open>cs\<close> written in a buffer from position \<open>i\<close> on.\<close>

definition yy_write :: "nat \<Rightarrow> string \<Rightarrow> string \<Rightarrow> string" where
  "yy_write i cs buf = take i buf @ cs @ drop (i + length cs) buf"

text \<open>The reading of more data; it leaves the number of characters in \<open>yy_n_chars\<close>.\<close>

definition yy_read_more ::
    "(nat \<Rightarrow> string option) \<Rightarrow> nat \<Rightarrow> yyguts \<Rightarrow> read_answer list \<Rightarrow> (yyguts \<times> read_answer list) cres option" where
  "yy_read_more malloc number_to_move g ans =
     (case yy_cur g of
        Ret b \<Rightarrow>
          if yy_buffer_status b = YY_BUFFER_EOF_PENDING
          then Some (Ret (yy_put (b\<lparr>yy_b_n_chars := 0\<rparr>) (g\<lparr>yy_n_chars := 0\<rparr>), ans))
          else
           (case yy_grow malloc number_to_move b of
              Some (Ret b) \<Rightarrow>
                let num_to_read = yy_buf_size b - number_to_move - 1;
                    num_to_read = (if YY_READ_BUF_SIZE < num_to_read then YY_READ_BUF_SIZE else num_to_read)
                in if length (yy_ch_buf b) < number_to_move + num_to_read then Some Undef
                   else map_option (\<lambda>r. cbind r (\<lambda>(bs, ans).
                          Ret (yy_put (b\<lparr>yy_ch_buf := yy_write number_to_move (chars_of bs) (yy_ch_buf b),
                                         yy_b_n_chars := length bs\<rparr>) (g\<lparr>yy_n_chars := length bs\<rparr>), ans)))
                        (YY_INPUT ans num_to_read)
            | Some Exit \<Rightarrow> Some Exit | Some Undef \<Rightarrow> Some Undef | None \<Rightarrow> None)
      | Exit \<Rightarrow> Some Exit | Undef \<Rightarrow> Some Undef)"

text \<open>The end of the buffer after a read: what to do next, and the two NULs.\<close>

definition yy_buffer_filled ::
    "(nat \<Rightarrow> string option) \<Rightarrow> nat \<Rightarrow> yyguts \<Rightarrow> (yy_eob_act \<times> yyguts) cres" where
  "yy_buffer_filled malloc number_to_move g =
     cbind
       (if yy_n_chars g = 0
        then if number_to_move = 0
             then cbind (yyrestart malloc (yyin_r g) g) (\<lambda>g. Ret (EOB_ACT_END_OF_FILE, g))
             else cbind (yy_cur g) (\<lambda>b.
                    Ret (EOB_ACT_LAST_MATCH, yy_put (b\<lparr>yy_buffer_status := YY_BUFFER_EOF_PENDING\<rparr>) g))
        else Ret (EOB_ACT_CONTINUE_SCAN, g))
     (\<lambda>(ret_val, g).
       cbind (yy_cur g) (\<lambda>b.
       cbind
         (if yy_buf_size b < yy_n_chars g + number_to_move
          then let new_size = yy_n_chars g + number_to_move + yy_n_chars g div 2
               in case yyrealloc malloc (yy_ch_buf b) new_size of
                    None \<Rightarrow> yy_fatal_error
                  | Some buf \<Rightarrow> Ret (b\<lparr>yy_ch_buf := buf, yy_buf_size := new_size - 2\<rparr>)
          else Ret b)
       (\<lambda>b.
         let g = g\<lparr>yy_n_chars := yy_n_chars g + number_to_move\<rparr>
         in if length (yy_ch_buf b) \<le> yy_n_chars g + 1 then Undef
            else Ret (ret_val,
              yy_put (b\<lparr>yy_ch_buf := (yy_ch_buf b)[yy_n_chars g := NUL, yy_n_chars g + 1 := NUL]\<rparr>)
                (g\<lparr>yytext_r := 0\<rparr>)))))"

definition yy_get_next_buffer ::
    "(nat \<Rightarrow> string option) \<Rightarrow> yyguts \<Rightarrow> read_answer list \<Rightarrow>
     (yy_eob_act \<times> yyguts \<times> read_answer list) cres option" where
  "yy_get_next_buffer malloc g ans =
     (case yy_cur g of
        Ret b \<Rightarrow>
          if yy_n_chars g + 1 < yy_c_buf_p g then Some yy_fatal_error
          else if \<not> yy_fill_buffer b
          then Some (Ret (if yy_c_buf_p g = yytext_r g + 1 then EOB_ACT_END_OF_FILE else EOB_ACT_LAST_MATCH, g, ans))
          else if yy_c_buf_p g \<le> yytext_r g \<or> length (yy_ch_buf b) < yy_c_buf_p g then Some Undef
          else
            let number_to_move = yy_c_buf_p g - yytext_r g - 1;
                g = yy_put (b\<lparr>yy_ch_buf := yy_move number_to_move 0 (yytext_r g) (yy_ch_buf b)\<rparr>) g
            in (case yy_read_more malloc number_to_move g ans of
                  Some (Ret (g, ans)) \<Rightarrow>
                    Some (cbind (yy_buffer_filled malloc number_to_move g) (\<lambda>(act, g). Ret (act, g, ans)))
                | Some Exit \<Rightarrow> Some Exit | Some Undef \<Rightarrow> Some Undef | None \<Rightarrow> None)
      | Exit \<Rightarrow> Some Exit | Undef \<Rightarrow> Some Undef)"

section \<open>Matching in the buffer\<close>

text \<open>
  The loop of the label \<^verbatim>\<open>yy_match\<close> over what the buffer holds from \<^verbatim>\<open>yy_cp\<close> on. A NUL has the class 0 here,
  on which every state goes to the end-of-buffer state 3.
\<close>

fun yy_match_buffer :: "string \<Rightarrow> nat \<Rightarrow> nat \<Rightarrow> nat \<times> nat \<Rightarrow> (nat \<times> nat \<times> nat \<times> nat) cres" where
  "yy_match_buffer [] s cp acc = Undef"
| "yy_match_buffer (c # cs) s cp acc =
     (let acc = (if yy_accept ! s \<noteq> 0 then (s, cp) else acc);
          s = yy_trans s (yy_ec ! of_char c)
      in if yy_base ! s = 14 then Ret (s, cp + 1, acc) else yy_match_buffer cs s (cp + 1) acc)"

text \<open>
  The labels, with the local variables that live there: the state, \<^verbatim>\<open>yy_cp\<close> and \<^verbatim>\<open>yy_bp\<close>, or the number of the
  action, \<^verbatim>\<open>yy_cp\<close> and \<^verbatim>\<open>yy_bp\<close>.
\<close>

datatype yy_goto =
    Next_token
  | Goto_match nat nat nat
  | Goto_find_action nat nat nat
  | Do_action nat nat nat

definition yy_next_token :: "yyguts \<Rightarrow> (yy_goto \<times> yyguts) cres" where
  "yy_next_token g =
     cbind (yy_cur g) (\<lambda>b.
       let cp = yy_c_buf_p g
       in if cp < length (yy_ch_buf b)
          then Ret (Goto_match (yyg_start g) cp cp, yy_put (b\<lparr>yy_ch_buf := (yy_ch_buf b)[cp := yy_hold_char g]\<rparr>) g)
          else Undef)"

definition yy_at_match :: "nat \<Rightarrow> nat \<Rightarrow> nat \<Rightarrow> yyguts \<Rightarrow> (yy_goto \<times> yyguts) cres" where
  "yy_at_match s cp bp g =
     cbind (yy_cur g) (\<lambda>b.
     cbind (yy_match_buffer (drop cp (yy_ch_buf b)) s cp (yy_last_accepting_state g, yy_last_accepting_cpos g))
       (\<lambda>(s, cp, last_s, last_cp).
          Ret (Goto_find_action s cp bp, g\<lparr>yy_last_accepting_state := last_s, yy_last_accepting_cpos := last_cp\<rparr>)))"

definition YY_DO_BEFORE_ACTION :: "nat \<Rightarrow> nat \<Rightarrow> yyguts \<Rightarrow> yyguts cres" where
  "YY_DO_BEFORE_ACTION cp bp g =
     cbind (yy_cur g) (\<lambda>b.
       if cp < length (yy_ch_buf b)
       then Ret (yy_put (b\<lparr>yy_ch_buf := (yy_ch_buf b)[cp := NUL]\<rparr>)
                  (g\<lparr>yytext_r := bp, yyleng_r := cp - bp, yy_hold_char := yy_ch_buf b ! cp, yy_c_buf_p := cp\<rparr>))
       else Undef)"

definition yy_at_find_action :: "nat \<Rightarrow> nat \<Rightarrow> nat \<Rightarrow> yyguts \<Rightarrow> (yy_goto \<times> yyguts) cres" where
  "yy_at_find_action s cp bp g =
     (let yy_act = yy_accept ! s;
          (yy_act, cp) =
            (if yy_act = 0 then (yy_accept ! yy_last_accepting_state g, yy_last_accepting_cpos g) else (yy_act, cp))
      in cbind (YY_DO_BEFORE_ACTION cp bp g) (\<lambda>g. Ret (Do_action yy_act cp bp, g)))"

section \<open>Actions\<close>

text \<open>\<^verbatim>\<open>gdb_packet_analysis\<close> writes a NUL over the \<^verbatim>\<open>#\<close> of a packet that it accepts.\<close>

definition packet_left :: "string \<Rightarrow> nat \<Rightarrow> string" where
  "packet_left packet len =
     (let i = max 1 (len - 3)
      in case cstr (drop (i + 1) packet) of
           Ret s \<Rightarrow>
             (case scan_hex None s of
                Some (given, _) \<Rightarrow>
                  if ucast (checksum (take (i - 1) (drop 1 packet))) = given then packet[i := NUL] else packet
              | None \<Rightarrow> packet)
         | _ \<Rightarrow> packet)"

text \<open>The action of a rule on \<^verbatim>\<open>yytext\<close>, which starts at \<^verbatim>\<open>yytext_ptr\<close> in the buffer and goes on behind the token.\<close>

definition yy_rule_action :: "bool \<Rightarrow> u32 \<Rightarrow> nat \<Rightarrow> yyguts \<Rightarrow> yyguts cres option" where
  "yy_rule_action be junk act g =
     (case yy_cur g of
        Ret b \<Rightarrow>
          let packet = drop (yytext_r g) (yy_ch_buf b);
              packet' = (if act = 3 then packet_left packet (yyleng_r g) else packet)
          in map_option (\<lambda>r. cbind r (\<lambda>d.
                 Ret (yy_put (b\<lparr>yy_ch_buf := take (yytext_r g) (yy_ch_buf b) @ packet'\<rparr>) (g\<lparr>yyextra_r := d\<rparr>))))
               (yy_action be junk (drop (yyleng_r g + 1) packet) (yyextra_r g) act (take (yyleng_r g) packet))
      | Exit \<Rightarrow> Some Exit | Undef \<Rightarrow> Some Undef)"

text \<open>
  \<open>yy_previous_state\<close> is \<^verbatim>\<open>yy_get_previous_state\<close> on the buffer: the automaton on the text from \<^verbatim>\<open>yytext_ptr\<close> to
  \<^verbatim>\<open>yy_c_buf_p\<close>.
\<close>

definition yy_previous_state :: "yyguts \<Rightarrow> (nat \<times> yyguts) cres" where
  "yy_previous_state g =
     cbind (yy_cur g) (\<lambda>b.
       if length (yy_ch_buf b) < yy_c_buf_p g then Undef
       else case yy_previous (take (yy_c_buf_p g - yytext_r g) (drop (yytext_r g) (yy_ch_buf b)))
                 (yyg_start g) (yytext_r g) (yy_last_accepting_state g, yy_last_accepting_cpos g) of
              (s, last_s, last_cp) \<Rightarrow>
                Ret (s, g\<lparr>yy_last_accepting_state := last_s, yy_last_accepting_cpos := last_cp\<rparr>))"

text \<open>The NUL is one of the input: the automaton makes its transition, or the token ends before it.\<close>

definition yy_was_NUL :: "nat \<Rightarrow> yyguts \<Rightarrow> (yy_goto \<times> yyguts) cres" where
  "yy_was_NUL yy_amount_of_matched_text g =
     (let g = g\<lparr>yy_c_buf_p := yytext_r g + yy_amount_of_matched_text\<rparr>
      in cbind (yy_previous_state g) (\<lambda>(s, g).
         let (next_s, last_s, last_cp) =
               yy_try_NUL_trans s (yy_c_buf_p g) (yy_last_accepting_state g, yy_last_accepting_cpos g);
             g = g\<lparr>yy_last_accepting_state := last_s, yy_last_accepting_cpos := last_cp\<rparr>
         in if next_s \<noteq> 0
            then let g = g\<lparr>yy_c_buf_p := yy_c_buf_p g + 1\<rparr>
                 in Ret (Goto_match next_s (yy_c_buf_p g) (yytext_r g), g)
            else Ret (Goto_find_action s (yy_c_buf_p g) (yytext_r g), g)))"

definition YY_END_OF_BUFFER :: nat where
  "YY_END_OF_BUFFER = 6"

definition YY_STATE_EOF_INITIAL :: nat where
  "YY_STATE_EOF_INITIAL = 7"

text \<open>What a new source of input leaves to the first end of the buffer.\<close>

definition yy_new_source :: "yyguts \<Rightarrow> yyguts cres" where
  "yy_new_source g =
     cbind (yy_cur g) (\<lambda>b.
       Ret (if yy_buffer_status b = YY_BUFFER_NEW
            then yy_put (b\<lparr>yy_input_file := yyin_r g, yy_buffer_status := YY_BUFFER_NORMAL\<rparr>)
                   (g\<lparr>yy_n_chars := yy_b_n_chars b\<rparr>)
            else g))"

text \<open>A NUL of the input, or the end of the buffer; \<open>cp\<close> and \<open>bp\<close> are \<^verbatim>\<open>yy_cp\<close> and \<^verbatim>\<open>yy_bp\<close>.\<close>

definition yy_NUL_or_end ::
    "(nat \<Rightarrow> string option) \<Rightarrow> nat \<Rightarrow> nat \<Rightarrow> nat \<Rightarrow> yyguts \<Rightarrow> read_answer list \<Rightarrow>
     (yy_goto \<times> yyguts \<times> read_answer list) cres option" where
  "yy_NUL_or_end malloc yy_amount_of_matched_text cp bp g ans =
     (if yy_c_buf_p g \<le> yy_n_chars g
      then Some (cbind (yy_was_NUL yy_amount_of_matched_text g) (\<lambda>(l, g). Ret (l, g, ans)))
      else
       (case yy_get_next_buffer malloc g ans of
          Some (Ret (EOB_ACT_END_OF_FILE, g, ans)) \<Rightarrow>
            let g = g\<lparr>yy_did_buffer_switch_on_eof := False\<rparr>;
                g = g\<lparr>yy_c_buf_p := yytext_r g\<rparr>
            in Some (Ret (Do_action YY_STATE_EOF_INITIAL cp bp, g, ans))
        | Some (Ret (EOB_ACT_CONTINUE_SCAN, g, ans)) \<Rightarrow>
            let g = g\<lparr>yy_c_buf_p := yytext_r g + yy_amount_of_matched_text\<rparr>
            in Some (cbind (yy_previous_state g) (\<lambda>(s, g).
                 Ret (Goto_match s (yy_c_buf_p g) (yytext_r g), g, ans)))
        | Some (Ret (EOB_ACT_LAST_MATCH, g, ans)) \<Rightarrow>
            let g = g\<lparr>yy_c_buf_p := yy_n_chars g\<rparr>
            in Some (cbind (yy_previous_state g) (\<lambda>(s, g).
                 Ret (Goto_find_action s (yy_c_buf_p g) (yytext_r g), g, ans)))
        | Some Exit \<Rightarrow> Some Exit | Some Undef \<Rightarrow> Some Undef | None \<Rightarrow> None))"

definition yy_end_of_buffer ::
    "(nat \<Rightarrow> string option) \<Rightarrow> nat \<Rightarrow> nat \<Rightarrow> yyguts \<Rightarrow> read_answer list \<Rightarrow>
     (yy_goto \<times> yyguts \<times> read_answer list) cres option" where
  "yy_end_of_buffer malloc cp bp g ans =
     (let yy_amount_of_matched_text = cp - yytext_r g - 1
      in case cbind (yy_cur g) (\<lambda>b.
              if length (yy_ch_buf b) \<le> cp then Undef
              else yy_new_source (yy_put (b\<lparr>yy_ch_buf := (yy_ch_buf b)[cp := yy_hold_char g]\<rparr>) g)) of
           Ret g \<Rightarrow> yy_NUL_or_end malloc yy_amount_of_matched_text cp bp g ans
         | Exit \<Rightarrow> Some Exit | Undef \<Rightarrow> Some Undef)"

section \<open>The scanner\<close>

text \<open>
  One step from a label to the next; no label when the function returns. The action 0 backs up. The action
  of a rule is followed by the next token.
\<close>

definition yy_at_action ::
    "(nat \<Rightarrow> string option) \<Rightarrow> bool \<Rightarrow> u32 \<Rightarrow> nat \<Rightarrow> nat \<Rightarrow> nat \<Rightarrow> yyguts \<Rightarrow> read_answer list \<Rightarrow>
     (yy_goto option \<times> yyguts \<times> read_answer list) cres option" where
  "yy_at_action malloc be junk act cp bp g ans =
     (if act = 0
      then Some (cbind (yy_cur g) (\<lambda>b.
             if length (yy_ch_buf b) \<le> cp then Undef
             else Ret (Some (Goto_find_action (yy_last_accepting_state g) (yy_last_accepting_cpos g) bp),
                       yy_put (b\<lparr>yy_ch_buf := (yy_ch_buf b)[cp := yy_hold_char g]\<rparr>) g, ans)))
      else if act = YY_END_OF_BUFFER
      then map_option (\<lambda>r. cbind r (\<lambda>(l, g, ans). Ret (Some l, g, ans))) (yy_end_of_buffer malloc cp bp g ans)
      else if act = YY_STATE_EOF_INITIAL
      then Some (cbind (handle_error (yyextra_r g)) (\<lambda>d. Ret (None, g\<lparr>yyextra_r := d\<rparr>, ans)))
      else map_option (\<lambda>r. cbind r (\<lambda>g. Ret (Some Next_token, g, ans))) (yy_rule_action be junk act g))"

definition yy_step ::
    "(nat \<Rightarrow> string option) \<Rightarrow> bool \<Rightarrow> u32 \<Rightarrow> yy_goto \<Rightarrow> yyguts \<Rightarrow> read_answer list \<Rightarrow>
     (yy_goto option \<times> yyguts \<times> read_answer list) cres option" where
  "yy_step malloc be junk l g ans =
     (case l of
        Next_token \<Rightarrow> Some (cbind (yy_next_token g) (\<lambda>(l, g). Ret (Some l, g, ans)))
      | Goto_match s cp bp \<Rightarrow> Some (cbind (yy_at_match s cp bp g) (\<lambda>(l, g). Ret (Some l, g, ans)))
      | Goto_find_action s cp bp \<Rightarrow> Some (cbind (yy_at_find_action s cp bp g) (\<lambda>(l, g). Ret (Some l, g, ans)))
      | Do_action act cp bp \<Rightarrow> yy_at_action malloc be junk act cp bp g ans)"

text \<open>The labels and states a run passes through, also when it then waits for input for ever.\<close>

inductive yy_reaches ::
    "(nat \<Rightarrow> string option) \<Rightarrow> bool \<Rightarrow> u32 \<Rightarrow> yy_goto \<Rightarrow> yyguts \<Rightarrow> read_answer list \<Rightarrow>
     yy_goto \<Rightarrow> yyguts \<Rightarrow> read_answer list \<Rightarrow> bool" for malloc be junk where
  here: "yy_reaches malloc be junk l g ans l g ans"
| onwards: "yy_step malloc be junk l g ans = Some (Ret (Some l1, g1, ans1)) \<Longrightarrow>
    yy_reaches malloc be junk l1 g1 ans1 l2 g2 ans2 \<Longrightarrow> yy_reaches malloc be junk l g ans l2 g2 ans2"

text \<open>The whole run.\<close>

partial_function (option) yy_scan ::
    "(nat \<Rightarrow> string option) \<Rightarrow> bool \<Rightarrow> u32 \<Rightarrow> yy_goto \<Rightarrow> yyguts \<Rightarrow> read_answer list \<Rightarrow>
     (yyguts \<times> read_answer list) cres option" where
  "yy_scan malloc be junk l g ans =
     (case yy_step malloc be junk l g ans of
        Some (Ret (next_l, g, ans)) \<Rightarrow>
          (case next_l of Some l \<Rightarrow> yy_scan malloc be junk l g ans | None \<Rightarrow> Some (Ret (g, ans)))
      | Some Exit \<Rightarrow> Some Exit | Some Undef \<Rightarrow> Some Undef | None \<Rightarrow> None)"

declare yy_scan.simps [code]

lemma reaches_scan:
  "yy_reaches malloc be junk l g ans l' g' ans' \<Longrightarrow>
     yy_scan malloc be junk l g ans = yy_scan malloc be junk l' g' ans'"
proof (induction rule: yy_reaches.induct)
  case (onwards l g ans l1 g1 ans1 l2 g2 ans2)
  then show ?case by (subst yy_scan.simps) simp
qed simp

lemma reaches_step:
  "yy_step malloc be junk l g ans = Some (Ret (Some l', g', ans')) \<Longrightarrow>
     yy_reaches malloc be junk l g ans l' g' ans'"
  by (blast intro: yy_reaches.intros)

lemma reaches_trans [trans]:
  "yy_reaches malloc be junk l g ans l1 g1 ans1 \<Longrightarrow> yy_reaches malloc be junk l1 g1 ans1 l2 g2 ans2 \<Longrightarrow>
     yy_reaches malloc be junk l g ans l2 g2 ans2"
  by (induction rule: yy_reaches.induct) (blast intro: yy_reaches.intros)+

text \<open>What \<^verbatim>\<open>yylex\<close> does the first time it is called; 0 and 1 are \<^verbatim>\<open>stdin\<close> and \<^verbatim>\<open>stdout\<close>.\<close>

definition yylex_first :: "(nat \<Rightarrow> string option) \<Rightarrow> yyguts \<Rightarrow> yyguts cres" where
  "yylex_first malloc g =
     (if yy_init g then Ret g
      else
        let g = g\<lparr>yy_init := True\<rparr>;
            g = (if yyg_start g = 0 then g\<lparr>yyg_start := 1\<rparr> else g);
            g = (if yyin_r g = None then g\<lparr>yyin_r := Some 0\<rparr> else g);
            g = (if yyout_r g = None then g\<lparr>yyout_r := Some 1\<rparr> else g)
        in cbind
             (if YY_CURRENT_BUFFER g = None
              then cbind (yyensure_buffer_stack malloc g) (\<lambda>g.
                   cbind (yy_create_buffer malloc (yyin_r g) YY_BUF_SIZE g) (\<lambda>(p, g). yy_set_current p g))
              else Ret g)
             yy_load_buffer_state)"

definition yylex_buffered ::
    "(nat \<Rightarrow> string option) \<Rightarrow> bool \<Rightarrow> u32 \<Rightarrow> yyguts \<Rightarrow> read_answer list \<Rightarrow>
     (yyguts \<times> read_answer list) cres option" where
  "yylex_buffered malloc be junk g ans =
     (case yylex_first malloc g of
        Ret g \<Rightarrow> yy_scan malloc be junk Next_token g ans
      | Exit \<Rightarrow> Some Exit | Undef \<Rightarrow> Some Undef)"

text \<open>
  \<open>f\<close> is the stream \<^verbatim>\<open>fdopen\<close> makes of the socket, if any. The result of \<^verbatim>\<open>yylex_init_extra\<close> is not tested: without
  memory for the scanner, \<^verbatim>\<open>yyset_in\<close> writes through a null pointer.
\<close>

definition gdb_scanner_buffered ::
    "(nat \<Rightarrow> string option) \<Rightarrow> bool \<Rightarrow> u32 \<Rightarrow> nat option \<Rightarrow> arm_core \<Rightarrow> read_answer list \<Rightarrow>
     parser_data cres option" where
  "gdb_scanner_buffered malloc be junk f arm ans =
     (let data = \<lparr>pd_gdb = gdb_init_data arm, pd_buffer = []\<rparr>
      in if f = None then Some (Ret data)
         else case yylex_init_extra malloc data True of
             (_, _, None) \<Rightarrow> Some Undef
           | (_, _, Some g) \<Rightarrow>
               (case yylex_buffered malloc be junk (yyset_in f g) ans of
                  Some (Ret (g, _)) \<Rightarrow>
                    map_option (\<lambda>r. cbind r (\<lambda>_. Ret (yyextra_r g))) (yylex_destroy g)
                | Some Exit \<Rightarrow> Some Exit | Some Undef \<Rightarrow> Some Undef | None \<Rightarrow> None))"

end
