(* ===== verification/Scanner_Refines.thy ===== *)
theory Scanner_Refines
  imports Scanner_Buffer
begin

text \<open>
  The scanner with its buffer does what the scanner of the whole stream does. The bytes of an input that
  ends may reach the socket in any portions, with interrupted calls in between: \<open>yylex_buffered\<close> finds the
  tokens of \<open>yylex\<close> and runs their actions in the same order, through refills, moves and growths of the
  buffer, and NULs in the input.

  The proof keeps a relation between the state at each label of the scanner and the rest of the stream:
  \<open>at_token\<close> at the start of a token, \<open>at_match\<close> within one, \<open>at_find\<close> when the automaton has stopped.
\<close>

section \<open>The stream of the socket\<close>

text \<open>The bytes up to the end of the input; that no call fails but for an interrupt; that there is an end.\<close>

definition received :: "read_answer list \<Rightarrow> string" where
  "received ans = chars_of (delivered ans)"

fun clean :: "read_answer list \<Rightarrow> bool" where
  "clean [] = True"
| "clean (Read_failed e # ans) \<longleftrightarrow> e = EINTR \<and> clean ans"
| "clean (Got bs # ans) \<longleftrightarrow> bs = [] \<or> clean ans"

fun to_eof :: "read_answer list \<Rightarrow> bool" where
  "to_eof [] = False"
| "to_eof (Read_failed e # ans) \<longleftrightarrow> e = EINTR \<and> to_eof ans"
| "to_eof (Got bs # ans) \<longleftrightarrow> bs = [] \<or> to_eof ans"

lemma to_eof_clean: "to_eof ans \<Longrightarrow> clean ans"
  by (induction ans rule: to_eof.induct) auto

lemma chars_of_simps [simp]:
  "chars_of [] = []" "length (chars_of bs) = length bs" "chars_of bs = [] \<longleftrightarrow> bs = []"
  "chars_of (take n bs) = take n (chars_of bs)" "chars_of (drop n bs) = drop n (chars_of bs)"
  by (simp_all add: chars_of_def take_map drop_map)

lemma received_simps [simp]:
  "received [] = []"
  "received (Read_failed e # ans) = (if e = EINTR then received ans else [])"
  "received (Got bs # ans) = (if bs = [] then [] else chars_of bs @ received ans)"
  by (simp_all add: received_def) (simp add: chars_of_def)

lemma YY_INPUT_received:
  assumes "clean ans" and "to_eof ans \<or> received ans \<noteq> []" and "0 < n"
  shows "\<exists>bs ans'. YY_INPUT ans n = Some (Ret (bs, ans')) \<and> length bs \<le> n \<and>
    received ans = chars_of bs @ (if bs = [] then [] else received ans') \<and>
    (bs = [] \<longrightarrow> to_eof ans) \<and> (bs = [] \<or> clean ans' \<and> (to_eof ans' \<longleftrightarrow> to_eof ans))"
  using assms
  by (induction ans n rule: YY_INPUT.induct) (auto simp flip: append_assoc)

section \<open>The state of the scanner\<close>

text \<open>The scanner of the server has one buffer.\<close>

definition yy_single :: "yyguts \<Rightarrow> yy_buffer_state \<Rightarrow> bool" where
  "yy_single g b \<longleftrightarrow> yy_buffer_stack g = Some [Some 0] \<and> yy_buffer_stack_top g = 0 \<and> yy_buffers g = [Some b]"

lemma single_current [simp]: "yy_single g b \<Longrightarrow> YY_CURRENT_BUFFER g = Some 0"
  by (simp add: yy_single_def YY_CURRENT_BUFFER_def)

lemma single_cur [simp]: "yy_single g b \<Longrightarrow> yy_cur g = Ret b"
  by (simp add: yy_single_def yy_cur_def yy_deref_def YY_CURRENT_BUFFER_def)

lemma single_put [simp]: "yy_single g b \<Longrightarrow> yy_put b' g = g\<lparr>yy_buffers := [Some b']\<rparr>"
  by (simp add: yy_single_def yy_put_def yy_store_def YY_CURRENT_BUFFER_def)

lemma single_buffers [simp]: "yy_single g b \<Longrightarrow> yy_single (g\<lparr>yy_buffers := [Some b']\<rparr>) b''  \<longleftrightarrow> b' = b''"
  by (auto simp add: yy_single_def)

lemma single_upd [simp]:
  "yy_single (g\<lparr>yyextra_r := d\<rparr>) b \<longleftrightarrow> yy_single g b"
  "yy_single (g\<lparr>yyin_r := f\<rparr>) b \<longleftrightarrow> yy_single g b"
  "yy_single (g\<lparr>yy_hold_char := c\<rparr>) b \<longleftrightarrow> yy_single g b"
  "yy_single (g\<lparr>yy_n_chars := n\<rparr>) b \<longleftrightarrow> yy_single g b"
  "yy_single (g\<lparr>yyleng_r := n\<rparr>) b \<longleftrightarrow> yy_single g b"
  "yy_single (g\<lparr>yy_c_buf_p := n\<rparr>) b \<longleftrightarrow> yy_single g b"
  "yy_single (g\<lparr>yy_did_buffer_switch_on_eof := f'\<rparr>) b \<longleftrightarrow> yy_single g b"
  "yy_single (g\<lparr>yy_last_accepting_state := n\<rparr>) b \<longleftrightarrow> yy_single g b"
  "yy_single (g\<lparr>yy_last_accepting_cpos := n\<rparr>) b \<longleftrightarrow> yy_single g b"
  "yy_single (g\<lparr>yytext_r := n\<rparr>) b \<longleftrightarrow> yy_single g b"
  by (simp_all add: yy_single_def)

text \<open>A buffer as \<^verbatim>\<open>yy_create_buffer\<close> makes it: it may grow, up to \<open>2 ^ 30\<close> characters, and has room for two NULs.\<close>

definition yy_wf_buf :: "yy_buffer_state \<Rightarrow> bool" where
  "yy_wf_buf b \<longleftrightarrow> yy_is_our_buffer b \<and> yy_fill_buffer b \<and> length (yy_ch_buf b) = yy_buf_size b + 2 \<and>
     (\<exists>k. 14 \<le> k \<and> k \<le> 30 \<and> yy_buf_size b = 2 ^ k)"

definition malloc_total :: "(nat \<Rightarrow> string option) \<Rightarrow> bool" where
  "malloc_total malloc \<longleftrightarrow> (\<forall>n. \<exists>s. malloc n = Some s \<and> length s = n)"

section \<open>Refilling the buffer\<close>

lemma yy_move_eq:
  "dest \<le> source \<Longrightarrow> source + n \<le> length buf \<Longrightarrow>
     yy_move n dest source buf = take dest buf @ take n (drop source buf) @ drop (dest + n) buf"
proof (induction n arbitrary: dest source buf)
  case (Suc n)
  let ?buf = "buf[dest := buf ! source]"
  have "yy_move (Suc n) dest source buf =
      take (dest + 1) ?buf @ take n (drop (source + 1) ?buf) @ drop (dest + 1 + n) ?buf"
    using Suc.IH [of "dest + 1" "source + 1" ?buf] Suc.prems by simp
  also have "take (dest + 1) ?buf = take dest buf @ [buf ! source]"
    using Suc.prems by (simp add: take_Suc_conv_app_nth)
  also have "drop (source + 1) ?buf = drop (source + 1) buf" using Suc.prems by simp
  also have "drop (dest + 1 + n) ?buf = drop (dest + Suc n) buf" by simp
  also have "(take dest buf @ [buf ! source]) @ take n (drop (source + 1) buf) @ drop (dest + Suc n) buf =
      take dest buf @ take (Suc n) (drop source buf) @ drop (dest + Suc n) buf"
    using Suc.prems by (simp add: Cons_nth_drop_Suc [symmetric])
  finally show ?case .
qed simp

lemma yy_grow_room:
  assumes "malloc_total malloc" and "number_to_move + 1 < 2 ^ 30" and "yy_wf_buf b"
  shows "\<exists>n buf. yy_grow malloc number_to_move b = Some (Ret (b\<lparr>yy_buf_size := n, yy_ch_buf := yy_ch_buf b @ buf\<rparr>)) \<and>
    number_to_move + 1 < n \<and> yy_wf_buf (b\<lparr>yy_buf_size := n, yy_ch_buf := yy_ch_buf b @ buf\<rparr>)"
proof -
  from assms(3) obtain k where k: "14 \<le> k" "k \<le> 30" "yy_buf_size b = 2 ^ k" by (auto simp: yy_wf_buf_def)
  from k(2) assms(3) k(1,3) show ?thesis
  proof (induction k arbitrary: b rule: inc_induct)
    case base
    have "b\<lparr>yy_buf_size := yy_buf_size b, yy_ch_buf := yy_ch_buf b @ []\<rparr> = b" by simp
    moreover have "yy_grow malloc number_to_move b = Some (Ret b)"
      using base assms(2) by (subst yy_grow.simps) simp
    moreover have "number_to_move + 1 < yy_buf_size b" using base assms(2) by simp
    ultimately show ?case using base(1) by metis
  next
    case (step k)
    show ?case
    proof (cases "number_to_move + 1 < yy_buf_size b")
      case True
      have "b\<lparr>yy_buf_size := yy_buf_size b, yy_ch_buf := yy_ch_buf b @ []\<rparr> = b" by simp
      moreover have "yy_grow malloc number_to_move b = Some (Ret b)"
        using True by (subst yy_grow.simps) simp
      ultimately show ?thesis using True step.prems(1) by metis
    next
      case False
      let ?size = "yy_buf_size b * 2"
      from assms(1) obtain s where s: "malloc (?size + 2) = Some s" "length s = ?size + 2"
        unfolding malloc_total_def by blast
      have len: "length (yy_ch_buf b) = yy_buf_size b + 2" and our: "yy_is_our_buffer b"
        using step.prems(1) by (simp_all add: yy_wf_buf_def)
      let ?buf = "yy_ch_buf b @ drop (length (yy_ch_buf b)) s"
      let ?b = "b\<lparr>yy_buf_size := ?size, yy_ch_buf := ?buf\<rparr>"
      have re: "yyrealloc malloc (yy_ch_buf b) (?size + 2) = Some ?buf"
        using s len by (simp add: yyrealloc_def)
      have "(2 :: nat) ^ k < 2 ^ 30" using step.hyps(2) by (intro power_strict_increasing) auto
      then have small: "\<not> 2 ^ 31 \<le> ?size" using step.prems(3) by simp
      have pos: "?size \<noteq> 0" using step.prems(3) by simp
      have grow: "yy_grow malloc number_to_move b = yy_grow malloc number_to_move ?b"
        using False our small pos re by (subst yy_grow.simps) (simp add: Let_def)
      have "yy_buf_size ?b = 2 ^ Suc k" using step.prems(3) by simp
      moreover from this have "yy_wf_buf ?b"
        using step.prems(1,2) step.hyps len s(2) unfolding yy_wf_buf_def
        by (intro conjI exI [of _ "Suc k"]) simp_all
      moreover have "14 \<le> Suc k" using step.prems(2) by simp
      ultimately obtain n buf where
        "yy_grow malloc number_to_move ?b = Some (Ret (?b\<lparr>yy_buf_size := n, yy_ch_buf := yy_ch_buf ?b @ buf\<rparr>))"
        "number_to_move + 1 < n" "yy_wf_buf (?b\<lparr>yy_buf_size := n, yy_ch_buf := yy_ch_buf ?b @ buf\<rparr>)"
        using step.IH [of ?b] by blast
      then show ?thesis unfolding grow
        by (intro exI [of _ n] exI [of _ "drop (length (yy_ch_buf b)) s @ buf"]) simp
    qed
  qed
qed


text \<open>What the socket still has for the scanner, and whether (\<open>eof\<close>) it comes to an end after it.\<close>

definition pending :: "yy_buffer_state \<Rightarrow> read_answer list \<Rightarrow> string" where
  "pending b ans = (if yy_buffer_status b = YY_BUFFER_EOF_PENDING then [] else received ans)"

definition ends :: "bool \<Rightarrow> yy_buffer_state \<Rightarrow> read_answer list \<Rightarrow> bool" where
  "ends eof b ans \<longleftrightarrow>
     (if yy_buffer_status b = YY_BUFFER_EOF_PENDING then eof else clean ans \<and> (to_eof ans \<longleftrightarrow> eof))"

text \<open>The buffer holds \<open>pre\<close>, then the text \<open>w\<close>, then the two NULs and old memory.\<close>

definition holds :: "yyguts \<Rightarrow> yy_buffer_state \<Rightarrow> string \<Rightarrow> string \<Rightarrow> bool" where
  "holds g b pre w \<longleftrightarrow> yy_single g b \<and> yy_wf_buf b \<and> (\<exists>junk. yy_ch_buf b = pre @ w @ NUL # NUL # junk)"

lemma holdsD:
  assumes "holds g b pre w"
  shows "yy_single g b" "yy_wf_buf b" "length pre + length w + 2 \<le> length (yy_ch_buf b)"
    "yy_is_our_buffer b" "yy_fill_buffer b" "length (yy_ch_buf b) = yy_buf_size b + 2"
  using assms by (auto simp: holds_def yy_wf_buf_def)

lemma read_more:
  assumes malloc: "malloc_total malloc" and h: "yy_single g b" "yy_wf_buf b"
    and n: "length w + 1 < 2 ^ 30" and e: "ends eof b ans"
    and wait: "eof \<or> pending b ans \<noteq> []"
    and buf: "yy_ch_buf b = w @ tail" and tail: "2 \<le> length tail"
  shows "\<exists>b' ans' cs c d junk.
    yy_read_more malloc (length w) g ans =
      Some (Ret (g\<lparr>yy_n_chars := length cs, yy_buffers := [Some b']\<rparr>, ans')) \<and>
    yy_wf_buf b' \<and> yy_ch_buf b' = w @ cs @ c # d # junk \<and>
    yy_buf_size b' = length w + length cs + length junk \<and>
    pending b ans = cs @ (if cs = [] then [] else pending b' ans') \<and>
    yy_buffer_status b' = yy_buffer_status b \<and> (if cs = [] then eof else ends eof b' ans')"
proof (cases "yy_buffer_status b = YY_BUFFER_EOF_PENDING")
  case True
  obtain c d junk where t: "tail = c # d # junk" using tail by (cases tail; cases "tl tail") auto
  let ?b = "b\<lparr>yy_b_n_chars := 0\<rparr>"
  have "yy_read_more malloc (length w) g ans = Some (Ret (g\<lparr>yy_n_chars := 0, yy_buffers := [Some ?b]\<rparr>, ans))"
    using h True by (simp add: yy_read_more_def)
  moreover have "yy_wf_buf ?b" "yy_buf_size ?b = length w + length junk" "pending b ans = []" "eof"
    using h(2) buf True e by (simp_all add: yy_wf_buf_def t pending_def ends_def)
  ultimately show ?thesis
    by (intro exI [of _ ?b] exI [of _ ans] exI [of _ "[]"] exI [of _ c] exI [of _ d] exI [of _ junk])
      (simp add: buf t)
next
  case False
  obtain m extra where grow: "yy_grow malloc (length w) b =
      Some (Ret (b\<lparr>yy_buf_size := m, yy_ch_buf := yy_ch_buf b @ extra\<rparr>))"
    and m: "length w + 1 < m" and wf: "yy_wf_buf (b\<lparr>yy_buf_size := m, yy_ch_buf := yy_ch_buf b @ extra\<rparr>)"
    using yy_grow_room [OF malloc n h(2)] by blast
  define num where "num = (if YY_READ_BUF_SIZE < m - Suc (length w) then YY_READ_BUF_SIZE else m - Suc (length w))"
  have num: "0 < num" "num \<le> m - length w - 1" using m by (auto simp: num_def YY_READ_BUF_SIZE_def)
  have a: "clean ans" "to_eof ans \<longleftrightarrow> eof" using e False by (simp_all add: ends_def)
  have more: "to_eof ans \<or> received ans \<noteq> []" using wait False a(2) by (simp add: pending_def)
  obtain bs ans' where
    inp: "YY_INPUT ans num = Some (Ret (bs, ans'))" "length bs \<le> num"
    "received ans = chars_of bs @ (if bs = [] then [] else received ans')" "bs = [] \<longrightarrow> to_eof ans"
    "bs = [] \<or> clean ans' \<and> (to_eof ans' \<longleftrightarrow> to_eof ans)"
    using YY_INPUT_received [OF a(1) more num(1)] by blast
  let ?cs = "chars_of bs"
  let ?rest = "tail @ extra"
  have len: "length w + length ?rest = m + 2" using wf by (simp add: yy_wf_buf_def buf)
  then have "2 \<le> length (drop (length bs) ?rest)" using num(2) inp(2) m by simp
  then obtain c d junk where j: "drop (length bs) ?rest = c # d # junk"
    by (cases "drop (length bs) ?rest"; cases "tl (drop (length bs) ?rest)") auto
  let ?b = "b\<lparr>yy_buf_size := m, yy_ch_buf := w @ ?cs @ c # d # junk, yy_b_n_chars := length bs\<rparr>"
  have wr: "yy_write (length w) ?cs (yy_ch_buf b @ extra) = w @ ?cs @ c # d # junk"
    using j by (simp add: yy_write_def buf)
  have room: "\<not> length (yy_ch_buf b @ extra) < length w + num" using len num(2) buf m by simp
  have "yy_read_more malloc (length w) g ans = Some (Ret (g\<lparr>yy_n_chars := length bs, yy_buffers := [Some ?b]\<rparr>, ans'))"
    using h False room inp(1) wr
    by (simp add: yy_read_more_def grow Let_def num_def [symmetric] split del: if_split)
  moreover have "length bs + 2 + length junk = length ?rest"
  proof -
    have "length (drop (length bs) ?rest) = 2 + length junk" unfolding j by simp
    moreover have "length bs \<le> length ?rest" using len num(2) inp(2) m by simp
    ultimately show ?thesis by simp
  qed
  then have "yy_wf_buf ?b" "yy_buf_size ?b = length w + length ?cs + length junk"
    using wf len unfolding yy_wf_buf_def by simp_all
  moreover have "pending b ans = ?cs @ (if ?cs = [] then [] else pending ?b ans')"
    using False inp(3) by (simp add: pending_def)
  moreover have "if ?cs = [] then eof else ends eof ?b ans'" using False inp(4,5) a(2) by (auto simp: ends_def)
  ultimately show ?thesis
    by (intro exI [of _ ?b] exI [of _ ans'] exI [of _ ?cs] exI [of _ c] exI [of _ d] exI [of _ junk]) simp
qed

lemma filled:
  assumes "yy_single g b" and "yy_wf_buf b" and "yy_ch_buf b = w @ cs @ c # d # junk" and "yy_n_chars g = length cs"
    and "yy_buf_size b = length w + length cs + length junk"
  shows "(cs \<noteq> [] \<longrightarrow> yy_buffer_filled malloc (length w) g = Ret (EOB_ACT_CONTINUE_SCAN,
            g\<lparr>yy_buffers := [Some (b\<lparr>yy_ch_buf := w @ cs @ NUL # NUL # junk\<rparr>)],
              yy_n_chars := length w + length cs, yytext_r := 0\<rparr>)) \<and>
    (cs = [] \<and> w \<noteq> [] \<longrightarrow> yy_buffer_filled malloc (length w) g = Ret (EOB_ACT_LAST_MATCH,
            g\<lparr>yy_buffers := [Some (b\<lparr>yy_ch_buf := w @ NUL # NUL # junk, yy_buffer_status := YY_BUFFER_EOF_PENDING\<rparr>)],
              yy_n_chars := length w, yytext_r := 0\<rparr>))"
  using assms
  by (auto simp: yy_buffer_filled_def Let_def list_update_append)

lemma filled_eof:
  assumes s: "yy_single g b" and w: "yy_wf_buf b" and n: "yy_n_chars g = 0"
  shows "\<exists>g' b'. yy_buffer_filled malloc 0 g = Ret (EOB_ACT_END_OF_FILE, g') \<and> yy_single g' b' \<and>
    yyextra_r g' = yyextra_r g"
proof -
  from w have "2 \<le> length (yy_ch_buf b)" by (simp add: yy_wf_buf_def)
  then obtain c d cs where cs: "yy_ch_buf b = c # d # cs"
    by (cases "yy_ch_buf b"; cases "tl (yy_ch_buf b)") auto
  show ?thesis
    using s n
    by (simp add: yy_buffer_filled_def yyrestart_def yy_init_buffer_def yy_flush_buffer_def
        yy_load_buffer_state_def cs Let_def yy_deref_def yy_store_def yy_single_def yy_cur_def YY_CURRENT_BUFFER_def yy_put_def)
qed


text \<open>
  A refill at the end of the buffer, for the three things it can come to. The text \<open>w\<close> of the current token moves
  to the front.
\<close>

lemma get_next_buffer_cases:
  assumes malloc: "malloc_total malloc" and h: "holds g b pre w" and e: "ends eof b ans"
    and wait: "eof \<or> pending b ans \<noteq> []"
    and n: "length w + 1 < 2 ^ 30" and new: "yy_buffer_status b \<noteq> YY_BUFFER_NEW"
    and ptr: "yytext_r g = length pre" "yy_n_chars g = length pre + length w"
      "yy_c_buf_p g = length pre + length w + 1"
  obtains g' b' ans' where "w = []" "pending b ans = []"
      "yy_get_next_buffer malloc g ans = Some (Ret (EOB_ACT_END_OF_FILE, g', ans'))"
      "yy_single g' b'" "yyextra_r g' = yyextra_r g"
  | g' b' ans' where "w \<noteq> []" "pending b ans = []" "eof"
      "yy_get_next_buffer malloc g ans = Some (Ret (EOB_ACT_LAST_MATCH, g', ans'))"
      "holds g' b' [] w" "yy_buffer_status b' = YY_BUFFER_EOF_PENDING"
      "yy_n_chars g' = length w" "yytext_r g' = 0" "yyextra_r g' = yyextra_r g" "yyg_start g' = yyg_start g"
  | g' b' ans' cs where "cs \<noteq> []" "pending b ans = cs @ pending b' ans'"
      "yy_get_next_buffer malloc g ans = Some (Ret (EOB_ACT_CONTINUE_SCAN, g', ans'))"
      "holds g' b' [] (w @ cs)" "yy_buffer_status b' = yy_buffer_status b" "ends eof b' ans'"
      "yy_n_chars g' = length (w @ cs)" "yytext_r g' = 0" "yyextra_r g' = yyextra_r g" "yyg_start g' = yyg_start g"
proof -
  obtain junk where junk: "yy_ch_buf b = pre @ w @ NUL # NUL # junk" using h by (auto simp: holds_def)
  define buf where "buf = yy_move (length w) 0 (length pre) (yy_ch_buf b)"
  have buf: "buf = w @ drop (length w) (yy_ch_buf b)"
    unfolding buf_def junk by (subst yy_move_eq) simp_all
  have tail: "2 \<le> length (drop (length w) (yy_ch_buf b))" unfolding junk by simp
  let ?b = "b\<lparr>yy_ch_buf := buf\<rparr>"
  let ?g = "g\<lparr>yy_buffers := [Some ?b]\<rparr>"
  have single: "yy_single ?g ?b" using holdsD [OF h] by simp
  have wf: "yy_wf_buf ?b" using holdsD [OF h] by (simp add: yy_wf_buf_def buf)
  have e': "ends eof ?b ans" using e by (simp add: ends_def)
  have get: "yy_get_next_buffer malloc g ans =
      (case yy_read_more malloc (length w) ?g ans of
         Some (Ret (g, ans)) \<Rightarrow> Some (cbind (yy_buffer_filled malloc (length w) g) (\<lambda>(act, g). Ret (act, g, ans)))
       | Some Exit \<Rightarrow> Some Exit | Some Undef \<Rightarrow> Some Undef | None \<Rightarrow> None)"
    using holdsD [OF h] ptr by (simp add: yy_get_next_buffer_def Let_def buf_def)
  have wait': "eof \<or> pending ?b ans \<noteq> []" using wait by (simp add: pending_def)
  have bufs: "yy_ch_buf ?b = w @ drop (length w) (yy_ch_buf b)" by (simp add: buf)
  obtain b' ans' cs c d junk' where r: "yy_read_more malloc (length w) ?g ans =
      Some (Ret (?g\<lparr>yy_n_chars := length cs, yy_buffers := [Some b']\<rparr>, ans'))"
    "yy_wf_buf b'" "yy_ch_buf b' = w @ cs @ c # d # junk'"
    "yy_buf_size b' = length w + length cs + length junk'"
    "pending ?b ans = cs @ (if cs = [] then [] else pending b' ans')"
    "yy_buffer_status b' = yy_buffer_status ?b" "if cs = [] then eof else ends eof b' ans'"
    using read_more [OF malloc single wf n e' wait' bufs tail] by blast
  let ?g' = "g\<lparr>yy_n_chars := length cs, yy_buffers := [Some b']\<rparr>"
  have single': "yy_single ?g' b'" using holdsD(1) [OF h] by simp
  have get': "yy_get_next_buffer malloc g ans =
      Some (cbind (yy_buffer_filled malloc (length w) ?g') (\<lambda>(act, g). Ret (act, g, ans')))"
    unfolding get r(1) by simp
  have p: "pending b ans = pending ?b ans" by (simp add: pending_def)
  note f = filled [OF single' r(2,3) _ r(4), of malloc]
  have wf': "yy_wf_buf (b'\<lparr>yy_ch_buf := w @ cs @ NUL # NUL # junk'\<rparr>)"
    "yy_wf_buf (b'\<lparr>yy_ch_buf := w @ cs @ NUL # NUL # junk', yy_buffer_status := YY_BUFFER_EOF_PENDING\<rparr>)"
    using r(2,3) by (simp_all add: yy_wf_buf_def)
  consider "cs \<noteq> []" | "cs = []" "w \<noteq> []" | "cs = []" "w = []" by blast
  then show thesis
  proof cases
    case 1
    let ?b3 = "b'\<lparr>yy_ch_buf := w @ cs @ NUL # NUL # junk'\<rparr>"
    let ?g3 = "?g'\<lparr>yy_buffers := [Some ?b3], yy_n_chars := length w + length cs, yytext_r := 0\<rparr>"
    have "yy_get_next_buffer malloc g ans = Some (Ret (EOB_ACT_CONTINUE_SCAN, ?g3, ans'))"
      unfolding get' using 1 f by simp
    moreover have "holds ?g3 ?b3 [] (w @ cs)" using holdsD(1) [OF h] wf' by (simp add: holds_def)
    moreover have "pending b ans = cs @ pending ?b3 ans'" "ends eof ?b3 ans'"
      using 1 r(5,7) p by (simp_all add: pending_def ends_def)
    ultimately show thesis using 1 r(6) that(3) [of cs ?b3 ans' ?g3] by simp
  next
    case 2
    let ?b3 = "b'\<lparr>yy_ch_buf := w @ NUL # NUL # junk', yy_buffer_status := YY_BUFFER_EOF_PENDING\<rparr>"
    let ?g3 = "?g'\<lparr>yy_buffers := [Some ?b3], yy_n_chars := length w, yytext_r := 0\<rparr>"
    have "yy_get_next_buffer malloc g ans = Some (Ret (EOB_ACT_LAST_MATCH, ?g3, ans'))"
      unfolding get' using 2 f by simp
    moreover have "holds ?g3 ?b3 [] w" using holdsD(1) [OF h] wf' 2 by (simp add: holds_def)
    moreover have "pending b ans = []" "eof" using 2 r(5,7) p by simp_all
    ultimately show thesis using 2 that(2) [of ?g3 ans' ?b3] by simp
  next
    case 3
    from filled_eof [OF single' r(2), of malloc] 3 obtain g3 b3 where
      "yy_buffer_filled malloc 0 ?g' = Ret (EOB_ACT_END_OF_FILE, g3)" "yy_single g3 b3" "yyextra_r g3 = yyextra_r ?g'"
      by auto
    moreover have "pending b ans = []" using 3 r(5) p by simp
    ultimately show thesis using 3 that(1) [of g3 ans' b3] get' by simp
  qed
qed


section \<open>The automaton on the buffer\<close>

text \<open>The states in which a token may still go on; 4 is that of a token that is one NUL.\<close>

definition matching :: "nat set" where
  "matching = {1, 4, 6, 9, 10, 11}"

lemma buffer_transitions:
  "map (\<lambda>s. yy_trans s 0) [1, 4, 6, 9, 10, 11] = replicate 6 3"
  "map (yy_trans 3) [0, 1, 2, 3, 4, 5, 6, 7] = replicate 8 13"
  "map (yy_trans 4) [1, 2, 3, 4, 5, 6, 7] = replicate 7 13"
  by code_simp+

lemma matching_NUL: "s \<in> matching \<Longrightarrow> yy_trans s 0 = 3"
  using buffer_transitions(1) by (auto simp: matching_def eval_nat_numeral)

lemma yy_class_range: "yy_class c \<in> {1, 2, 3, 4, 5, 6, 7}"
  unfolding yy_class_eq by (rule rule_class_cases(1))

lemma yy_ec_class: "yy_ec ! of_char c = (if c = NUL then 0 else yy_class c)"
  by (simp add: yy_class_def NUL_def) (simp add: yy_ec_def)

lemma yy_ec_range: "yy_ec ! of_char c \<in> {0, 1, 2, 3, 4, 5, 6, 7}"
  using yy_class_range [of c] by (auto simp: yy_ec_class)

lemma end_state: "yy_trans 3 (yy_ec ! of_char c) = 13"
proof -
  have "\<forall>k \<in> {0, 1, 2, 3, 4, 5, 6, 7}. yy_trans 3 k = 13"
    using buffer_transitions(2) by (simp add: eval_nat_numeral)
  then show ?thesis using yy_ec_range by blast
qed

lemma state_4: "yy_trans 4 (yy_class c) = 13"
proof -
  have "\<forall>k \<in> {1, 2, 3, 4, 5, 6, 7}. yy_trans 4 k = 13"
    using buffer_transitions(3) by (simp add: eval_nat_numeral)
  then show ?thesis using yy_class_range by blast
qed

lemma matching_closed:
  assumes "s \<in> matching" and "yy_base ! (yy_trans s (yy_class c)) \<noteq> 14"
  shows "yy_trans s (yy_class c) \<in> {6, 9, 10, 11}"
proof -
  have jam: "yy_base ! 4 = 14" "yy_base ! 5 = 14" "yy_base ! 7 = 14" "yy_base ! 8 = 14" "yy_base ! 12 = 14"
    "yy_base ! 13 = 14" by (simp_all add: yy_base_def)
  from assms(1) consider "s = 1" | "s = 4" | "s = 6" | "s = 9" | "s = 10" | "s = 11"
    by (auto simp: matching_def)
  then show ?thesis
  proof cases
    case 1
    with assms(2) jam show ?thesis by (auto simp: yy_class_eq yy_trans_start simp del: One_nat_def split: if_splits)
  next
    case 2
    with assms(2) jam show ?thesis by (simp add: state_4)
  qed (use assms(2) jam in \<open>auto simp: yy_class_eq yy_trans_packet split: if_splits\<close>)
qed

text \<open>Text without a NUL on which the automaton stops: the buffer and the stream give the same.\<close>

lemma buffer_stops:
  assumes "s \<in> matching" and "NUL \<notin> set v" and "\<not> inside_token v s"
  shows "yy_match_buffer (v @ x) s cp acc = Ret (yy_match (v @ y) s cp acc)"
  using assms
proof (induction v arbitrary: s cp acc)
  case (Cons c v)
  let ?s = "yy_trans s (yy_class c)"
  have c: "yy_ec ! of_char c = yy_class c" using Cons.prems(2) by (auto simp: yy_ec_class)
  show ?case
  proof (cases "yy_base ! ?s = 14")
    case True
    then show ?thesis by (simp add: c Let_def)
  next
    case False
    then have "\<not> inside_token v ?s" using Cons.prems(3) by (simp add: Let_def)
    moreover have "?s \<in> matching" using matching_closed [OF Cons.prems(1) False] by (auto simp: matching_def)
    ultimately show ?thesis using Cons.IH [of ?s] Cons.prems(2) False by (simp add: c Let_def)
  qed
qed simp

text \<open>Text without a NUL within which it does not stop, and the NUL behind: the end-of-buffer state.\<close>

lemma buffer_goes_on:
  assumes "s \<in> matching" and "NUL \<notin> set v" and "inside_token v s"
  shows "yy_match_buffer (v @ NUL # c # x) s cp acc = Ret (13, cp + length v + 2, 3, cp + length v + 1)"
  using assms
proof (induction v arbitrary: s cp acc)
  case Nil
  have "yy_ec ! of_char NUL = 0" by (simp add: yy_ec_class)
  then show ?case using matching_NUL [OF Nil.prems(1)]
    by (simp add: Let_def end_state) (simp add: yy_base_def yy_accept_def)
next
  case (Cons a v)
  let ?s = "yy_trans s (yy_class a)"
  have a: "yy_ec ! of_char a = yy_class a" using Cons.prems(2) by (auto simp: yy_ec_class)
  have s: "yy_base ! ?s \<noteq> 14" "inside_token v ?s" using Cons.prems(3) by (simp_all add: Let_def)
  then have "?s \<in> matching" using matching_closed [OF Cons.prems(1) s(1)] by (auto simp: matching_def)
  then show ?case using Cons.IH [of ?s] Cons.prems(2) s by (simp add: a Let_def)
qed

section \<open>Tokens anywhere in the buffer\<close>

lemma match_start_at:
  "yy_match (c # cs) 1 k acc =
     (if c = CHR 0x0A then (5, k + 1, acc) else if c = CHR ''$'' then yy_match cs 6 (k + 1) acc
      else if c = CHR ''+'' then (7, k + 1, acc) else if c = CHR ''-'' then (8, k + 1, acc) else (4, k + 1, acc))"
  by (simp only: yy_match.simps yy_class_eq yy_trans_start Let_def)
    (simp add: yy_accept_def yy_base_def)

lemma match_dollar_at:
  "yy_find_action (yy_match cs 6 k acc) =
     (case packet_end cs of Some n \<Rightarrow> (3, k + n) | None \<Rightarrow> (4, k))"
proof (cases cs)
  case Nil
  then show ?thesis by (simp add: yy_find_action_eq packet_end_Cons) (simp add: yy_accept_def)
next
  case (Cons d ds)
  have "yy_match (d # ds) 6 k acc = yy_match (d # ds) 9 k (6, k)"
    by (simp only: yy_match.simps yy_class_eq yy_trans_packet(1) Let_def)
      (simp add: yy_accept_def)
  moreover have "yy_accept ! 6 = 4" by (simp add: yy_accept_def)
  ultimately show ?thesis
    using match_packet [of "d # ds" k "(6, k)"] unfolding Cons
    by (simp del: yy_match.simps split: option.split)
qed

lemma token_at:
  assumes "x \<noteq> []"
  shows "yy_find_action (yy_match x 1 k acc) = (fst (rule_token x), k + snd (rule_token x))"
proof -
  obtain c cs where x: "x = c # cs" using assms by (cases x) auto
  have "yy_accept ! 4 = 4" "yy_accept ! 5 = 5" "yy_accept ! 7 = 1" "yy_accept ! 8 = 2"
    by (simp_all add: yy_accept_def)
  then show ?thesis unfolding x match_start_at
    by (simp add: match_dollar_at yy_find_action_eq del: yy_match.simps split: option.split)
qed

text \<open>The text \<open>p\<close> of a token that may go on, read from the start state: in a packet, nothing, or one NUL.\<close>

definition open_token :: "string \<Rightarrow> bool" where
  "open_token p \<longleftrightarrow> inside_token p 1 \<or> p = [NUL]"

lemma yy_previous_append:
  "yy_previous (p @ v) s k acc = (case yy_previous p s k acc of (s, acc) \<Rightarrow> yy_previous v s (k + length p) acc)"
  by (induction p arbitrary: s k acc) simp_all

lemma previous_state: "fst (yy_previous p s k acc) = fst (yy_previous p s k' acc')"
  by (induction p arbitrary: s k acc k' acc') (simp, metis yy_previous.simps(2))

lemma inside_append:
  "inside_token (p @ v) s \<longleftrightarrow> inside_token p s \<and> inside_token v (fst (yy_previous p s k acc))"
  by (induction p arbitrary: s k acc) (auto simp: Let_def)

lemma inside_state:
  "inside_token p s \<Longrightarrow> s \<in> matching \<Longrightarrow> fst (yy_previous p s k acc) \<in> matching"
proof (induction p arbitrary: s k acc)
  case (Cons c p)
  let ?s = "yy_trans s (yy_class c)"
  have "yy_base ! ?s \<noteq> 14" "inside_token p ?s" using Cons.prems(1) by (simp_all add: Let_def)
  then show ?case using Cons.IH matching_closed [OF Cons.prems(2)] by (auto simp: matching_def)
qed simp

lemma NUL_previous: "yy_previous [NUL] 1 k acc = (4, acc)"
  by (simp only: yy_previous.simps yy_class_eq yy_trans_start) (simp add: NUL_def yy_accept_def)

lemma open_state: "open_token p \<Longrightarrow> fst (yy_previous p 1 k acc) \<in> matching"
  using inside_state [of p 1 k acc] by (auto simp: open_token_def NUL_previous matching_def simp del: One_nat_def yy_previous.simps)

lemma open_match:
  assumes "open_token p" and "yy_previous p 1 k acc = (s, acc')"
  shows "yy_find_action (yy_match y s (k + length p) acc') = yy_find_action (yy_match (p @ y) 1 k acc)"
proof (cases "p = [NUL]")
  case True
  then have s: "s = 4" "acc' = acc" using assms(2) by (simp_all add: NUL_previous del: One_nat_def yy_previous.simps)
  have a: "yy_accept ! 4 = 4" "yy_accept ! 13 = 0" "yy_base ! 13 = 14" by (simp_all add: yy_accept_def yy_base_def)
  have "yy_match (NUL # y) 1 k acc = (4, k + 1, acc)" by (simp only: match_start_at) (simp add: NUL_def)
  moreover have "yy_find_action (yy_match y 4 (k + 1) acc) = (4, k + 1)"
    by (cases y) (simp_all add: yy_find_action_eq Let_def state_4 a)
  ultimately show ?thesis using True s by (simp add: yy_find_action_eq a)
next
  case False
  then have "inside_token p 1" using assms(1) by (simp add: open_token_def)
  from yy_match_previous [OF this] show ?thesis by (simp add: assms(2) del: One_nat_def)
qed


lemma open_append:
  assumes "open_token p" and "inside_token v (fst (yy_previous p 1 k acc))"
  shows "open_token (p @ v)"
proof (cases "p = [NUL]")
  case True
  then have "inside_token v 4" using assms(2) by (simp add: NUL_previous del: One_nat_def yy_previous.simps)
  then have "v = []" by (cases v) (simp_all add: Let_def state_4 yy_base_def)
  with True show ?thesis by (simp add: open_token_def)
next
  case False
  with assms(1) have "inside_token p 1" by (simp add: open_token_def)
  with assms(2) have "inside_token (p @ v) 1" unfolding inside_append [of p v 1 k acc] by blast
  then show ?thesis unfolding open_token_def by blast
qed

lemma previous_not_start: "inside_token p s \<Longrightarrow> s \<in> matching \<Longrightarrow> fst (yy_previous p s k acc) = 1 \<Longrightarrow> p = []"
proof (induction p arbitrary: s k acc rule: rev_induct)
  case (snoc c p)
  let ?s = "fst (yy_previous p s k acc)"
  have inside: "inside_token p s" and jam: "inside_token [c] ?s"
    using snoc.prems(1) unfolding inside_append [of p "[c]" s k acc] by blast+
  from inside snoc.prems(2) have "?s \<in> matching" by (rule inside_state)
  moreover have "yy_base ! (yy_trans ?s (yy_class c)) \<noteq> 14" using jam by (simp add: Let_def)
  ultimately have "yy_trans ?s (yy_class c) \<in> {6, 9, 10, 11}" by (rule matching_closed)
  moreover have "fst (yy_previous (p @ [c]) s k acc) = yy_trans ?s (yy_class c)"
    by (simp add: yy_previous_append case_prod_beta)
  ultimately show ?case using snoc.prems(3) by auto
qed simp

lemma open_start: "open_token p \<Longrightarrow> fst (yy_previous p 1 k acc) = 1 \<Longrightarrow> p = []"
proof -
  assume o: "open_token p" and s: "fst (yy_previous p 1 k acc) = 1"
  have "p \<noteq> [NUL]"
  proof
    assume "p = [NUL]"
    with s show False by (simp add: NUL_previous del: One_nat_def yy_previous.simps)
  qed
  with o have "inside_token p 1" by (simp add: open_token_def)
  moreover have "1 \<in> matching" by (simp add: matching_def)
  ultimately show "p = []" using s by (rule previous_not_start)
qed

lemma NUL_from:
  "s \<in> matching \<Longrightarrow> yy_trans s (yy_class NUL) = (if s = 1 then 4 else if s = 6 \<or> s = 9 then 9 else 13)"
proof -
  have n: "NUL \<noteq> CHR ''#''" "NUL \<noteq> CHR ''$''" "\<not> is_hex NUL" "NUL \<noteq> CHR 0x0A" "NUL \<noteq> CHR ''+''" "NUL \<noteq> CHR ''-''"
    by (simp_all add: NUL_def is_hex_def hex_value_def)
  have "yy_trans 1 (yy_class NUL) = 4" unfolding yy_class_eq yy_trans_start using n by simp
  then show "s \<in> matching \<Longrightarrow> ?thesis" using n state_4 [of NUL]
    by (auto simp: matching_def yy_class_eq yy_trans_packet)
qed

section \<open>The relation at the labels\<close>

text \<open>The count of characters, which a new buffer has itself.\<close>

definition counted :: "yyguts \<Rightarrow> yy_buffer_state \<Rightarrow> nat \<Rightarrow> bool" where
  "counted g b n \<longleftrightarrow> (if yy_buffer_status b = YY_BUFFER_NEW then yy_b_n_chars b = n else yy_n_chars g = n)"

definition last_accepted :: "yyguts \<Rightarrow> nat \<times> nat" where
  "last_accepted g = (yy_last_accepting_state g, yy_last_accepting_cpos g)"

definition at_token :: "bool \<Rightarrow> yyguts \<Rightarrow> read_answer list \<Rightarrow> string \<Rightarrow> bool" where
  "at_token eof g ans inp \<longleftrightarrow> (\<exists>b pre u junk. yy_single g b \<and> yy_wf_buf b \<and>
     (yy_ch_buf b)[yy_c_buf_p g := yy_hold_char g] = pre @ u @ NUL # NUL # junk \<and>
     yy_c_buf_p g = length pre \<and> counted g b (length pre + length u) \<and>
     inp = u @ pending b ans \<and> ends eof b ans \<and> yyg_start g = 1)"

text \<open>\<open>m\<close> decreases with every NUL that is consumed and every refill.\<close>

definition at_match :: "bool \<Rightarrow> nat \<Rightarrow> yyguts \<Rightarrow> read_answer list \<Rightarrow> nat \<Rightarrow> nat \<Rightarrow> nat \<Rightarrow> string \<Rightarrow> bool" where
  "at_match eof m g ans s cp bp inp \<longleftrightarrow> (\<exists>b pre p u acc. holds g b pre (p @ u) \<and> bp = length pre \<and>
     cp = bp + length p \<and> counted g b (length pre + length (p @ u)) \<and> inp = p @ u @ pending b ans \<and>
     ends eof b ans \<and> yyg_start g = 1 \<and> open_token p \<and> yy_previous p 1 bp acc = (s, last_accepted g) \<and>
     m = 2 * length (pending b ans) + length u)"

definition at_find :: "bool \<Rightarrow> yyguts \<Rightarrow> read_answer list \<Rightarrow> nat \<Rightarrow> nat \<Rightarrow> nat \<Rightarrow> string \<Rightarrow> bool" where
  "at_find eof g ans s cp bp inp \<longleftrightarrow> (\<exists>b pre w. holds g b pre w \<and> bp = length pre \<and>
     counted g b (length pre + length w) \<and> inp = w @ pending b ans \<and> ends eof b ans \<and> yyg_start g = 1 \<and>
     inp \<noteq> [] \<and> snd (rule_token inp) \<le> length w \<and>
     yy_find_action (s, cp, last_accepted g) = (fst (rule_token inp), bp + snd (rule_token inp)))"

lemma reaches_end_of_buffer:
  "yy_end_of_buffer malloc cp bp g ans = Some (Ret (l, g', ans')) \<Longrightarrow>
     yy_reaches malloc be junk (Do_action YY_END_OF_BUFFER cp bp) g ans l g' ans'"
  by (intro reaches_step) (simp add: yy_step_def yy_at_action_def YY_END_OF_BUFFER_def)

lemma previous_state_eq:
  assumes "holds g b pre w" and "yytext_r g = length pre" and "yyg_start g = 1"
    and "yy_c_buf_p g = length pre + k" and "k \<le> length w"
    and "yy_previous (take k w) 1 (length pre) (last_accepted g) = (s, last_s, last_cp)"
  shows "yy_previous_state g =
    Ret (s, g\<lparr>yy_last_accepting_state := last_s, yy_last_accepting_cpos := last_cp\<rparr>)"
  using assms by (auto simp: yy_previous_state_def holds_def last_accepted_def simp del: cbind_eq_Ret)

lemma token_step:
  assumes "at_token eof g ans inp"
  obtains g' m where "at_match eof m g' ans 1 (yy_c_buf_p g) (yy_c_buf_p g) inp" "yyextra_r g' = yyextra_r g"
    "\<And>malloc be junk. yy_reaches malloc be junk Next_token g ans
       (Goto_match 1 (yy_c_buf_p g) (yy_c_buf_p g)) g' ans"
proof -
  from assms obtain b pre u junk where b: "yy_single g b" "yy_wf_buf b"
    "(yy_ch_buf b)[yy_c_buf_p g := yy_hold_char g] = pre @ u @ NUL # NUL # junk"
    "yy_c_buf_p g = length pre" "counted g b (length pre + length u)"
    "inp = u @ pending b ans" "ends eof b ans" "yyg_start g = 1" unfolding at_token_def by blast
  let ?b = "b\<lparr>yy_ch_buf := pre @ u @ NUL # NUL # junk\<rparr>"
  let ?g = "g\<lparr>yy_buffers := [Some ?b]\<rparr>"
  have len: "length (yy_ch_buf b) = length (pre @ u @ NUL # NUL # junk)"
    unfolding b(3) [symmetric] by simp
  have "yy_wf_buf ?b" using b(2) len by (simp add: yy_wf_buf_def)
  then have "at_match eof (2 * length (pending b ans) + length u) ?g ans 1 (length pre) (length pre) inp"
    unfolding at_match_def using b
    by (intro exI [of _ ?b] exI [of _ pre] exI [of _ "[]"] exI [of _ u] exI [of _ "last_accepted g"])
      (simp add: holds_def counted_def pending_def ends_def open_token_def last_accepted_def)
  moreover have "yy_next_token g = Ret (Goto_match 1 (length pre) (length pre), ?g)"
    using b len by (simp add: yy_next_token_def Let_def del: cbind_eq_Ret)
  then have "yy_reaches malloc be jk Next_token g ans (Goto_match 1 (length pre) (length pre)) ?g ans"
    for malloc be jk by (intro reaches_step) (simp add: yy_step_def)
  ultimately show thesis using that b(4) by simp
qed


lemma find_prefix:
  assumes "\<And>y. yy_find_action (yy_match (x @ y) 1 k acc) = a" and "x \<noteq> []"
  shows "a = (fst (rule_token (x @ z)), k + snd (rule_token (x @ z))) \<and> snd (rule_token (x @ z)) \<le> length x"
proof -
  have "a = (fst (rule_token x), k + snd (rule_token x))"
    using token_at [OF assms(2), of k acc] assms(1) [of "[]"] by simp
  moreover have "a = (fst (rule_token (x @ z)), k + snd (rule_token (x @ z)))"
    using token_at [of "x @ z" k acc] assms by simp
  moreover have "snd (rule_token x) \<le> length x"
    using rule_token_bounds [of "hd x" "tl x"] assms(2) by simp
  ultimately show ?thesis by simp
qed

text \<open>The automaton stops within the text that the buffer has before the next NUL.\<close>

lemma match_stops:
  assumes h: "holds g b pre (p @ v @ y)" and c: "counted g b (length pre + length (p @ v @ y))"
    and e: "ends eof b ans" and start: "yyg_start g = 1" and o: "open_token p"
    and prev: "yy_previous p 1 (length pre) acc = (s, last_accepted g)"
    and v: "NUL \<notin> set v" and stop: "\<not> inside_token v s"
  obtains g' s' cp' where "at_find eof g' ans s' cp' (length pre) (p @ v @ y @ pending b ans)"
    "yyextra_r g' = yyextra_r g"
    "\<And>malloc be junk. yy_reaches malloc be junk (Goto_match s (length pre + length p) (length pre)) g ans
       (Goto_find_action s' cp' (length pre)) g' ans"
proof -
  let ?cp = "length pre + length p"
  obtain junk where buf: "yy_ch_buf b = pre @ (p @ v @ y) @ NUL # NUL # junk" using h by (auto simp: holds_def)
  have s: "s \<in> matching" using open_state [OF o, of "length pre" acc] prev by simp
  obtain s' cp' ls lc where m: "yy_match v s ?cp (last_accepted g) = (s', cp', ls, lc)"
    by (metis prod_cases4)
  have same: "yy_match (v @ z) s ?cp (last_accepted g) = (s', cp', ls, lc)" for z
    using buffer_stops [OF s v stop, of "[]" ?cp "last_accepted g" z]
      buffer_stops [OF s v stop, of "[]" ?cp "last_accepted g" "[]"] m by simp
  let ?g = "g\<lparr>yy_last_accepting_state := ls, yy_last_accepting_cpos := lc\<rparr>"
  have tail: "drop ?cp (yy_ch_buf b) = v @ y @ NUL # NUL # junk" unfolding buf by simp
  have "yy_at_match s ?cp (length pre) g = Ret (Goto_find_action s' cp' (length pre), ?g)"
    using holdsD(1) [OF h] buffer_stops [OF s v stop, of "y @ NUL # NUL # junk" ?cp "last_accepted g" "[]"] m
    by (simp add: yy_at_match_def tail last_accepted_def del: cbind_eq_Ret)
  then have "yy_reaches malloc be jk (Goto_match s ?cp (length pre)) g ans
      (Goto_find_action s' cp' (length pre)) ?g ans" for malloc be jk
    by (intro reaches_step) (simp add: yy_step_def)
  moreover have "yy_find_action (yy_match ((p @ v) @ z) 1 (length pre) acc) = yy_find_action (s', cp', ls, lc)" for z
    using open_match [OF o prev, of "v @ z"] same [of z] by simp
  moreover have "p @ v \<noteq> []" using stop by auto
  ultimately have tok: "yy_find_action (s', cp', ls, lc) =
      (fst (rule_token ((p @ v) @ y @ pending b ans)), length pre + snd (rule_token ((p @ v) @ y @ pending b ans)))"
    "snd (rule_token ((p @ v) @ y @ pending b ans)) \<le> length (p @ v)"
    using find_prefix by blast+
  have "at_find eof ?g ans s' cp' (length pre) (p @ v @ y @ pending b ans)"
    unfolding at_find_def
  proof (intro exI conjI)
    show "holds ?g b pre (p @ v @ y)" using h by (simp add: holds_def)
    show "counted ?g b (length pre + length (p @ v @ y))" using c by (simp add: counted_def)
    show "p @ v @ y @ pending b ans \<noteq> []" using \<open>p @ v \<noteq> []\<close> by auto
    show "yy_find_action (s', cp', last_accepted ?g) = (fst (rule_token (p @ v @ y @ pending b ans)),
        length pre + snd (rule_token (p @ v @ y @ pending b ans)))"
      using tok(1) by (simp add: last_accepted_def)
  qed (use tok(2) e start in simp_all)
  with \<open>\<And>malloc be jk. yy_reaches malloc be jk (Goto_match s ?cp (length pre)) g ans
      (Goto_find_action s' cp' (length pre)) ?g ans\<close> show thesis
    using that by simp
qed

text \<open>
  It does not stop: the NUL behind the text leads to the action of the end of the buffer, where the
  scanner decides whether the NUL is one of the input.
\<close>

lemma match_to_NUL:
  assumes h: "holds g b pre (p @ v @ y)" and c: "counted g b (length pre + length (p @ v @ y))"
    and e: "ends eof b ans" and start: "yyg_start g = 1" and s: "s \<in> matching"
    and v: "NUL \<notin> set v" and inside: "inside_token v s" and y: "y = [] \<or> hd y = NUL"
  obtains g' b' cp where "holds g' b' pre (p @ v @ y)" "pending b' ans = pending b ans" "ends eof b' ans"
    "yy_buffer_status b' \<noteq> YY_BUFFER_NEW" "yyg_start g' = 1" "yyextra_r g' = yyextra_r g"
    "yytext_r g' = length pre" "yy_n_chars g' = length pre + length (p @ v @ y)"
    "yy_c_buf_p g' = length pre + length (p @ v) + 1"
    "\<And>malloc be junk l g'' ans''.
       yy_NUL_or_end malloc (length (p @ v)) cp (length pre) g' ans = Some (Ret (l, g'', ans'')) \<Longrightarrow>
       yy_reaches malloc be junk (Goto_match s (length pre + length p) (length pre)) g ans l g'' ans''"
proof -
  let ?bp = "length pre" and ?cp = "length pre + length p"
  let ?i = "?cp + length v + 1"
  obtain junk where buf: "yy_ch_buf b = pre @ (p @ v @ y) @ NUL # NUL # junk" using h by (auto simp: holds_def)
  have single: "yy_single g b" using holdsD(1) [OF h] .
  obtain c' x where tail: "drop ?cp (yy_ch_buf b) = v @ NUL # c' # x"
  proof (cases y)
    case Nil
    then show thesis using that [of NUL junk] by (simp add: buf)
  next
    case (Cons a z)
    then have "a = NUL" using y by simp
    then show thesis using Cons that [of "hd (z @ [NUL])" "tl (z @ NUL # NUL # junk)"]
      by (cases z) (simp_all add: buf)
  qed
  have i: "?i < length (yy_ch_buf b)" unfolding buf using y by (cases y) auto
  let ?g1 = "g\<lparr>yy_last_accepting_state := 3, yy_last_accepting_cpos := ?i\<rparr>"
  have "yy_at_match s ?cp ?bp g = Ret (Goto_find_action 13 (?cp + length v + 2) ?bp, ?g1)"
    using single buffer_goes_on [OF s v inside, of c' x ?cp "last_accepted g"]
    by (simp add: yy_at_match_def tail last_accepted_def del: cbind_eq_Ret)
  then have g1: "yy_reaches malloc be jk (Goto_match s ?cp ?bp) g ans
      (Goto_find_action 13 (?cp + length v + 2) ?bp) ?g1 ans" for malloc be jk
    by (intro reaches_step) (simp add: yy_step_def)
  let ?b2 = "b\<lparr>yy_ch_buf := (yy_ch_buf b)[?i := NUL]\<rparr>"
  let ?g2 = "?g1\<lparr>yytext_r := ?bp, yyleng_r := ?i - ?bp, yy_hold_char := yy_ch_buf b ! ?i, yy_c_buf_p := ?i,
      yy_buffers := [Some ?b2]\<rparr>"
  have "yy_accept ! 13 = 0" "yy_accept ! 3 = YY_END_OF_BUFFER" by (simp_all add: yy_accept_def YY_END_OF_BUFFER_def)
  then have "yy_at_find_action 13 (?cp + length v + 2) ?bp ?g1 = Ret (Do_action YY_END_OF_BUFFER ?i ?bp, ?g2)"
    using single i by (simp add: yy_at_find_action_def YY_DO_BEFORE_ACTION_def del: cbind_eq_Ret)
  then have "yy_reaches malloc be jk (Goto_find_action 13 (?cp + length v + 2) ?bp) ?g1 ans
      (Do_action YY_END_OF_BUFFER ?i ?bp) ?g2 ans" for malloc be jk
    by (intro reaches_step) (simp add: yy_step_def)
  from reaches_trans [OF g1 this] have g2: "yy_reaches malloc be jk (Goto_match s ?cp ?bp) g ans
      (Do_action YY_END_OF_BUFFER ?i ?bp) ?g2 ans" for malloc be jk .
  define b3 where "b3 = (if yy_buffer_status b = YY_BUFFER_NEW
    then b\<lparr>yy_input_file := yyin_r g, yy_buffer_status := YY_BUFFER_NORMAL\<rparr> else b)"
  define g3 where "g3 = ?g2\<lparr>yy_buffers := [Some b3],
    yy_n_chars := length pre + length (p @ v @ y)\<rparr>"
  have single2: "yy_single ?g2 ?b2" using single by simp
  have restore: "b\<lparr>yy_ch_buf := ((yy_ch_buf b)[?i := NUL])[?i := yy_ch_buf b ! ?i]\<rparr> = b" by simp
  have new: "yy_new_source (?g2\<lparr>yy_buffers := [Some b]\<rparr>) = Ret g3"
    using single c unfolding yy_new_source_def g3_def b3_def counted_def
    by (simp del: cbind_eq_Ret)
  have eob: "yy_end_of_buffer malloc ?i ?bp ?g2 ans = yy_NUL_or_end malloc (length (p @ v)) ?i ?bp g3 ans" for malloc
    unfolding yy_end_of_buffer_def Let_def
    using single i new restore by (simp del: cbind_eq_Ret)
  have g3: "yy_reaches malloc be jk (Goto_match s ?cp ?bp) g ans l g'' ans''"
    if "yy_NUL_or_end malloc (length (p @ v)) ?i ?bp g3 ans = Some (Ret (l, g'', ans''))" for malloc be jk l g'' ans''
    by (rule reaches_trans [OF g2 reaches_end_of_buffer]) (unfold eob, rule that)
  show thesis
  proof (rule that [OF _ _ _ _ _ _ _ _ _ g3])
    show "holds g3 b3 pre (p @ v @ y)" using h single buf by (simp add: holds_def g3_def b3_def yy_wf_buf_def)
    show "pending b3 ans = pending b ans" "ends eof b3 ans" using e by (auto simp: pending_def ends_def b3_def)
    show "yy_buffer_status b3 \<noteq> YY_BUFFER_NEW" by (simp add: b3_def)
  qed (simp_all add: g3_def start)
qed


text \<open>The NUL is one of the input: the match goes on behind it, or the token ends before it.\<close>

lemma NUL_of_input:
  assumes h: "holds g b pre (q @ NUL # y)" and e: "ends eof b ans" and start: "yyg_start g = 1"
    and c: "counted g b (length pre + length (q @ NUL # y))"
    and o: "open_token q" and ptr: "yytext_r g = length pre" "yy_c_buf_p g = length pre + length q + 1"
    and n: "yy_n_chars g = length pre + length (q @ NUL # y)"
  obtains m g' s where "yy_NUL_or_end malloc (length q) cp (length pre) g ans =
      Some (Ret (Goto_match s (length pre + length q + 1) (length pre), g', ans))"
    "at_match eof m g' ans s (length pre + length q + 1) (length pre) (q @ NUL # y @ pending b ans)"
    "m = 2 * length (pending b ans) + length y" "yyextra_r g' = yyextra_r g"
  | g' s cp' where "yy_NUL_or_end malloc (length q) cp (length pre) g ans =
      Some (Ret (Goto_find_action s cp' (length pre), g', ans))"
    "at_find eof g' ans s cp' (length pre) (q @ NUL # y @ pending b ans)" "yyextra_r g' = yyextra_r g"
proof -
  let ?bp = "length pre" and ?q = "length pre + length q"
  obtain s ls lc where prev: "yy_previous q 1 ?bp (last_accepted g) = (s, ls, lc)"
    by (metis prod_cases3)
  have s: "s \<in> matching" using open_state [OF o, of ?bp "last_accepted g"] prev by simp
  let ?acc = "if yy_accept ! s \<noteq> 0 then (s, ?q) else (ls, lc)"
  let ?g1 = "g\<lparr>yy_c_buf_p := ?q\<rparr>"
  let ?g2 = "?g1\<lparr>yy_last_accepting_state := fst ?acc, yy_last_accepting_cpos := snd ?acc\<rparr>"
  have h1: "holds ?g1 b pre (q @ NUL # y)" using h by (simp add: holds_def)
  have "yy_previous (take (length q) (q @ NUL # y)) 1 ?bp (last_accepted ?g1) = (s, ls, lc)"
    using prev by (simp add: last_accepted_def)
  then have st: "yy_previous_state ?g1 = Ret (s, ?g1\<lparr>yy_last_accepting_state := ls, yy_last_accepting_cpos := lc\<rparr>)"
    using previous_state_eq [OF h1, of "length q" s ls lc] ptr(1) start by simp
  let ?next = "yy_trans s (yy_class NUL)"
  have was: "yy_was_NUL (length q) g =
      (if ?next = 13 then Ret (Goto_find_action s ?q ?bp, ?g2)
       else if ?next = 0 then Ret (Goto_find_action s ?q ?bp, ?g2)
       else Ret (Goto_match ?next (?q + 1) ?bp, ?g2\<lparr>yy_c_buf_p := ?q + 1\<rparr>))"
    using ptr by (simp add: yy_was_NUL_def st NUL_trans Let_def del: cbind_eq_Ret)
  have end_or: "yy_NUL_or_end malloc (length q) cp ?bp g ans =
      Some (cbind (yy_was_NUL (length q) g) (\<lambda>(l, g). Ret (l, g, ans)))"
    using ptr n by (simp add: yy_NUL_or_end_def)
  have last: "last_accepted ?g2 = ?acc" by (simp add: last_accepted_def)
  note next_s = NUL_from [OF s]
  show thesis
  proof (cases "?next = 13")
    case True
    have jam: "yy_base ! 13 = 14" "yy_accept ! 13 = 0" by (simp_all add: yy_base_def yy_accept_def)
    have "yy_find_action (yy_match ((q @ [NUL]) @ z) 1 ?bp (last_accepted g)) = yy_find_action (s, ?q, ?acc)" for z
      using open_match [OF o prev, of "NUL # z"] by (cases "yy_accept ! s = 0") (simp_all add: True jam Let_def yy_find_action_eq)
    from find_prefix [OF this, of "y @ pending b ans"]
    have tok: "yy_find_action (s, ?q, ?acc) = (fst (rule_token (q @ NUL # y @ pending b ans)),
          ?bp + snd (rule_token (q @ NUL # y @ pending b ans)))"
      "snd (rule_token (q @ NUL # y @ pending b ans)) \<le> length q + 1" by simp_all
    have "at_find eof ?g2 ans s ?q ?bp (q @ NUL # y @ pending b ans)" unfolding at_find_def
    proof (intro exI conjI)
      show "holds ?g2 b pre (q @ NUL # y)" using h by (simp add: holds_def)
      show "counted ?g2 b (?bp + length (q @ NUL # y))" using c by (simp add: counted_def)
      show "yy_find_action (s, ?q, last_accepted ?g2) = (fst (rule_token (q @ NUL # y @ pending b ans)),
          ?bp + snd (rule_token (q @ NUL # y @ pending b ans)))" unfolding last using tok(1) .
    qed (use tok(2) e start in simp_all)
    then show thesis using that(2) end_or was True by simp
  next
    case False
    with next_s have cases: "s = 1 \<and> ?next = 4 \<or> s \<in> {6, 9} \<and> ?next = 9" by (auto split: if_splits)
    have step: "yy_previous (q @ [NUL]) 1 ?bp (last_accepted g) = (?next, ?acc)"
      by (simp add: yy_previous_append prev del: One_nat_def)
    have o': "open_token (q @ [NUL])"
    proof (cases "s = 1")
      case True
      then have "q = []" using open_start [OF o, of ?bp "last_accepted g"] prev by simp
      then show ?thesis by (simp add: open_token_def)
    next
      case False
      with cases have "?next = 9" by blast
      then have "inside_token [NUL] s" by (simp add: yy_base_def)
      then show ?thesis using open_append [OF o, of "[NUL]" ?bp "last_accepted g"] prev by simp
    qed
    let ?g3 = "?g2\<lparr>yy_c_buf_p := ?q + 1\<rparr>"
    have "at_match eof (2 * length (pending b ans) + length y) ?g3 ans ?next (?q + 1) ?bp (q @ NUL # y @ pending b ans)"
      unfolding at_match_def
    proof (intro exI conjI)
      show "holds ?g3 b pre ((q @ [NUL]) @ y)" using h by (simp add: holds_def)
      show "counted ?g3 b (?bp + length ((q @ [NUL]) @ y))" using c by (simp add: counted_def)
      show "yy_previous (q @ [NUL]) 1 ?bp (last_accepted g) = (?next, last_accepted ?g3)"
        unfolding step by (simp add: last_accepted_def)
    qed (use o' e start in simp_all)
    moreover have "?next \<noteq> 0" using cases by auto
    ultimately show thesis using that(1) end_or was False by simp
  qed
qed

text \<open>The end of the buffer: a refill, the last match of the input, or its end.\<close>

lemma end_of_input:
  assumes malloc: "malloc_total malloc" and h: "holds g b pre q" and e: "ends eof b ans" and start: "yyg_start g = 1"
    and wait: "eof \<or> pending b ans \<noteq> []"
    and new: "yy_buffer_status b \<noteq> YY_BUFFER_NEW" and short: "length q + 1 < 2 ^ 30"
    and o: "open_token q" and ptr: "yytext_r g = length pre" "yy_c_buf_p g = length pre + length q + 1"
    and n: "yy_n_chars g = length pre + length q"
  obtains m g' ans' s cp' where "yy_NUL_or_end malloc (length q) cp (length pre) g ans =
      Some (Ret (Goto_match s cp' 0, g', ans'))"
    "at_match eof m g' ans' s cp' 0 (q @ pending b ans)" "m < 2 * length (pending b ans)" "yyextra_r g' = yyextra_r g"
  | g' ans' s cp' where "yy_NUL_or_end malloc (length q) cp (length pre) g ans =
      Some (Ret (Goto_find_action s cp' 0, g', ans'))"
    "at_find eof g' ans' s cp' 0 (q @ pending b ans)" "yyextra_r g' = yyextra_r g"
  | g' b' ans' where "yy_NUL_or_end malloc (length q) cp (length pre) g ans =
      Some (Ret (Do_action YY_STATE_EOF_INITIAL cp (length pre), g', ans'))"
    "q @ pending b ans = []" "yy_single g' b'" "yyextra_r g' = yyextra_r g"
proof -
  have past: "\<not> yy_c_buf_p g \<le> yy_n_chars g" using ptr n by simp
  show thesis
  proof (rule get_next_buffer_cases [OF malloc h e wait short new ptr(1) n ptr(2)])
    fix g' b' ans'
    assume "q = []" "pending b ans = []" "yy_single g' b'" "yyextra_r g' = yyextra_r g"
      "yy_get_next_buffer malloc g ans = Some (Ret (EOB_ACT_END_OF_FILE, g', ans'))"
    then show thesis using past that(3) [of _ ans' b'] by (simp add: yy_NUL_or_end_def Let_def)
  next
    fix g' b' ans'
    assume w: "q \<noteq> []" and p: "pending b ans = []" and eof: "eof" and h': "holds g' b' [] q"
      and st: "yy_buffer_status b' = YY_BUFFER_EOF_PENDING"
      and g': "yy_n_chars g' = length q" "yytext_r g' = 0" "yyextra_r g' = yyextra_r g" "yyg_start g' = yyg_start g"
      and get: "yy_get_next_buffer malloc g ans = Some (Ret (EOB_ACT_LAST_MATCH, g', ans'))"
    let ?g1 = "g'\<lparr>yy_c_buf_p := length q\<rparr>"
    obtain s ls lc where prev: "yy_previous q 1 0 (last_accepted g') = (s, ls, lc)"
      by (metis prod_cases3)
    let ?g2 = "?g1\<lparr>yy_last_accepting_state := ls, yy_last_accepting_cpos := lc\<rparr>"
    have h1: "holds ?g1 b' [] q" using h' by (simp add: holds_def)
    have "yy_previous_state ?g1 = Ret (s, ?g2)"
      using previous_state_eq [OF h1, of "length q" s ls lc] prev g' start by (simp add: last_accepted_def)
    then have or: "yy_NUL_or_end malloc (length q) cp (length pre) g ans =
        Some (Ret (Goto_find_action s (length q) 0, ?g2, ans'))"
      using past get g' by (simp add: yy_NUL_or_end_def Let_def del: cbind_eq_Ret)
    have tok: "yy_find_action (s, length q, ls, lc) = (fst (rule_token q), snd (rule_token q))"
      using open_match [OF o prev, of "[]"] token_at [OF w, of 0 "last_accepted g'"] by simp
    have "at_find eof ?g2 ans' s (length q) 0 (q @ pending b ans)" unfolding at_find_def
    proof (intro exI conjI)
      show "holds ?g2 b' [] q" using h' by (simp add: holds_def)
      show "counted ?g2 b' (length [] + length q)" using g' st by (simp add: counted_def)
      show "q @ pending b ans = q @ pending b' ans'" using p st by (simp add: pending_def)
      show "ends eof b' ans'" using st eof by (simp add: ends_def)
      show "snd (rule_token (q @ pending b ans)) \<le> length q"
        using rule_token_bounds [of "hd q" "tl q"] w p by simp
      show "yy_find_action (s, length q, last_accepted ?g2) =
          (fst (rule_token (q @ pending b ans)), 0 + snd (rule_token (q @ pending b ans)))"
        using tok p by (simp add: last_accepted_def)
    qed (use w g' start in simp_all)
    with or g' show thesis using that(2) by simp
  next
    fix g' b' ans' cs
    assume cs: "cs \<noteq> []" and p: "pending b ans = cs @ pending b' ans'" and h': "holds g' b' [] (q @ cs)"
      and st: "yy_buffer_status b' = yy_buffer_status b" and e': "ends eof b' ans'"
      and g': "yy_n_chars g' = length (q @ cs)" "yytext_r g' = 0" "yyextra_r g' = yyextra_r g" "yyg_start g' = yyg_start g"
      and get: "yy_get_next_buffer malloc g ans = Some (Ret (EOB_ACT_CONTINUE_SCAN, g', ans'))"
    let ?g1 = "g'\<lparr>yy_c_buf_p := length q\<rparr>"
    obtain s ls lc where prev: "yy_previous q 1 0 (last_accepted g') = (s, ls, lc)"
      by (metis prod_cases3)
    let ?g2 = "?g1\<lparr>yy_last_accepting_state := ls, yy_last_accepting_cpos := lc\<rparr>"
    have h1: "holds ?g1 b' [] (q @ cs)" using h' by (simp add: holds_def)
    have "yy_previous_state ?g1 = Ret (s, ?g2)"
      using previous_state_eq [OF h1, of "length q" s ls lc] prev g' start by (simp add: last_accepted_def)
    then have or: "yy_NUL_or_end malloc (length q) cp (length pre) g ans =
        Some (Ret (Goto_match s (length q) 0, ?g2, ans'))"
      using past get g' by (simp add: yy_NUL_or_end_def Let_def del: cbind_eq_Ret)
    have "at_match eof (2 * length (pending b' ans') + length cs) ?g2 ans' s (length q) 0 (q @ pending b ans)"
      unfolding at_match_def
    proof (intro exI conjI)
      show "holds ?g2 b' [] (q @ cs)" using h' by (simp add: holds_def)
      show "counted ?g2 b' (length [] + length (q @ cs))" using g' st new by (simp add: counted_def)
      show "yy_previous q 1 0 (last_accepted g') = (s, last_accepted ?g2)"
        using prev by (simp add: last_accepted_def)
    qed (use o e' g' start p in simp_all)
    moreover have "2 * length (pending b' ans') + length cs < 2 * length (pending b ans)"
      using p cs by simp
    ultimately show thesis using or g' that(1) by simp
  qed
qed


text \<open>
  The match comes to the end of a token, or to the end of the input, however often the buffer has to be filled
  on the way.
\<close>

lemma match_scan:
  assumes malloc: "malloc_total malloc" and "length inp + 1 < 2 ^ 30" and "at_match eof m g ans s cp bp inp"
  shows "(\<exists>g' ans' s' cp' bp'. at_find eof g' ans' s' cp' bp' inp \<and> yyextra_r g' = yyextra_r g \<and>
      yy_reaches malloc be junk (Goto_match s cp bp) g ans (Goto_find_action s' cp' bp') g' ans') \<or>
    (inp = [] \<and> (\<exists>g' ans' b' cp' bp'. yy_single g' b' \<and> yyextra_r g' = yyextra_r g \<and>
      yy_reaches malloc be junk (Goto_match s cp bp) g ans (Do_action YY_STATE_EOF_INITIAL cp' bp') g' ans')) \<or>
    (\<not> eof \<and> open_token inp)"
  using assms(3)
proof (induction m arbitrary: g ans s cp bp rule: less_induct)
  case (less m)
  from less.prems obtain b pre p u acc where h: "holds g b pre (p @ u)" and bp: "bp = length pre"
    and cp: "cp = bp + length p" and c: "counted g b (length pre + length (p @ u))"
    and inp: "inp = p @ u @ pending b ans" and e: "ends eof b ans" and start: "yyg_start g = 1" and o: "open_token p"
    and prev: "yy_previous p 1 bp acc = (s, last_accepted g)" and m: "m = 2 * length (pending b ans) + length u"
    unfolding at_match_def by blast
  define v where "v = takeWhile (\<lambda>c. c \<noteq> NUL) u"
  define y where "y = dropWhile (\<lambda>c. c \<noteq> NUL) u"
  have u: "u = v @ y" unfolding v_def y_def by simp
  have v: "NUL \<notin> set v" unfolding v_def by (metis (mono_tags, lifting) set_takeWhileD)
  have y: "y = [] \<or> hd y = NUL" unfolding y_def using hd_dropWhile by blast
  have s: "s \<in> matching" using open_state [OF o, of bp acc] prev by simp
  note h = h [unfolded u] and c = c [unfolded u]
  show ?case
  proof (cases "inside_token v s")
    case False
    have i: "inp = p @ v @ y @ pending b ans" using inp u by simp
    show ?thesis
    proof (rule match_stops [OF h c e start o prev [unfolded bp] v False, folded i])
      fix g' s' cp'
      assume "at_find eof g' ans s' cp' (length pre) inp" "yyextra_r g' = yyextra_r g"
        and r: "\<And>malloc be junk. yy_reaches malloc be junk (Goto_match s (length pre + length p) (length pre)) g ans
          (Goto_find_action s' cp' (length pre)) g' ans"
      with r [of malloc be junk] show ?thesis unfolding cp bp by blast
    qed
  next
    case True
    obtain g1 b1 cp1 where g1: "holds g1 b1 pre (p @ v @ y)" "pending b1 ans = pending b ans" "ends eof b1 ans"
      "yy_buffer_status b1 \<noteq> YY_BUFFER_NEW" "yyg_start g1 = 1" "yyextra_r g1 = yyextra_r g"
      "yytext_r g1 = length pre" "yy_n_chars g1 = length pre + length (p @ v @ y)"
      "yy_c_buf_p g1 = length pre + length (p @ v) + 1"
      and scan: "\<And>l g'' ans''.
        yy_NUL_or_end malloc (length (p @ v)) cp1 (length pre) g1 ans = Some (Ret (l, g'', ans'')) \<Longrightarrow>
        yy_reaches malloc be junk (Goto_match s cp bp) g ans l g'' ans''"
      using match_to_NUL [OF h c e start s v True y] unfolding cp bp by metis
    have o': "open_token (p @ v)" using open_append [OF o, of v bp acc] True prev by simp
    show ?thesis
    proof (cases y)
      case Nil
      have h1: "holds g1 b1 pre (p @ v)" using g1(1) Nil by simp
      have q: "inp = (p @ v) @ pending b1 ans" using inp u Nil g1(2) by simp
      have short: "length (p @ v) + 1 < 2 ^ 30" using assms(2) unfolding q by simp
      have n: "yy_n_chars g1 = length pre + length (p @ v)" using g1(8) Nil by simp
      show ?thesis
      proof (cases "eof \<or> pending b1 ans \<noteq> []")
        case wait: True
        show ?thesis
        proof (rule end_of_input [OF malloc h1 g1(3,5) wait g1(4) short o' g1(7,9) n, of cp1, folded q])
          fix m' g' ans' s' cp'
          assume or: "yy_NUL_or_end malloc (length (p @ v)) cp1 (length pre) g1 ans = Some (Ret (Goto_match s' cp' 0, g', ans'))"
            and am: "at_match eof m' g' ans' s' cp' 0 inp" and m': "m' < 2 * length (pending b1 ans)"
            and d: "yyextra_r g' = yyextra_r g1"
          have "m' < m" using m' m g1(2) by simp
          from less.IH [OF this am] show ?thesis unfolding d g1(6) using reaches_trans [OF scan [OF or]] by blast
        next
          fix g' ans' s' cp'
          assume "yy_NUL_or_end malloc (length (p @ v)) cp1 (length pre) g1 ans = Some (Ret (Goto_find_action s' cp' 0, g', ans'))"
            "at_find eof g' ans' s' cp' 0 inp" "yyextra_r g' = yyextra_r g1"
          with scan g1(6) show ?thesis by metis
        next
          fix g' b' ans'
          assume "yy_NUL_or_end malloc (length (p @ v)) cp1 (length pre) g1 ans =
              Some (Ret (Do_action YY_STATE_EOF_INITIAL cp1 (length pre), g', ans'))"
            "inp = []" "yy_single g' b'" "yyextra_r g' = yyextra_r g1"
          with scan g1(6) show ?thesis by metis
        qed
      next
        case False
        then have "inp = p @ v" using q by simp
        with False o' show ?thesis by simp
      qed
    next
      case (Cons a z)
      then have y': "y = NUL # z" using y by simp
      have h1: "holds g1 b1 pre ((p @ v) @ NUL # z)" using g1(1) y' by simp
      have q: "inp = (p @ v) @ NUL # z @ pending b1 ans" using inp u y' g1(2) by simp
      have n: "yy_n_chars g1 = length pre + length ((p @ v) @ NUL # z)" using g1(8) y' by simp
      have c1: "counted g1 b1 (length pre + length ((p @ v) @ NUL # z))" using n g1(4) by (simp add: counted_def)
      show ?thesis
      proof (rule NUL_of_input [OF h1 g1(3,5) c1 o' g1(7,9) n, of malloc cp1, folded q])
        fix m' g' s'
        assume or: "yy_NUL_or_end malloc (length (p @ v)) cp1 (length pre) g1 ans =
            Some (Ret (Goto_match s' (length pre + length (p @ v) + 1) (length pre), g', ans))"
          and am: "at_match eof m' g' ans s' (length pre + length (p @ v) + 1) (length pre) inp"
          and m': "m' = 2 * length (pending b1 ans) + length z" and d: "yyextra_r g' = yyextra_r g1"
        have "m' < m" using m' m g1(2) u y' by simp
        from less.IH [OF this am] show ?thesis unfolding d g1(6) using reaches_trans [OF scan [OF or]] by blast
      next
        fix g' s' cp'
        assume "yy_NUL_or_end malloc (length (p @ v)) cp1 (length pre) g1 ans =
            Some (Ret (Goto_find_action s' cp' (length pre), g', ans))"
          "at_find eof g' ans s' cp' (length pre) inp" "yyextra_r g' = yyextra_r g1"
        with scan g1(6) show ?thesis by metis
      qed
    qed
  qed
qed


section \<open>Actions and the end of the input\<close>

lemma rule_token_act: "inp \<noteq> [] \<Longrightarrow> fst (rule_token inp) \<in> {1, 2, 3, 4, 5}"
  by (cases inp) (simp_all split: option.split)

lemma packet_left_shape:
  assumes "2 \<le> length x"
  shows "\<exists>x'. length x' = length x \<and> packet_left (x @ NUL # r) (length x) = x' @ NUL # r"
proof -
  have "max 1 (length x - 3) < length x" using assms by simp
  then have "(x @ NUL # r)[max 1 (length x - 3) := NUL] = x[max 1 (length x - 3) := NUL] @ NUL # r"
    by (simp add: list_update_append)
  then have "packet_left (x @ NUL # r) (length x) = x @ NUL # r \<or>
      packet_left (x @ NUL # r) (length x) = x[max 1 (length x - 3) := NUL] @ NUL # r"
    by (auto simp: packet_left_def Let_def split: cres.split option.split)
  then show ?thesis by (metis length_list_update)
qed

text \<open>A token that was found runs the action of its rule on its text; the next token starts behind it.\<close>

lemma find_scan:
  assumes "at_find eof g ans s cp bp inp"
  obtains g' rest where
    "\<And>d. at_token eof (g' d) ans (drop (snd (rule_token inp)) inp)" "\<And>d. yyextra_r (g' d) = d"
    "\<And>malloc be junk d. yy_action be junk rest (yyextra_r g) (fst (rule_token inp))
       (take (snd (rule_token inp)) inp) = Some (Ret d) \<Longrightarrow>
       yy_reaches malloc be junk (Goto_find_action s cp bp) g ans Next_token (g' d) ans"
    "\<And>malloc be junk. yy_scan malloc be junk (Goto_find_action s cp bp) g ans =
       (case yy_action be junk rest (yyextra_r g) (fst (rule_token inp)) (take (snd (rule_token inp)) inp) of
          Some (Ret d) \<Rightarrow> yy_scan malloc be junk Next_token (g' d) ans
        | Some Exit \<Rightarrow> Some Exit | Some Undef \<Rightarrow> Some Undef | None \<Rightarrow> None)"
proof -
  from assms obtain b pre w where h: "holds g b pre w" and bp: "bp = length pre"
    and c: "counted g b (length pre + length w)" and inp: "inp = w @ pending b ans" and e: "ends eof b ans"
    and start: "yyg_start g = 1" and ne: "inp \<noteq> []" and len: "snd (rule_token inp) \<le> length w"
    and find: "yy_find_action (s, cp, last_accepted g) = (fst (rule_token inp), bp + snd (rule_token inp))"
    unfolding at_find_def by blast
  obtain act n where tok: "rule_token inp = (act, n)" by force
  have act: "act \<in> {1, 2, 3, 4, 5}" using rule_token_act [OF ne] tok by simp
  obtain junk where buf: "yy_ch_buf b = pre @ w @ NUL # NUL # junk" using h by (auto simp: holds_def)
  define tl where "tl = drop n (w @ NUL # NUL # junk)"
  obtain hold rest where tl: "tl = hold # rest" using len tok by (cases tl) (auto simp: tl_def)
  let ?x = "take n w"
  have x: "length ?x = n" using len tok by simp
  have B: "yy_ch_buf b = pre @ ?x @ hold # rest"
    using len tok unfolding buf tl [symmetric] tl_def by simp
  have single: "yy_single g b" using holdsD(1) [OF h] .
  let ?b2 = "b\<lparr>yy_ch_buf := pre @ ?x @ NUL # rest\<rparr>"
  let ?g2 = "g\<lparr>yytext_r := bp, yyleng_r := n, yy_hold_char := hold, yy_c_buf_p := bp + n, yy_buffers := [Some ?b2]\<rparr>"
  have "(yy_ch_buf b)[bp + n := NUL] = pre @ ?x @ NUL # rest" "yy_ch_buf b ! (bp + n) = hold"
    "bp + n < length (yy_ch_buf b)" unfolding B using x bp by (simp_all add: list_update_append nth_append)
  then have before: "YY_DO_BEFORE_ACTION (bp + n) bp g = Ret ?g2"
    using single by (simp add: YY_DO_BEFORE_ACTION_def del: cbind_eq_Ret)
  have "yy_at_find_action s cp bp g = Ret (Do_action act (bp + n) bp, ?g2)"
    using find unfolding tok yy_find_action_eq last_accepted_def
    by (simp add: yy_at_find_action_def Let_def before del: cbind_eq_Ret split: if_splits)
  then have g2: "yy_reaches malloc be jk (Goto_find_action s cp bp) g ans
      (Do_action act (bp + n) bp) ?g2 ans" for malloc be jk
    by (intro reaches_step) (simp add: yy_step_def)
  have two: "act = 3 \<Longrightarrow> 2 \<le> n"
    using packet_token(2) [of inp n] yy_token_rule [OF ne] tok ne by simp
  obtain x' where x': "length x' = n"
    "(if act = 3 then packet_left (?x @ NUL # rest) n else ?x @ NUL # rest) = x' @ NUL # rest"
  proof (cases "act = 3")
    case True
    with packet_left_shape [of ?x rest, unfolded x] two that show thesis by auto
  next
    case False
    with x that [of ?x] show thesis by simp
  qed
  let ?b3 = "b\<lparr>yy_ch_buf := pre @ x' @ NUL # rest\<rparr>"
  let ?g3 = "\<lambda>d. ?g2\<lparr>yyextra_r := d, yy_buffers := [Some ?b3]\<rparr>"
  let ?a = "\<lambda>be jk. yy_action be jk rest (yyextra_r g) act (take n inp)"
  have "take n inp = ?x" using len tok unfolding inp by simp
  then have rule: "yy_rule_action be jk act ?g2 = map_option (\<lambda>r. cbind r (\<lambda>d. Ret (?g3 d))) (?a be jk)" for be jk
    using single x x' bp by (cases "act = 3") (simp_all add: yy_rule_action_def Let_def)
  have step: "yy_step malloc be jk (Do_action act (bp + n) bp) ?g2 ans =
      map_option (\<lambda>r. cbind r (\<lambda>d. Ret (Some Next_token, ?g3 d, ans))) (?a be jk)" for malloc be jk
  proof -
    have "act \<noteq> 0" "act \<noteq> YY_END_OF_BUFFER" "act \<noteq> YY_STATE_EOF_INITIAL"
      using act by (auto simp: YY_END_OF_BUFFER_def YY_STATE_EOF_INITIAL_def)
    then have "yy_step malloc be jk (Do_action act (bp + n) bp) ?g2 ans =
        map_option (\<lambda>r. cbind r (\<lambda>g. Ret (Some Next_token, g, ans))) (yy_rule_action be jk act ?g2)"
      by (simp only: yy_step_def yy_goto.case yy_at_action_def if_False)
    then show ?thesis unfolding rule by (simp add: option.map_comp comp_def cbind_assoc)
  qed
  then have "yy_scan malloc be jk (Do_action act (bp + n) bp) ?g2 ans =
      (case ?a be jk of Some (Ret d) \<Rightarrow> yy_scan malloc be jk Next_token (?g3 d) ans
        | Some Exit \<Rightarrow> Some Exit | Some Undef \<Rightarrow> Some Undef | None \<Rightarrow> None)" for malloc be jk
    by (subst yy_scan.simps) (simp split: option.split cres.split)
  moreover have "yy_reaches malloc be jk (Goto_find_action s cp bp) g ans Next_token (?g3 d) ans"
    if "?a be jk = Some (Ret d)" for malloc be jk d
    using reaches_trans [OF g2 reaches_step] step that by simp
  moreover have "at_token eof (?g3 d) ans (drop n inp)" for d
    unfolding at_token_def
  proof (intro exI conjI)
    show "yy_single (?g3 d) ?b3" using single by simp
    show "yy_wf_buf ?b3" using holdsD(2) [OF h] x x' unfolding yy_wf_buf_def B by simp
    show "(yy_ch_buf ?b3)[yy_c_buf_p (?g3 d) := yy_hold_char (?g3 d)] = (pre @ x') @ drop n w @ NUL # NUL # junk"
      using x'(1) bp len tok tl unfolding tl_def by (simp add: list_update_append)
    show "yy_c_buf_p (?g3 d) = length (pre @ x')" using bp x' by simp
    show "counted (?g3 d) ?b3 (length (pre @ x') + length (drop n w))"
      using c x' len tok by (simp add: counted_def)
    show "drop n inp = drop n w @ pending ?b3 ans" using len tok unfolding inp by (simp add: pending_def)
    show "ends eof ?b3 ans" using e by (simp add: ends_def)
  qed (use start in simp)
  ultimately show thesis using that [of ?g3 rest] reaches_scan [OF g2] tok by simp
qed

text \<open>How a run of the scanner ends for the data: as \<^verbatim>\<open>yylex\<close> says, with one buffer left.\<close>

definition same_end :: "(yyguts \<times> read_answer list) cres option \<Rightarrow> parser_data cres option \<Rightarrow> bool" where
  "same_end r q \<longleftrightarrow>
     (case q of
        None \<Rightarrow> r = None
      | Some (Ret d) \<Rightarrow> \<exists>g ans b. r = Some (Ret (g, ans)) \<and> yy_single g b \<and> yyextra_r g = d
      | Some Exit \<Rightarrow> r = Some Exit
      | Some Undef \<Rightarrow> r = Some Undef)"

lemma yylex_cong:
  "(\<And>n. n \<le> length inp \<Longrightarrow> rest n = rest' n) \<Longrightarrow> yylex be junk rest d inp = yylex be junk rest' d inp"
proof (induction inp arbitrary: d rule: measure_induct_rule [where f = length])
  case (less inp)
  show ?case
  proof (cases "inp = []")
    case True
    then show ?thesis by (simp add: yylex.simps)
  next
    case False
    let ?n = "snd (yy_token inp)"
    have "length (drop ?n inp) < length inp" using yy_token_progress [OF False] .
    then have "yylex be junk rest e (drop ?n inp) = yylex be junk rest' e (drop ?n inp)" for e
      using less.prems by (intro less.IH) auto
    then show ?thesis using less.prems [of "length inp"]
      by (subst (1 2) yylex.simps) (simp split: option.split cres.split)
  qed
qed

text \<open>At the start of a token, for any stream.\<close>

lemma scan_same_end:
  assumes malloc: "malloc_total malloc"
  shows "at_token True g ans inp \<Longrightarrow> length inp + 1 < 2 ^ 30 \<Longrightarrow>
    \<exists>rest. same_end (yy_scan malloc be junk Next_token g ans) (yylex be junk rest (yyextra_r g) inp)"
proof (induction inp arbitrary: g ans rule: measure_induct_rule [where f = length])
  case (less inp)
  let ?cp = "yy_c_buf_p g"
  obtain g1 m where g1: "at_match True m g1 ans 1 ?cp ?cp inp" "yyextra_r g1 = yyextra_r g"
    and next_token: "yy_scan malloc be junk Next_token g ans = yy_scan malloc be junk (Goto_match 1 ?cp ?cp) g1 ans"
    using token_step [OF less.prems(1)] reaches_scan by metis
  from match_scan [OF malloc less.prems(2) g1(1), of be junk]
  show ?case
  proof (elim disjE exE conjE)
    fix g2 ans2 s cp bp
    assume f: "at_find True g2 ans2 s cp bp inp" and d: "yyextra_r g2 = yyextra_r g1"
      and "yy_reaches malloc be junk (Goto_match 1 ?cp ?cp) g1 ans (Goto_find_action s cp bp) g2 ans2"
    note scan = reaches_scan [OF this(3)]
    have ne: "inp \<noteq> []" using f by (auto simp: at_find_def)
    let ?n = "snd (rule_token inp)"
    obtain g3 old where g3: "\<And>d. at_token True (g3 d) ans2 (drop ?n inp)" "\<And>d. yyextra_r (g3 d) = d"
      and act: "\<And>malloc be junk. yy_scan malloc be junk (Goto_find_action s cp bp) g2 ans2 =
       (case yy_action be junk old (yyextra_r g2) (fst (rule_token inp)) (take ?n inp) of
          Some (Ret d) \<Rightarrow> yy_scan malloc be junk Next_token (g3 d) ans2
        | Some Exit \<Rightarrow> Some Exit | Some Undef \<Rightarrow> Some Undef | None \<Rightarrow> None)"
      using find_scan [OF f] by metis
    let ?a = "yy_action be junk old (yyextra_r g) (fst (rule_token inp)) (take ?n inp)"
    have lex: "yylex be junk rest (yyextra_r g) inp =
        (case ?a of Some (Ret d) \<Rightarrow> yylex be junk rest d (drop ?n inp) | r \<Rightarrow> r)"
      if "rest (length inp) = old" for rest
      using that ne by (subst yylex.simps) (unfold yy_token_rule [OF ne], simp)
    have short: "length (drop ?n inp) < length inp"
      using yy_token_progress [OF ne] unfolding yy_token_rule [OF ne] .
    have run: "yy_scan malloc be junk Next_token g ans =
        (case ?a of Some (Ret d) \<Rightarrow> yy_scan malloc be junk Next_token (g3 d) ans2
          | Some Exit \<Rightarrow> Some Exit | Some Undef \<Rightarrow> Some Undef | None \<Rightarrow> None)"
      unfolding next_token scan act d g1(2) ..
    show ?thesis
    proof (cases "\<exists>d. ?a = Some (Ret d)")
      case True
      then obtain d where a: "?a = Some (Ret d)" by blast
      from less.IH [OF short g3(1)] less.prems(2) short obtain rest where
        "same_end (yy_scan malloc be junk Next_token (g3 d) ans2) (yylex be junk rest d (drop ?n inp))"
        using g3(2) by (metis (no_types, lifting) add_less_mono1 order_less_trans)
      moreover have "yylex be junk (rest(length inp := old)) d (drop ?n inp) = yylex be junk rest d (drop ?n inp)"
        using short by (intro yylex_cong) auto
      moreover have "yylex be junk (rest(length inp := old)) (yyextra_r g) inp =
          yylex be junk (rest(length inp := old)) d (drop ?n inp)" using a by (subst lex) simp_all
      ultimately show ?thesis unfolding run a by (intro exI [of _ "rest(length inp := old)"]) (simp del: fun_upd_apply)
    next
      case False
      have "yylex be junk (\<lambda>_. old) (yyextra_r g) inp = ?a"
        using False by (subst lex) (auto split: option.split cres.split)
      then show ?thesis unfolding run using False
        by (intro exI [of _ "\<lambda>_. old"]) (auto simp: same_end_def split: option.split cres.split)
    qed
  next
    fix g2 ans2 b cp bp
    assume inp: "inp = []" and g2: "yy_single g2 b" "yyextra_r g2 = yyextra_r g1"
      and "yy_reaches malloc be junk (Goto_match 1 ?cp ?cp) g1 ans (Do_action YY_STATE_EOF_INITIAL cp bp) g2 ans2"
    note scan = reaches_scan [OF this(4)]
    have "same_end (yy_scan malloc be junk (Do_action YY_STATE_EOF_INITIAL cp bp) g2 ans2)
        (Some (handle_error (yyextra_r g2)))"
      using g2(1) by (subst yy_scan.simps)
        (auto simp: yy_step_def yy_at_action_def YY_END_OF_BUFFER_def YY_STATE_EOF_INITIAL_def same_end_def
          split: cres.split)
    then show ?thesis unfolding next_token scan using inp g2(2) g1(2) by (simp add: yylex.simps)
  qed simp
qed

section \<open>The server's scanner\<close>

text \<open>The first call of \<^verbatim>\<open>yylex\<close> makes the buffer and starts with the first token.\<close>

lemma first_token:
  assumes malloc: "malloc_total malloc" and f: "f \<noteq> None" and e: "clean ans"
  obtains g where
    "yylex_first malloc (yyset_in f (yy_init_globals (yyset_extra d (yyguts_zero d)))) = Ret g"
    "at_token (to_eof ans) g ans (received ans)" "yyextra_r g = d"
proof -
  obtain s1 s2 s3 where m: "malloc 8 = Some s1" "malloc sizeof_yy_buffer_state = Some s2"
    "malloc (YY_BUF_SIZE + 2) = Some s3" "length s3 = YY_BUF_SIZE + 2"
    using malloc unfolding malloc_total_def by metis
  have len: "2 \<le> length s3" using m(4) by simp
  then obtain a b s where s: "s3 = a # b # s" by (cases s3; cases "tl s3") auto
  have ls: "length s = YY_BUF_SIZE" using m(4) s by simp
  let ?b = "\<lparr>yy_input_file = f, yy_ch_buf = NUL # NUL # s, yy_buf_pos = 0, yy_buf_size = YY_BUF_SIZE,
      yy_b_n_chars = 0, yy_is_our_buffer = True, yy_is_interactive = True, yy_at_bol = True,
      yy_bs_lineno = 1, yy_bs_column = 0, yy_fill_buffer = True, yy_buffer_status = YY_BUFFER_NEW\<rparr>"
  let ?start = "yyset_in f (yy_init_globals (yyset_extra d (yyguts_zero d)))"
  let ?g = "?start\<lparr>yy_init := True, yyg_start := 1, yyout_r := Some 1, yy_buffer_stack := Some [Some 0],
      yy_buffer_stack_max := 1, yy_buffers := [Some ?b], yy_n_chars := 0, yytext_r := 0, yy_c_buf_p := 0,
      yy_hold_char := NUL\<rparr>"
  have "yylex_first malloc ?start = Ret ?g"
    using f m(1-3)
    by (simp add: yylex_first_def yyset_in_def yy_init_globals_def yyset_extra_def yyguts_zero_def Let_def
        YY_CURRENT_BUFFER_def yyensure_buffer_stack_def yyalloc_def yy_create_buffer_def yy_init_buffer_def
        yy_flush_buffer_def yy_deref_def yy_store_def yy_set_current_def yy_load_buffer_state_def yy_cur_def s
        del: cbind_eq_Ret)
  moreover have "at_token (to_eof ans) ?g ans (received ans)" unfolding at_token_def
  proof (intro exI conjI)
    show "yy_single ?g ?b" by (simp add: yy_single_def yyset_in_def yy_init_globals_def)
    show "yy_wf_buf ?b" unfolding yy_wf_buf_def
      using ls by (auto simp: YY_BUF_SIZE_def intro!: exI [of _ 14])
    show "(yy_ch_buf ?b)[yy_c_buf_p ?g := yy_hold_char ?g] = [] @ [] @ NUL # NUL # s" by simp
    show "received ans = [] @ pending ?b ans" by (simp add: pending_def)
    show "ends (to_eof ans) ?b ans" using e by (simp add: ends_def)
  qed (simp_all add: counted_def)
  moreover have "yyextra_r ?g = d" by (simp add: yyset_in_def yy_init_globals_def yyset_extra_def)
  ultimately show thesis using that by blast
qed

lemma single_destroy:
  assumes "yy_single g b"
  shows "\<exists>g'. yylex_destroy g = Some (Ret (0, g'))"
proof -
  let ?g = "g\<lparr>yy_buffers := [None], yy_buffer_stack := Some [None]\<rparr>"
  have s: "yy_buffer_stack g = Some [Some 0]" "yy_buffer_stack_top g = 0" "yy_buffers g = [Some b]"
    using assms by (simp_all add: yy_single_def)
  have "yy_destroy_buffers ?g = Some (Ret ?g)"
    by (subst yy_destroy_buffers.simps) (simp add: YY_CURRENT_BUFFER_def s)
  then have "yy_destroy_buffers g = Some (Ret ?g)"
    by (subst yy_destroy_buffers.simps)
      (simp add: YY_CURRENT_BUFFER_def s yy_delete_buffer_def yy_set_current_def yy_deref_def
        yypop_buffer_state_def)
  then show ?thesis by (simp add: yylex_destroy_def Let_def)
qed

lemma buffered_stream:
  assumes "malloc_total malloc" and "to_eof ans" and "length (received ans) + 1 < 2 ^ 30"
  shows "\<exists>rest. gdb_scanner_buffered malloc be junk f arm ans =
    gdb_scanner (f \<noteq> None) be junk rest arm (received ans)"
proof (cases "f = None")
  case True
  then show ?thesis by (simp add: gdb_scanner_buffered_def gdb_scanner_def Let_def)
next
  case False
  let ?d = "\<lparr>pd_gdb = gdb_init_data arm, pd_buffer = []\<rparr>"
  let ?g = "yyset_in f (yy_init_globals (yyset_extra ?d (yyguts_zero ?d)))"
  obtain g where g: "yylex_first malloc ?g = Ret g" "at_token True g ans (received ans)" "yyextra_r g = ?d"
    using first_token [OF assms(1) False to_eof_clean [OF assms(2)]] assms(2) by metis
  from scan_same_end [OF assms(1) g(2) assms(3)] obtain rest where
    r: "same_end (yy_scan malloc be junk Next_token g ans) (yylex be junk rest ?d (received ans))"
    unfolding g(3) by blast
  have buffered: "yylex_buffered malloc be junk ?g ans = yy_scan malloc be junk Next_token g ans"
    by (simp add: yylex_buffered_def g(1))
  obtain s where "malloc sizeof_yyguts = Some s" using assms(1) unfolding malloc_total_def by blast
  then have init: "yylex_init_extra malloc ?d True = (0, None, Some (yy_init_globals (yyset_extra ?d (yyguts_zero ?d))))"
    by (simp add: yylex_init_extra_def yyalloc_def)
  have "gdb_scanner_buffered malloc be junk f arm ans = yylex be junk rest ?d (received ans)"
  proof (cases "\<exists>d. yylex be junk rest ?d (received ans) = Some (Ret d)")
    case True
    then obtain d where d: "yylex be junk rest ?d (received ans) = Some (Ret d)" by blast
    with r obtain g' ans' b where "yy_scan malloc be junk Next_token g ans = Some (Ret (g', ans'))"
      "yy_single g' b" "yyextra_r g' = d" by (auto simp: same_end_def)
    moreover from this obtain g2 where "yylex_destroy g' = Some (Ret (0, g2))"
      using single_destroy by blast
    ultimately show ?thesis using False d
      by (simp add: gdb_scanner_buffered_def init buffered Let_def del: not_None_eq)
  next
    case no: False
    with r have "yy_scan malloc be junk Next_token g ans = (case yylex be junk rest ?d (received ans) of
        None \<Rightarrow> None | Some Exit \<Rightarrow> Some Exit | _ \<Rightarrow> Some Undef)"
      by (auto simp: same_end_def split: option.splits cres.splits)
    with no show ?thesis using False
      by (auto simp: gdb_scanner_buffered_def init buffered Let_def simp del: not_None_eq
          split: option.splits cres.splits)
  qed
  then show ?thesis using False by (intro exI [of _ rest]) (simp add: gdb_scanner_def Let_def)
qed

text \<open>
  Property C5: the tokens do not depend on how the stream arrives. Whatever the portions of the bytes, and
  however often the calls are interrupted, the scanner with its buffer leaves the data of the server as
  the scanner of the whole stream does, for some contents of the old memory behind the tokens; it ends, and
  ends the process, in the same cases. The stream has to end and to be shorter than \<open>2 ^ 30\<close> bytes, the size
  the buffer can grow to, and the allocations to succeed.
\<close>

theorem buffered_scanner_refines_stream:
  assumes "malloc_total malloc" and "to_eof ans" and "length (received ans) + 1 < 2 ^ 30"
  shows "\<exists>rest. gdb_scanner_buffered malloc be junk f arm ans =
    gdb_scanner (f \<noteq> None) be junk rest arm (received ans)"
  using assms by (rule buffered_stream)

theorem buffered_scanner_refines_stream_witness:
  "\<exists>rest. gdb_scanner_buffered (\<lambda>n. Some (replicate n NUL)) True 0 (Some 5) sample_core
       [Got [36, 112], Read_failed EINTR, Got [48, 35, 97, 48, 0], Got []] =
     gdb_scanner True True 0 rest sample_core (''$p0#a0'' @ [NUL])"
proof -
  let ?ans = "[Got [36, 112], Read_failed EINTR, Got [48, 35, 97, 48, 0], Got []]"
  have "malloc_total (\<lambda>n. Some (replicate n NUL))" by (simp add: malloc_total_def)
  moreover have "received ?ans = ''$p0#a0'' @ [NUL]" by code_simp
  moreover have "to_eof ?ans" by simp
  ultimately show ?thesis
    using buffered_scanner_refines_stream [of "\<lambda>n. Some (replicate n NUL)" ?ans True 0 "Some 5" sample_core] by simp
qed

text \<open>
  Property C11: which streams the server comes to the end of. The stream has to end and to be shorter than \<open>2 ^ 30\<close> bytes,
  and the allocations to succeed. Without a continue command the run comes to an end: of the loops in the scanner and below
  it, only that of \<^verbatim>\<open>c\<close> can go on for ever; the end may be a return, the end of the process or a command without a
  meaning in C. Without any of the commands that can exit or have no meaning, whatever other packets, well
  formed or damaged, acknowledgements and noise there are, the server returns, with its processor untouched and
  its connection still open.
\<close>

theorem buffered_scanner_ends:
  assumes "malloc_total malloc" and "to_eof ans" and "length (received ans) + 1 < 2 ^ 30"
  shows "(\<not> continue_in (received ans) \<longrightarrow> gdb_scanner_buffered malloc be junk f arm ans \<noteq> None) \<and>
    (\<not> risky_in (received ans) \<longrightarrow> (\<exists>d. gdb_scanner_buffered malloc be junk f arm ans = Some (Ret d) \<and>
       gdb_arm (pd_gdb d) = arm \<and> \<not> gdb_shut (pd_gdb d)))"
proof -
  obtain rest where r: "gdb_scanner_buffered malloc be junk f arm ans =
      gdb_scanner (f \<noteq> None) be junk rest arm (received ans)"
    using buffered_stream [OF assms(1-3)] by blast
  let ?d = "\<lparr>pd_gdb = gdb_init_data arm, pd_buffer = []\<rparr>"
  have start: "parses arm ?d" by (simp add: parses_def serves_def gdb_init_data_def MAX_ERROR_SIZE_def)
  have "\<exists>d. gdb_scanner (f \<noteq> None) be junk rest arm (received ans) = Some (Ret d) \<and> parses arm d"
    if "\<not> risky_in (received ans)"
    using yylex_serves [OF that start] start by (simp add: gdb_scanner_def Let_def)
  then show ?thesis
    unfolding r by (auto simp: gdb_scanner_def Let_def yylex_returns parses_def serves_def simp del: not_None_eq)
qed

theorem buffered_scanner_ends_witness:
  "\<exists>d. gdb_scanner_buffered (\<lambda>n. Some (replicate n NUL)) True 0 (Some 5) sample_core
     [Got [36, 63], Read_failed EINTR, Got [35, 51, 102, 43], Got []] = Some (Ret d)"
proof -
  let ?ans = "[Got [36, 63], Read_failed EINTR, Got [35, 51, 102, 43], Got []]"
  have r: "received ?ans = ''$?#3f+''" by code_simp
  have "malloc_total (\<lambda>n. Some (replicate n NUL))" by (simp add: malloc_total_def)
  moreover have "\<not> risky_in (received ?ans)" unfolding r risky_in_def by (auto simp: Cons_eq_append_conv)
  ultimately show ?thesis
    using buffered_scanner_ends [of "\<lambda>n. Some (replicate n NUL)" ?ans True 0 "Some 5" sample_core] by (auto simp: r)
qed

section \<open>A packet is answered when it is there\<close>

lemma inside_act:
  "inside_token p s \<Longrightarrow> s \<in> matching \<Longrightarrow> yy_accept ! fst acc \<in> {0, 4} \<Longrightarrow>
     yy_accept ! fst (snd (yy_previous p s k acc)) \<in> {0, 4}"
proof (induction p arbitrary: s k acc)
  case (Cons c p)
  let ?s = "yy_trans s (yy_class c)"
  have "yy_base ! ?s \<noteq> 14" "inside_token p ?s" using Cons.prems(1) by (simp_all add: Let_def)
  moreover from this have "?s \<in> matching" using matching_closed [OF Cons.prems(2)] by (auto simp: matching_def)
  moreover have "yy_accept ! s \<in> {0, 4}" using Cons.prems(2) by (auto simp: matching_def yy_accept_def)
  then have "yy_accept ! fst (if yy_accept ! s \<noteq> 0 then (s, k) else acc) \<in> {0, 4}" using Cons.prems(3) by auto
  ultimately have "yy_accept ! fst (snd (yy_previous p ?s (k + 1) (if yy_accept ! s \<noteq> 0 then (s, k) else acc))) \<in> {0, 4}"
    using Cons.IH by blast
  then show ?case by simp
qed simp

text \<open>What may still go on is not a whole packet.\<close>

lemma open_not_packet:
  assumes "open_token p" and "p \<noteq> []"
  shows "fst (rule_token p) \<noteq> 3"
proof (cases "p = [NUL]")
  case True
  then show ?thesis by (simp add: NUL_def)
next
  case False
  then have inside: "inside_token p 1" using assms(1) by (simp add: open_token_def)
  obtain s acc where prev: "yy_previous p 1 0 (0, 0) = (s, acc)" by (metis prod.exhaust)
  have one: "1 \<in> matching" by (simp add: matching_def)
  have "yy_accept ! 0 = 0" by (simp add: yy_accept_def)
  then have "yy_accept ! fst acc \<in> {0, 4}" using inside_act [OF inside one, of "(0, 0)" 0] prev by simp
  moreover have "yy_accept ! s \<in> {0, 4}"
    using open_state [OF assms(1), of 0 "(0, 0)"] prev by (auto simp: matching_def yy_accept_def)
  ultimately have "fst (yy_find_action (s, length p, acc)) \<noteq> 3" by (auto simp: yy_find_action_eq)
  then show ?thesis
    using open_match [OF assms(1) prev, of "[]"] token_at [OF assms(2), of 0 "(0, 0)"] by simp
qed

text \<open>From the start of a token, in any state of the scanner and with any data, but for a pending error.\<close>

lemma frame_reaches:
  assumes malloc: "malloc_total malloc" and tok: "at_token eof g ans (frame s @ t)"
    and len: "length (frame s @ t) + 1 < 2 ^ 30" and s: "packet_text s" and err: "pd_buffer (yyextra_r g) = []"
  shows "\<exists>rest. \<forall>pg. gdb_packet_analysis be junk (pd_gdb (yyextra_r g)) (frame s @ NUL # rest) (length (frame s)) =
      Some (Ret pg) \<longrightarrow>
    (\<exists>g' ans'. yy_reaches malloc be junk Next_token g ans Next_token g' ans' \<and> at_token eof g' ans' t \<and>
      yyextra_r g' = (yyextra_r g)\<lparr>pd_gdb := pg\<rparr>)"
proof -
  let ?cp = "yy_c_buf_p g" and ?d = "yyextra_r g"
  have ne: "frame s @ t \<noteq> []" by (simp add: frame_def)
  have rule: "rule_token (frame s @ t) = (3, length (frame s))"
    using yy_token_frame [OF s, of t] unfolding yy_token_rule [OF ne] .
  obtain g1 m where g1: "at_match eof m g1 ans 1 ?cp ?cp (frame s @ t)" "yyextra_r g1 = ?d"
    and start: "yy_reaches malloc be junk Next_token g ans (Goto_match 1 ?cp ?cp) g1 ans"
    using token_step [OF tok] by metis
  have "\<not> open_token (frame s @ t)" using open_not_packet [OF _ ne] rule by force
  with match_scan [OF malloc len g1(1), of be junk] ne obtain g2 ans2 s2 cp bp where
    f: "at_find eof g2 ans2 s2 cp bp (frame s @ t)" and d: "yyextra_r g2 = ?d"
    and match: "yy_reaches malloc be junk (Goto_match 1 ?cp ?cp) g1 ans (Goto_find_action s2 cp bp) g2 ans2"
    unfolding g1(2) by blast
  obtain g3 rest where g3: "\<And>d. at_token eof (g3 d) ans2 t" "\<And>d. yyextra_r (g3 d) = d"
    and act: "\<And>d. yy_action be junk rest ?d 3 (frame s) = Some (Ret d) \<Longrightarrow>
      yy_reaches malloc be junk (Goto_find_action s2 cp bp) g2 ans2 Next_token (g3 d) ans2"
  proof (rule find_scan [OF f])
    fix g' rest
    assume a: "\<And>d. at_token eof (g' d) ans2 (drop (snd (rule_token (frame s @ t))) (frame s @ t))"
      "\<And>d. yyextra_r (g' d) = d"
      "\<And>malloc be junk d. yy_action be junk rest (yyextra_r g2) (fst (rule_token (frame s @ t)))
         (take (snd (rule_token (frame s @ t))) (frame s @ t)) = Some (Ret d) \<Longrightarrow>
       yy_reaches malloc be junk (Goto_find_action s2 cp bp) g2 ans2 Next_token (g' d) ans2"
    show thesis
    proof (rule that)
      show "at_token eof (g' e) ans2 t" for e using a(1) [of e] by (simp add: rule)
      show "yyextra_r (g' e) = e" for e by (rule a(2))
      show "yy_reaches malloc be junk (Goto_find_action s2 cp bp) g2 ans2 Next_token (g' e) ans2"
        if "yy_action be junk rest ?d 3 (frame s) = Some (Ret e)" for e
        using a(3) [of be junk e malloc] that by (simp add: rule d)
    qed
  qed
  have "yy_action be junk rest ?d 3 (frame s) = Some (Ret (?d\<lparr>pd_gdb := pg\<rparr>))"
    if "gdb_packet_analysis be junk (pd_gdb ?d) (frame s @ NUL # rest) (length (frame s)) = Some (Ret pg)" for pg
    using that err by (simp add: yy_action_def handle_error_def)
  then have "yy_reaches malloc be junk Next_token g ans Next_token (g3 (?d\<lparr>pd_gdb := pg\<rparr>)) ans2"
    if "gdb_packet_analysis be junk (pd_gdb ?d) (frame s @ NUL # rest) (length (frame s)) = Some (Ret pg)" for pg
    using reaches_trans [OF reaches_trans [OF start match] act] that by blast
  with g3 show ?thesis by blast
qed

text \<open>
  Property C12: the server does not wait for more than the packet. When the bytes that have come are a framed
  packet and anything behind it, or nothing, and whether the connection goes on or not, the scanner comes to the
  packet analysis with what it has read, takes its result, and only then goes on with the rest of the
  stream; gdb, which waits for the answer before it sends more, is not left waiting.
\<close>

theorem packet_answered_at_once:
  assumes "malloc_total malloc" and "clean ans" and "received ans = frame s @ t"
    and "length (frame s @ t) + 1 < 2 ^ 30" and "packet_text s" and "pd_buffer d = []"
  shows "\<exists>g rest. yylex_first malloc (yyset_in (Some f) (yy_init_globals (yyset_extra d (yyguts_zero d)))) = Ret g \<and>
    (\<forall>pg. gdb_packet_analysis be junk (pd_gdb d) (frame s @ NUL # rest) (length (frame s)) = Some (Ret pg) \<longrightarrow>
      (\<exists>g' ans'. yy_reaches malloc be junk Next_token g ans Next_token g' ans' \<and>
        yyextra_r g' = d\<lparr>pd_gdb := pg\<rparr> \<and> at_token (to_eof ans) g' ans' t))"
proof -
  obtain g where g: "yylex_first malloc (yyset_in (Some f) (yy_init_globals (yyset_extra d (yyguts_zero d)))) = Ret g"
    "at_token (to_eof ans) g ans (frame s @ t)" "yyextra_r g = d"
    using first_token [OF assms(1) _ assms(2), of "Some f" d] unfolding assms(3) by blast
  from frame_reaches [OF assms(1) g(2) assms(4,5), unfolded g(3), OF assms(6), of be junk] g(1)
  show ?thesis by blast
qed

text \<open>A packet of a kill request in two portions, on a connection that stays open.\<close>

theorem packet_answered_at_once_witness:
  "\<exists>g g' ans'. yylex_first (\<lambda>n. Some (replicate n NUL)) (yyset_in (Some 5) (yy_init_globals
       (yyset_extra \<lparr>pd_gdb = gdb_init_data sample_core, pd_buffer = []\<rparr>
         (yyguts_zero \<lparr>pd_gdb = gdb_init_data sample_core, pd_buffer = []\<rparr>)))) = Ret g \<and>
     yy_reaches (\<lambda>n. Some (replicate n NUL)) True 0 Next_token g [Got [36], Read_failed EINTR, Got [107, 35, 54, 98]]
       Next_token g' ans' \<and>
     yyextra_r g' = \<lparr>pd_gdb = (acked (gdb_init_data sample_core))\<lparr>gdb_shut := True\<rparr>, pd_buffer = []\<rparr>"
proof -
  let ?malloc = "\<lambda>n. Some (replicate n NUL)" and ?ans = "[Got [36], Read_failed EINTR, Got [107, 35, 54, 98]]"
  let ?g = "gdb_init_data sample_core"
  have m: "malloc_total ?malloc" by (simp add: malloc_total_def)
  have r: "received ?ans = frame ''k'' @ []" by code_simp
  have c: "clean ?ans" by simp
  have t: "packet_text ''k''" by (simp add: packet_text_def NUL_def)
  have l: "length (frame ''k'' @ []) + 1 < 2 ^ 30" by (simp add: frame_def hex_byte_eq)
  have "gdb_packet_analysis True 0 ?g (CHR ''$'' # ''k'' @ CHR ''#'' # hex_byte (checksum ''k'') @ NUL # rest) (length ''k'' + 4) =
      Some (Ret ((acked ?g)\<lparr>gdb_shut := True\<rparr>))" for rest
    by (subst packet_analysis_eq) (auto simp: gdb_init_data_def gdb_init_def NUL_def kill_request_def)
  then have a: "gdb_packet_analysis True 0 ?g (frame ''k'' @ NUL # rest) (length (frame ''k'')) =
      Some (Ret ((acked ?g)\<lparr>gdb_shut := True\<rparr>))" for rest by (simp add: frame_def)
  have five: "length (frame ''k'') = 5" by (simp add: frame_def hex_byte_eq)
  show ?thesis
    using packet_answered_at_once [OF m c r l t, of "\<lparr>pd_gdb = ?g, pd_buffer = []\<rparr>" 5 True 0]
    by (auto simp: a [unfolded five])
qed

end
