(* ===== verification/Trace.thy ===== *)
theory Trace
  imports Arm_Exception Arm_Constants C_Format
begin

text \<open>
  The trace of \<^verbatim>\<open>trace.c\<close>: its state, the lines it prints for accesses to memory and to
  registers, the stack of source locations that the macros of \<^verbatim>\<open>trace_location.h\<close> push and pop around
  every access, the accesses of \<^verbatim>\<open>arm_core.c\<close> with the trace calls they make, and the dump of
  the processor (\<^verbatim>\<open>arm_print_state\<close>).

  The static variables are the fields of a record. A stream is the text written to it; before
  \<^verbatim>\<open>set_trace_file\<close> there is none and printing has no meaning. An index outside a table or a stack
  is \<open>Undef\<close>. The parameter \<open>fmt\<close> tells whether \<^verbatim>\<open>ARM_TRACE_FORMAT\<close> is defined.

  The lemmas show that the traced accesses compute what the accesses of \<open>Arm_Core\<close> compute and only
  append to the trace, that the location macros leave the stack as they found it, when they
  overflow it, and that the address and the value of a memory access can be read back from its line.
\<close>

section \<open>State\<close>

record trace_state =
  tr_output :: "string option"
  tr_last_address :: u32
  tr_enabled :: bool
  tr_file_stack :: "string list"
  tr_line_stack :: "int list"
  tr_top :: int
  tr_flags :: u32

definition trace_initial :: trace_state where
  "trace_initial =
     \<lparr>tr_output = None, tr_last_address = 0x12345678, tr_enabled = True,
      tr_file_stack = replicate 128 [], tr_line_stack = replicate 128 0, tr_top = - 1, tr_flags = 0\<rparr>"

definition OTHER_ACCESS :: u8 where "OTHER_ACCESS = 0"
definition OPCODE_FETCH :: u8 where "OPCODE_FETCH = 1"
definition WRITE :: u8 where "WRITE = 0"
definition READ :: u8 where "READ = 1"
definition CPSR :: u8 where "CPSR = 16"
definition SPSR :: u8 where "SPSR = 17"
definition MEMORY :: u32 where "MEMORY = 1"
definition REGISTERS :: u32 where "REGISTERS = 2"
definition STATE :: u32 where "STATE = 4"
definition POSITION :: u32 where "POSITION = 8"

lemmas trace_kind_defs = OTHER_ACCESS_def OPCODE_FETCH_def WRITE_def READ_def
lemmas trace_flag_defs = MEMORY_def REGISTERS_def STATE_def POSITION_def

definition trace_memory_seq :: "bool \<Rightarrow> string list" where
  "trace_memory_seq fmt = (if fmt then [''N'', ''S''] else ['''', ''''])"

definition trace_memory_cause :: "bool \<Rightarrow> string list" where
  "trace_memory_cause fmt = (if fmt then [''_'', ''O''] else ['''', '', fetch''])"

definition trace_memory_type :: "bool \<Rightarrow> string list" where
  "trace_memory_type fmt = (if fmt then [''W'', ''R''] else [''write'', ''read''])"

definition trace_register_type :: "bool \<Rightarrow> string list" where
  "trace_register_type fmt = (if fmt then [''W'', ''R''] else [''write'', ''read''])"

lemmas trace_table_defs = trace_memory_seq_def trace_memory_cause_def trace_memory_type_def
  trace_register_type_def

section \<open>Operations\<close>

definition set_trace_file :: "trace_state \<Rightarrow> string \<Rightarrow> trace_state" where
  "set_trace_file t f = t\<lparr>tr_output := Some f\<rparr>"

definition trace_print :: "string \<Rightarrow> trace_state \<Rightarrow> trace_state cres" where
  "trace_print s t =
     (case tr_output t of None \<Rightarrow> Undef | Some f \<Rightarrow> Ret (t\<lparr>tr_output := Some (f @ s)\<rparr>))"

definition trace_start_location :: "trace_state \<Rightarrow> string \<Rightarrow> int \<Rightarrow> trace_state cres" where
  "trace_start_location t file line =
     (if tr_enabled t
      then let top = tr_top t + 1
           in if 0 \<le> top \<and> top < 128
              then Ret (t\<lparr>tr_top := top, tr_file_stack := (tr_file_stack t)[nat top := file],
                          tr_line_stack := (tr_line_stack t)[nat top := line]\<rparr>)
              else Undef
      else Ret t)"

definition trace_end_location :: "trace_state \<Rightarrow> u8 \<times> trace_state" where
  "trace_end_location t = (0, if tr_enabled t then t\<lparr>tr_top := tr_top t - 1\<rparr> else t)"

definition trace_print_location :: "trace_state \<Rightarrow> trace_state cres" where
  "trace_print_location t =
     (if tr_enabled t \<and> tr_flags t AND POSITION \<noteq> 0
      then if 0 \<le> tr_top t
           then cbind (table_entry (tr_file_stack t) (nat (tr_top t))) (\<lambda>file.
                cbind (table_entry (tr_line_stack t) (nat (tr_top t))) (\<lambda>line.
                  trace_print (file @ '', '' @ fmt_int line @ '': '') t))
           else Ret t
      else Ret t)"

definition trace_memory ::
    "bool \<Rightarrow> trace_state \<Rightarrow> u32 \<Rightarrow> u8 \<Rightarrow> u8 \<Rightarrow> u8 \<Rightarrow> u32 \<Rightarrow> u32 \<Rightarrow> trace_state cres" where
  "trace_memory fmt t cycle type sz cause address val =
     (if tr_enabled t \<and> tr_flags t AND MEMORY \<noteq> 0
      then let s = (if address = tr_last_address t + 4 then 1 else 0);
               t = t\<lparr>tr_last_address := address\<rparr>
           in cbind (table_entry (trace_memory_seq fmt) s) (\<lambda>seq.
              cbind (table_entry (trace_memory_type fmt) (unat type)) (\<lambda>ty.
              cbind (table_entry (trace_memory_cause fmt) (unat cause)) (\<lambda>ca.
                if fmt
                then trace_print (''M'' @ seq @ ty @ fmt_int (uint sz) @ ca @ ''__ '' @
                       fmt_hex True 8 (unat address) @ '' '' @ fmt_hex True 8 (unat val) @ [CHR 0x0A]) t
                else cbind (trace_print_location t) (trace_print
                       (''Cycle '' @ fmt_d cycle @ '', Mem '' @ seq @ ty @ '' ('' @ fmt_int (uint sz) @
                        '' bytes'' @ ca @ '') addr: '' @ fmt_hex True 8 (unat address) @ '', val: '' @
                        fmt_hex True 8 (unat val) @ [CHR 0x0A])))))
      else Ret t)"

text \<open>\<^verbatim>\<open>mode_name\<close> has 5 bytes, room for an underscore, three characters and the final NUL.\<close>

definition trace_register ::
    "bool \<Rightarrow> trace_state \<Rightarrow> u32 \<Rightarrow> u8 \<Rightarrow> u8 \<Rightarrow> u8 \<Rightarrow> u32 \<Rightarrow> trace_state cres" where
  "trace_register fmt t cycle type r mode val =
     (if tr_enabled t \<and> tr_flags t AND REGISTERS \<noteq> 0
      then cbind (arm_get_mode_name mode) (\<lambda>nm.
           cbind (case nm of None \<Rightarrow> Ret [] | Some n \<Rightarrow> if length n + 1 < 5 then Ret (''_'' @ n) else Undef)
             (\<lambda>mode_name.
           cbind (table_entry (trace_register_type fmt) (unat type)) (\<lambda>ty.
           cbind (arm_get_register_name r) (\<lambda>name.
             if fmt
             then trace_print (''R'' @ ty @ '' '' @ name @ mode_name @ '' '' @
                    fmt_hex True 8 (unat val) @ [CHR 0x0A]) t
             else cbind (trace_print_location t) (trace_print
                    (''Cycle '' @ fmt_d cycle @ '', Register '' @ ty @ '', '' @ name @ mode_name @
                     '', val: '' @ fmt_hex True 8 (unat val) @ [CHR 0x0A]))))))
      else Ret t)"

definition trace_disable :: "trace_state \<Rightarrow> trace_state" where
  "trace_disable t = t\<lparr>tr_enabled := False\<rparr>"

definition trace_enable :: "trace_state \<Rightarrow> trace_state" where
  "trace_enable t = t\<lparr>tr_enabled := True\<rparr>"

definition trace_add :: "trace_state \<Rightarrow> u32 \<Rightarrow> trace_state" where
  "trace_add t flags = t\<lparr>tr_flags := tr_flags t OR flags\<rparr>"

section \<open>Traced accesses\<close>

type_synonym 'a traced = "trace_state \<Rightarrow> ('a \<times> trace_state) cres"

text \<open>
  The macros of \<^verbatim>\<open>trace_location.h\<close>: a location is pushed before the access and popped again. Where an access has a
  result, the macro adds that of the pop to it, and C leaves open which of the two calls is made first:
  \<open>pop_first\<close> is the compiler's choice. The writes of registers, joined by commas, come before the pop.
\<close>

definition located :: "bool \<Rightarrow> string \<Rightarrow> int \<Rightarrow> 'a traced \<Rightarrow> 'a traced" where
  "located pop_first file line access t =
     cbind (trace_start_location t file line) (\<lambda>t.
       if pop_first then access (snd (trace_end_location t))
       else cbind (access t) (\<lambda>(v, t).
         Ret (v, snd (trace_end_location t))))"

definition traced_read_register :: "bool \<Rightarrow> u8 \<Rightarrow> arm_core \<Rightarrow> u32 traced" where
  "traced_read_register fmt n p t =
     (let val = arm_read_register p n
      in cbind (trace_register fmt t (cycle_count p) READ n (get_mode (core_reg p)) val) (\<lambda>t. Ret (val, t)))"

definition traced_read_usr_register :: "bool \<Rightarrow> u8 \<Rightarrow> arm_core \<Rightarrow> u32 traced" where
  "traced_read_usr_register fmt n p t =
     (let val = arm_read_usr_register p n
      in cbind (trace_register fmt t (cycle_count p) READ n USR val) (\<lambda>t. Ret (val, t)))"

definition traced_read_cpsr :: "bool \<Rightarrow> arm_core \<Rightarrow> u32 traced" where
  "traced_read_cpsr fmt p t =
     (let val = arm_read_cpsr p
      in cbind (trace_register fmt t (cycle_count p) READ CPSR 0 val) (\<lambda>t. Ret (val, t)))"

definition traced_read_spsr :: "bool \<Rightarrow> arm_core \<Rightarrow> u32 traced" where
  "traced_read_spsr fmt p t =
     (let val = arm_read_spsr p
      in cbind (trace_register fmt t (cycle_count p) READ SPSR (get_mode (core_reg p)) val) (\<lambda>t. Ret (val, t)))"

definition traced_write_register :: "bool \<Rightarrow> u8 \<Rightarrow> u32 \<Rightarrow> arm_core \<Rightarrow> arm_core traced" where
  "traced_write_register fmt n val p t =
     (let p = arm_write_register p n val
      in cbind (trace_register fmt t (cycle_count p) WRITE n (get_mode (core_reg p)) val) (\<lambda>t. Ret (p, t)))"

definition traced_write_usr_register :: "bool \<Rightarrow> u8 \<Rightarrow> u32 \<Rightarrow> arm_core \<Rightarrow> arm_core traced" where
  "traced_write_usr_register fmt n val p t =
     (let p = arm_write_usr_register p n val
      in cbind (trace_register fmt t (cycle_count p) WRITE n USR val) (\<lambda>t. Ret (p, t)))"

definition traced_write_cpsr :: "bool \<Rightarrow> u32 \<Rightarrow> arm_core \<Rightarrow> arm_core traced" where
  "traced_write_cpsr fmt val p t =
     (let p = arm_write_cpsr p val
      in cbind (trace_register fmt t (cycle_count p) WRITE CPSR 0 val) (\<lambda>t. Ret (p, t)))"

definition traced_write_spsr :: "bool \<Rightarrow> u32 \<Rightarrow> arm_core \<Rightarrow> arm_core traced" where
  "traced_write_spsr fmt val p t =
     (let p = arm_write_spsr p val
      in cbind (trace_register fmt t (cycle_count p) WRITE SPSR (get_mode (core_reg p)) val) (\<lambda>t. Ret (p, t)))"

text \<open>A refused read leaves \<open>junk\<close>, the caller's variable, to the trace.\<close>

definition traced_fetch :: "bool \<Rightarrow> u32 \<Rightarrow> arm_core \<Rightarrow> (u32 option \<times> arm_core) traced" where
  "traced_fetch fmt junk p t =
     (let p = p\<lparr>cycle_count := cycle_count p + 1\<rparr>
      in cbind (traced_read_register fmt 15 p t) (\<lambda>(pc, t).
         let address = pc - 4
         in cbind (memory_read_word build_host (core_mem p) address) (\<lambda>val.
            cbind (trace_memory fmt t (cycle_count p) READ 4 OPCODE_FETCH address
                    (case val of Some v \<Rightarrow> v | None \<Rightarrow> junk)) (\<lambda>t.
            cbind (traced_write_register fmt 15 (address + 4) p t) (\<lambda>(p, t).
              Ret ((val, p), t))))))"

definition traced_read_byte :: "bool \<Rightarrow> u8 \<Rightarrow> u32 \<Rightarrow> arm_core \<Rightarrow> u8 option traced" where
  "traced_read_byte fmt junk address p t =
     cbind (memory_read_byte (core_mem p) address) (\<lambda>val.
     cbind (trace_memory fmt t (cycle_count p) READ 1 OTHER_ACCESS address
             (ucast (case val of Some v \<Rightarrow> v | None \<Rightarrow> junk))) (\<lambda>t. Ret (val, t)))"

definition traced_read_half :: "bool \<Rightarrow> u16 \<Rightarrow> u32 \<Rightarrow> arm_core \<Rightarrow> u16 option traced" where
  "traced_read_half fmt junk address p t =
     cbind (memory_read_half build_host (core_mem p) address) (\<lambda>val.
     cbind (trace_memory fmt t (cycle_count p) READ 2 OTHER_ACCESS address
             (ucast (case val of Some v \<Rightarrow> v | None \<Rightarrow> junk))) (\<lambda>t. Ret (val, t)))"

definition traced_read_word :: "bool \<Rightarrow> u32 \<Rightarrow> u32 \<Rightarrow> arm_core \<Rightarrow> u32 option traced" where
  "traced_read_word fmt junk address p t =
     cbind (memory_read_word build_host (core_mem p) address) (\<lambda>val.
     cbind (trace_memory fmt t (cycle_count p) READ 4 OTHER_ACCESS address
             (case val of Some v \<Rightarrow> v | None \<Rightarrow> junk)) (\<lambda>t. Ret (val, t)))"

definition traced_write_byte :: "bool \<Rightarrow> u32 \<Rightarrow> u8 \<Rightarrow> arm_core \<Rightarrow> (int \<times> arm_core) traced" where
  "traced_write_byte fmt address val p t =
     cbind (arm_write_byte p address val) (\<lambda>r.
     cbind (trace_memory fmt t (cycle_count p) WRITE 1 OTHER_ACCESS address (ucast val)) (\<lambda>t. Ret (r, t)))"

definition traced_write_half :: "bool \<Rightarrow> u32 \<Rightarrow> u16 \<Rightarrow> arm_core \<Rightarrow> (int \<times> arm_core) traced" where
  "traced_write_half fmt address val p t =
     cbind (arm_write_half p address val) (\<lambda>r.
     cbind (trace_memory fmt t (cycle_count p) WRITE 2 OTHER_ACCESS address (ucast val)) (\<lambda>t. Ret (r, t)))"

definition traced_write_word :: "bool \<Rightarrow> u32 \<Rightarrow> u32 \<Rightarrow> arm_core \<Rightarrow> (int \<times> arm_core) traced" where
  "traced_write_word fmt address val p t =
     cbind (arm_write_word p address val) (\<lambda>r.
     cbind (trace_memory fmt t (cycle_count p) WRITE 4 OTHER_ACCESS address val) (\<lambda>t. Ret (r, t)))"

section \<open>The dump of the processor\<close>

fun for_each :: "('i \<Rightarrow> 's \<Rightarrow> 's cres) \<Rightarrow> 'i list \<Rightarrow> 's \<Rightarrow> 's cres" where
  "for_each body [] s = Ret s"
| "for_each body (i # is) s = cbind (body i s) (for_each body is)"

definition print_register :: "string \<Rightarrow> u32 \<Rightarrow> string" where
  "print_register name val = ''   '' @ pad_left CHR '' '' 3 name @ ''='' @ fmt_hex True 8 (unat val)"

text \<open>The body of the inner loop, with the counter that breaks the lines of the modes other than user mode.\<close>

definition dump_register :: "bool \<Rightarrow> arm_core \<Rightarrow> u8 \<Rightarrow> nat \<Rightarrow> nat \<times> trace_state \<Rightarrow> (nat \<times> trace_state) cres" where
  "dump_register fmt p mode r ct =
     (case ct of (count, t) \<Rightarrow>
        if mode = USR
        then cbind (if 0 < r \<and> r mod 5 = 0 then trace_print (CHR 0x0A # ''    '') t else Ret t) (\<lambda>t.
             cbind (arm_get_register_name (of_nat r)) (\<lambda>name.
             cbind (traced_read_usr_register fmt (of_nat r) p t) (\<lambda>(val, t).
             cbind (trace_print (print_register name val) t) (\<lambda>t. Ret (count, t)))))
        else cbind (if 0 < count \<and> count mod 5 = 0 then trace_print (CHR 0x0A # ''    '') t else Ret t) (\<lambda>t.
             cbind (arm_get_register_name (of_nat r)) (\<lambda>name.
             cbind (traced_read_register fmt (of_nat r) p t) (\<lambda>(val, t).
             cbind (trace_print (print_register name val) t) (\<lambda>t. Ret (count + 1, t))))))"

definition dump_mode :: "bool \<Rightarrow> arm_core \<Rightarrow> nat \<Rightarrow> trace_state \<Rightarrow> trace_state cres" where
  "dump_mode fmt p m t =
     (let mode = of_nat m
      in cbind (arm_get_mode_name mode) (\<lambda>nm.
         case nm of
           None \<Rightarrow> Ret t
         | Some name \<Rightarrow>
             cbind (if mode \<noteq> SYS then trace_print (name @ '':'') t else Ret t) (\<lambda>t.
             cbind (for_each (dump_register fmt p mode) [0..<16] (0, t)) (\<lambda>(count, t).
             cbind (if mode = USR
                    then cbind (traced_read_cpsr fmt p t) (\<lambda>(val, t).
                         trace_print (''  CPSR='' @ fmt_hex True 8 (unat val)) t)
                    else Ret t) (\<lambda>t.
               if mode \<in> {USR, FIQ, SVC, UND} then trace_print [CHR 0x0A] t
               else if mode \<in> {IRQ, ABT} then trace_print (replicate 10 CHR '' '') t
               else Ret t)))))"

definition arm_print_state :: "bool \<Rightarrow> arm_core \<Rightarrow> trace_state \<Rightarrow> trace_state cres" where
  "arm_print_state fmt p t = for_each (dump_mode fmt p) [0..<32] t"

definition trace_arm_state :: "bool \<Rightarrow> arm_core \<Rightarrow> trace_state \<Rightarrow> trace_state cres" where
  "trace_arm_state fmt p t =
     (if tr_enabled t \<and> tr_flags t AND STATE \<noteq> 0 then arm_print_state fmt p t else Ret t)"


section \<open>The trace only grows\<close>

definition tr_wf :: "trace_state \<Rightarrow> bool" where
  "tr_wf t \<longleftrightarrow> tr_output t \<noteq> None \<and> length (tr_file_stack t) = 128 \<and> length (tr_line_stack t) = 128 \<and>
     - 1 \<le> tr_top t \<and> tr_top t < 128"

text \<open>The locations that are open, with the switches of the trace.\<close>

definition tr_view :: "trace_state \<Rightarrow> (string \<times> int) list \<times> bool \<times> u32" where
  "tr_view t = (take (nat (tr_top t + 1)) (zip (tr_file_stack t) (tr_line_stack t)), tr_enabled t, tr_flags t)"

definition logged :: "trace_state \<Rightarrow> string \<Rightarrow> u32 \<Rightarrow> trace_state" where
  "logged t s la = t\<lparr>tr_output := map_option (\<lambda>f. f @ s) (tr_output t), tr_last_address := la\<rparr>"

lemma logged_sel [simp]:
  "tr_output (logged t s la) = map_option (\<lambda>f. f @ s) (tr_output t)"
  "tr_last_address (logged t s la) = la" "tr_enabled (logged t s la) = tr_enabled t"
  "tr_file_stack (logged t s la) = tr_file_stack t" "tr_line_stack (logged t s la) = tr_line_stack t"
  "tr_top (logged t s la) = tr_top t" "tr_flags (logged t s la) = tr_flags t"
  by (simp_all add: logged_def)

lemma logged_wf [simp]: "tr_wf (logged t s la) = tr_wf t" "tr_view (logged t s la) = tr_view t"
  by (simp_all add: tr_wf_def tr_view_def)

lemma logged_logged [simp]: "logged (logged t s la) s' la' = logged t (s @ s') la'"
  by (cases "tr_output t") (simp_all add: logged_def)

lemma logged_Nil: "logged t [] (tr_last_address t) = t"
  by (cases "tr_output t") (simp_all add: logged_def)

definition logs :: "trace_state cres \<Rightarrow> trace_state \<Rightarrow> bool" where
  "logs r t \<longleftrightarrow> (\<exists>s la. r = Ret (logged t s la))"

lemma logs_Ret [simp, intro]: "logs (Ret t) t"
  unfolding logs_def using logged_Nil by metis

lemma logs_print [intro]: "tr_wf t \<Longrightarrow> logs (trace_print s t) t"
proof -
  assume "tr_wf t"
  then obtain f where "tr_output t = Some f" by (auto simp: tr_wf_def)
  then have "trace_print s t = Ret (logged t s (tr_last_address t))"
    by (simp add: trace_print_def logged_def)
  then show ?thesis by (auto simp: logs_def)
qed

lemma logs_cbind:
  assumes "logs r t" and "\<And>s la. logs (f (logged t s la)) (logged t s la)"
  shows "logs (cbind r f) t"
proof -
  from assms(1) obtain s la where r: "r = Ret (logged t s la)" by (auto simp: logs_def)
  from assms(2) [of s la] show ?thesis unfolding r by (auto simp: logs_def)
qed

lemma logs_last_address: "logs r (t\<lparr>tr_last_address := a\<rparr>) \<Longrightarrow> logs r t"
  by (auto simp: logs_def logged_def)

lemma tr_wf_last_address [simp]: "tr_wf (t\<lparr>tr_last_address := a\<rparr>) = tr_wf t"
  by (simp add: tr_wf_def)

lemma table_entry_Ret: "i < length xs \<Longrightarrow> table_entry xs i = Ret (xs ! i)"
  by (simp add: table_entry_def)

lemma trace_tables [simp]:
  "length (trace_memory_seq fmt) = 2" "length (trace_memory_cause fmt) = 2"
  "length (trace_memory_type fmt) = 2" "length (trace_register_type fmt) = 2"
  by (simp_all add: trace_table_defs)

lemma logs_print_location [intro]: "tr_wf t \<Longrightarrow> logs (trace_print_location t) t"
  by (auto simp: trace_print_location_def table_entry_Ret tr_wf_def nat_less_iff
      intro!: logs_print [unfolded tr_wf_def])

lemma logs_location_line: "tr_wf t \<Longrightarrow> logs (cbind (trace_print_location t) (trace_print s)) t"
  by (rule logs_cbind) auto

lemma logs_memory:
  assumes "tr_wf t" and "type < 2" and "cause < 2"
  shows "logs (trace_memory fmt t cycle type sz cause address val) t"
proof -
  have i: "unat type < 2" "unat cause < 2" using assms(2,3) by (simp_all add: word_less_nat_alt)
  show ?thesis
    unfolding trace_memory_def
    by (auto simp: Let_def table_entry_Ret i assms(1)
        intro!: logs_last_address [where a = address] logs_print logs_location_line)
qed

lemma mode_name_length:
  assumes "mode < 32"
  shows "\<exists>nm. arm_get_mode_name mode = Ret nm \<and> (\<forall>n. nm = Some n \<longrightarrow> length n = 3)"
proof -
  have "list_all (\<lambda>nm. case nm of None \<Rightarrow> True | Some n \<Rightarrow> length n = 3) arm_mode_names" by code_simp
  moreover have "length arm_mode_names = 32" by (simp add: arm_mode_names_def)
  moreover have "unat mode < 32" using assms by (simp add: word_less_nat_alt)
  ultimately show ?thesis
    by (fastforce simp: arm_get_mode_name_def table_entry_Ret list_all_length split: option.splits)
qed

lemma register_name_defined: "r < 18 \<Longrightarrow> \<exists>n. arm_get_register_name r = Ret n"
  by (simp add: arm_get_register_name_def table_entry_def arm_register_names_def word_less_nat_alt)

text \<open>The registers with a name, or any while the trace of registers is off.\<close>

definition register_named :: "u8 \<Rightarrow> bool \<Rightarrow> u32 \<Rightarrow> bool" where
  "register_named r enabled flags \<longleftrightarrow> r < 18 \<or> \<not> (enabled \<and> flags AND REGISTERS \<noteq> 0)"

lemma unnamed_register:
  assumes "\<not> register_named r (tr_enabled t) (tr_flags t)" and "type < 2" and "mode < 32"
  shows "trace_register fmt t cycle type r mode val = Undef"
proof -
  have "unat type < 2" "\<not> unat r < 18" using assms(1,2) by (simp_all add: register_named_def word_less_nat_alt)
  moreover obtain nm where "arm_get_mode_name mode = Ret nm" "\<forall>n. nm = Some n \<longrightarrow> length n = 3"
    using mode_name_length assms(3) by blast
  ultimately show ?thesis
    using assms(1)
    by (cases nm) (auto simp: trace_register_def register_named_def table_entry_Ret arm_get_register_name_def
        arm_register_names_def table_entry_def)
qed

lemma logs_register:
  assumes "tr_wf t" and "type < 2" and named: "register_named r (tr_enabled t) (tr_flags t)" and "mode < 32"
  shows "logs (trace_register fmt t cycle type r mode val) t"
proof (cases "tr_enabled t \<and> tr_flags t AND REGISTERS \<noteq> 0")
  case False
  then show ?thesis by (auto simp: trace_register_def)
next
  case True
  then have "r < 18" using named by (simp add: register_named_def)
  have i: "unat type < 2" using assms(2) by (simp add: word_less_nat_alt)
  obtain n where n: "arm_get_register_name r = Ret n" using register_name_defined \<open>r < 18\<close> by blast
  obtain nm where nm: "arm_get_mode_name mode = Ret nm" "\<forall>n. nm = Some n \<longrightarrow> length n = 3"
    using mode_name_length assms(4) by blast
  show ?thesis
    unfolding trace_register_def
    by (cases nm) (auto simp: table_entry_Ret i n nm assms(1) intro!: logs_print logs_location_line)
qed

section \<open>The interface of a traced access\<close>

locale traced_access =
  fixes run :: "arm_core \<Rightarrow> 'a traced"
    and plain :: "arm_core \<Rightarrow> 'a cres"
    and ok :: "bool \<Rightarrow> u32 \<Rightarrow> bool"
  assumes run_logs: "core_wf p \<Longrightarrow> tr_wf t \<Longrightarrow> ok (tr_enabled t) (tr_flags t) \<Longrightarrow> \<exists>r s la. plain p = Ret r \<and> run p t = Ret (r, logged t s la)"

lemma start_location_view:
  assumes "tr_wf t" and "tr_enabled t \<longrightarrow> tr_top t < 127"
  obtains u where "trace_start_location t file line = Ret u" and "tr_wf u"
    and "tr_top u = (if tr_enabled t then tr_top t + 1 else tr_top t)"
    and "tr_enabled u = tr_enabled t" and "tr_flags u = tr_flags t" and "tr_output u = tr_output t"
    and "tr_wf (snd (trace_end_location u))"
    and "\<And>s la. tr_view (snd (trace_end_location (logged u s la))) = tr_view t"
proof (cases "tr_enabled t")
  case True
  have top: "0 \<le> tr_top t + 1" "tr_top t + 1 < 128" using assms True by (auto simp: tr_wf_def)
  let ?n = "nat (tr_top t + 1)"
  let ?u = "t\<lparr>tr_top := tr_top t + 1, tr_file_stack := (tr_file_stack t)[?n := file],
              tr_line_stack := (tr_line_stack t)[?n := line]\<rparr>"
  show thesis
  proof (rule that)
    show "trace_start_location t file line = Ret ?u"
      using top True by (simp add: trace_start_location_def Let_def)
    show "tr_wf ?u" "tr_wf (snd (trace_end_location ?u))"
      using top assms(1) True by (simp_all add: tr_wf_def trace_end_location_def)
    show "tr_view (snd (trace_end_location (logged ?u s la))) = tr_view t" for s la
      using True by (simp add: tr_view_def trace_end_location_def zip_update)
  qed (use True in simp_all)
next
  case False
  show thesis
    by (rule that [of t]) (use False assms(1) in \<open>simp_all add: trace_start_location_def trace_end_location_def\<close>)
qed

lemma end_location_sel [simp]:
  "tr_enabled (snd (trace_end_location t)) = tr_enabled t" "tr_flags (snd (trace_end_location t)) = tr_flags t"
  "tr_output (snd (trace_end_location t)) = tr_output t"
  by (simp_all add: trace_end_location_def)

context traced_access
begin

lemma located_run:
  assumes "core_wf p" and "tr_wf t" and "tr_enabled t \<longrightarrow> tr_top t < 127" and "ok (tr_enabled t) (tr_flags t)"
  shows "\<exists>r t' s. plain p = Ret r \<and> located first file line (run p) t = Ret (r, t') \<and> tr_view t' = tr_view t \<and>
    tr_output t' = map_option (\<lambda>f. f @ s) (tr_output t)"
proof -
  obtain u where u: "trace_start_location t file line = Ret u" "tr_wf u" "tr_enabled u = tr_enabled t"
    "tr_flags u = tr_flags t" "tr_output u = tr_output t" "tr_wf (snd (trace_end_location u))"
    and view: "\<And>s la. tr_view (snd (trace_end_location (logged u s la))) = tr_view t"
    using start_location_view [OF assms(2,3), of "file" line] by metis
  show ?thesis
  proof (cases first)
    case True
    let ?v = "snd (trace_end_location u)"
    from run_logs [OF assms(1) u(6)] assms(4) obtain r s la where "plain p = Ret r" "run p ?v = Ret (r, logged ?v s la)"
      by (auto simp: u)
    moreover have "tr_view ?v = tr_view t" using view [of "[]" "tr_last_address u"] by (simp only: logged_Nil)
    ultimately show ?thesis using True u(1,5) by (auto simp: located_def)
  next
    case False
    from run_logs [OF assms(1) u(2)] assms(4) obtain r s la where "plain p = Ret r" "run p u = Ret (r, logged u s la)"
      by (auto simp: u)
    with False u(1,5) view show ?thesis by (auto simp: located_def)
  qed
qed

text \<open>The 129th nested location is written past the end of the stacks.\<close>

lemma located_overflow: "tr_enabled t \<Longrightarrow> tr_top t = 127 \<Longrightarrow> located first file line (run p) t = Undef"
  by (simp add: located_def trace_start_location_def Let_def)

end


section \<open>The accesses of the processor\<close>

lemma logs_result: "logs r t \<Longrightarrow> \<exists>s la. cbind r (\<lambda>t. Ret (v, t)) = Ret (v, logged t s la)"
  by (auto simp: logs_def)

lemma core_mode: "core_wf p \<Longrightarrow> get_mode (core_reg p) < 32"
  by (simp add: core_wf_def USR_def)

lemma USR_less: "USR < 32"
  by (simp add: USR_def)

lemma status_named: "register_named 16 enabled flags" "register_named 17 enabled flags" "register_named 15 enabled flags"
  by (simp_all add: register_named_def)

lemmas traced_register_defs = traced_read_register_def traced_read_usr_register_def traced_read_cpsr_def
  traced_read_spsr_def traced_write_register_def traced_write_usr_register_def traced_write_cpsr_def
  traced_write_spsr_def
lemmas traced_register_intros = logs_result logs_register core_mode USR_less status_named
lemmas traced_memory_defs = traced_read_byte_def traced_read_half_def traced_read_word_def
  traced_write_byte_def traced_write_half_def traced_write_word_def

interpretation read_register: traced_access "traced_read_register fmt r"
    "\<lambda>p. Ret (arm_read_register p r)" "register_named r" for fmt r
  by unfold_locales (auto simp: Let_def traced_register_defs READ_def simp del: cbind_eq_Ret intro!: traced_register_intros)

interpretation read_usr_register: traced_access "traced_read_usr_register fmt r"
    "\<lambda>p. Ret (arm_read_usr_register p r)" "register_named r" for fmt r
  by unfold_locales (auto simp: Let_def traced_register_defs READ_def simp del: cbind_eq_Ret intro!: traced_register_intros)

interpretation read_cpsr: traced_access "traced_read_cpsr fmt" "\<lambda>p. Ret (arm_read_cpsr p)" "\<lambda>_ _. True" for fmt
  by unfold_locales (auto simp: Let_def traced_register_defs READ_def CPSR_def simp del: cbind_eq_Ret intro!: traced_register_intros)

interpretation read_spsr: traced_access "traced_read_spsr fmt" "\<lambda>p. Ret (arm_read_spsr p)" "\<lambda>_ _. True" for fmt
  by unfold_locales (auto simp: Let_def traced_register_defs READ_def SPSR_def simp del: cbind_eq_Ret intro!: traced_register_intros)

interpretation write_register: traced_access "traced_write_register fmt r v"
    "\<lambda>p. Ret (arm_write_register p r v)" "register_named r" for fmt r v
  by unfold_locales (auto simp: Let_def traced_register_defs WRITE_def simp del: cbind_eq_Ret intro!: traced_register_intros)

interpretation write_usr_register: traced_access "traced_write_usr_register fmt r v"
    "\<lambda>p. Ret (arm_write_usr_register p r v)" "register_named r" for fmt r v
  by unfold_locales (auto simp: Let_def traced_register_defs WRITE_def simp del: cbind_eq_Ret intro!: traced_register_intros)

interpretation write_cpsr: traced_access "traced_write_cpsr fmt v" "\<lambda>p. Ret (arm_write_cpsr p v)" "\<lambda>_ _. True" for fmt v
  by unfold_locales (auto simp: Let_def traced_register_defs WRITE_def CPSR_def simp del: cbind_eq_Ret intro!: traced_register_intros)

interpretation write_spsr: traced_access "traced_write_spsr fmt v" "\<lambda>p. Ret (arm_write_spsr p v)" "\<lambda>_ _. True" for fmt v
  by unfold_locales (auto simp: Let_def traced_register_defs WRITE_def SPSR_def simp del: cbind_eq_Ret intro!: traced_register_intros)

lemmas traced_memory_simps = core_reads_wf [unfolded arm_read_word_def arm_read_half_def arm_read_byte_def]
  core_reads_wf core_writes_wf

interpretation read_byte: traced_access "traced_read_byte fmt junk a" "\<lambda>p. arm_read_byte p a" "\<lambda>_ _. True" for fmt junk a
  by unfold_locales
    (auto simp: traced_memory_defs traced_memory_simps trace_kind_defs simp del: cbind_eq_Ret
      intro!: logs_result logs_memory)

interpretation read_half: traced_access "traced_read_half fmt junk a" "\<lambda>p. arm_read_half p a" "\<lambda>_ _. True" for fmt junk a
  by unfold_locales
    (auto simp: traced_memory_defs traced_memory_simps trace_kind_defs simp del: cbind_eq_Ret
      intro!: logs_result logs_memory)

interpretation read_word: traced_access "traced_read_word fmt junk a" "\<lambda>p. arm_read_word p a" "\<lambda>_ _. True" for fmt junk a
  by unfold_locales
    (auto simp: traced_memory_defs traced_memory_simps trace_kind_defs simp del: cbind_eq_Ret
      intro!: logs_result logs_memory)

interpretation write_byte: traced_access "traced_write_byte fmt a b" "\<lambda>p. arm_write_byte p a b" "\<lambda>_ _. True" for fmt a b
  by unfold_locales
    (auto simp: traced_memory_defs traced_memory_simps trace_kind_defs simp del: cbind_eq_Ret
      intro!: logs_result logs_memory)

interpretation write_half: traced_access "traced_write_half fmt a h" "\<lambda>p. arm_write_half p a h" "\<lambda>_ _. True" for fmt a h
  by unfold_locales
    (auto simp: traced_memory_defs traced_memory_simps trace_kind_defs simp del: cbind_eq_Ret
      intro!: logs_result logs_memory)

interpretation write_word: traced_access "traced_write_word fmt a v" "\<lambda>p. arm_write_word p a v" "\<lambda>_ _. True" for fmt a v
  by unfold_locales
    (auto simp: traced_memory_defs traced_memory_simps trace_kind_defs simp del: cbind_eq_Ret
      intro!: logs_result logs_memory)

lemma traced_fetch_logs:
  assumes "core_wf p" and "tr_wf t"
  shows "\<exists>r s la. arm_fetch p = Ret r \<and> traced_fetch fmt junk p t = Ret (r, logged t s la)"
proof -
  define q where "q = p\<lparr>cycle_count := cycle_count p + 1\<rparr>"
  have q: "core_wf q" using assms(1) by (simp add: q_def)
  define a where "a = arm_read_register q 15 - 4"
  have a4: "a + 4 = arm_read_register q 15" by (simp add: a_def)
  have val: "memory_read_word build_host (core_mem q) a = Ret (word_at q a)"
    using core_reads_wf(1) [OF q] by (simp add: arm_read_word_def)
  obtain s1 l1 where s1: "traced_read_register fmt 15 q t = Ret (arm_read_register q 15, logged t s1 l1)"
    using read_register.run_logs [OF q assms(2) status_named(3), where fmt = fmt] by auto
  let ?v = "case word_at q a of Some v \<Rightarrow> v | None \<Rightarrow> junk"
  have "logs (trace_memory fmt (logged t s1 l1) (cycle_count q) READ 4 OPCODE_FETCH a ?v) (logged t s1 l1)"
    using assms(2) by (intro logs_memory) (simp_all add: trace_kind_defs)
  then obtain s2 l2 where s2: "trace_memory fmt (logged t s1 l1) (cycle_count q) READ 4 OPCODE_FETCH a ?v =
      Ret (logged t (s1 @ s2) l2)" by (auto simp: logs_def)
  have "tr_wf (logged t (s1 @ s2) l2)" using assms(2) by simp
  from write_register.run_logs [OF q this status_named(3), where fmt = fmt and v = "a + 4"]
  obtain s3 l3 where s3: "traced_write_register fmt 15 (a + 4) q (logged t (s1 @ s2) l2) =
      Ret (arm_write_register q 15 (a + 4), logged t ((s1 @ s2) @ s3) l3)" by auto
  have "traced_fetch fmt junk p t =
      Ret ((word_at q a, arm_write_register q 15 (a + 4)), logged t ((s1 @ s2) @ s3) l3)"
    unfolding traced_fetch_def q_def [symmetric] Let_def by (simp add: s1 val s2 s3 [unfolded a4] a4 flip: a_def)
  moreover have "arm_fetch p = Ret (word_at q a, arm_write_register q 15 (a + 4))"
    unfolding arm_fetch_def q_def [symmetric] Let_def by (simp add: val a4 flip: a_def)
  ultimately show ?thesis by blast
qed

interpretation fetch: traced_access "traced_fetch fmt junk" arm_fetch "\<lambda>_ _. True" for fmt junk
  by unfold_locales (rule traced_fetch_logs)

section \<open>Transparency\<close>

definition transparent :: "bool \<Rightarrow> string \<Rightarrow> int \<Rightarrow> 'a traced \<Rightarrow> 'a cres \<Rightarrow> trace_state \<Rightarrow> bool" where
  "transparent first file line access plain t \<longleftrightarrow>
     (\<exists>r t' s. plain = Ret r \<and> located first file line access t = Ret (r, t') \<and> tr_view t' = tr_view t \<and>
        tr_output t' = map_option (\<lambda>f. f @ s) (tr_output t))"

lemma named_transparent:
  assumes "core_wf p" and "tr_wf t" and "tr_enabled t \<longrightarrow> tr_top t < 127"
    and "register_named n (tr_enabled t) (tr_flags t)"
  shows "transparent first file line (traced_read_register fmt n p) (Ret (arm_read_register p n)) t"
    and "transparent first file line (traced_read_usr_register fmt n p) (Ret (arm_read_usr_register p n)) t"
    and "transparent first file line (traced_write_register fmt n v p) (Ret (arm_write_register p n v)) t"
    and "transparent first file line (traced_write_usr_register fmt n v p) (Ret (arm_write_usr_register p n v)) t"
  unfolding transparent_def
  by (rule read_register.located_run [OF assms] read_usr_register.located_run [OF assms]
      write_register.located_run [OF assms] write_usr_register.located_run [OF assms])+

lemma unnamed_undefined:
  assumes "core_wf p" and "tr_wf t" and "tr_enabled t \<longrightarrow> tr_top t < 127"
    and "\<not> register_named n (tr_enabled t) (tr_flags t)"
  shows "located first file line (traced_read_register fmt n p) t = Undef"
    and "located first file line (traced_read_usr_register fmt n p) t = Undef"
    and "located first file line (traced_write_register fmt n v p) t = Undef"
    and "located first file line (traced_write_usr_register fmt n v p) t = Undef"
proof -
  obtain u where u: "trace_start_location t file line = Ret u" "tr_enabled u = tr_enabled t" "tr_flags u = tr_flags t"
    using start_location_view [OF assms(2,3), of "file" line] by metis
  have n: "\<not> register_named n (tr_enabled w) (tr_flags w) \<Longrightarrow> trace_register fmt w cycle type n mode val = Undef"
    if "type = READ \<or> type = WRITE" "mode < 32" for w cycle type mode val
    using that by (intro unnamed_register) (auto simp: READ_def WRITE_def)
  show "located first file line (traced_read_register fmt n p) t = Undef"
    "located first file line (traced_read_usr_register fmt n p) t = Undef"
    "located first file line (traced_write_register fmt n v p) t = Undef"
    "located first file line (traced_write_usr_register fmt n v p) t = Undef"
    using assms(1,4) u by (simp_all add: located_def traced_register_defs Let_def n core_mode USR_less)
qed

text \<open>
  Property C16: the trace is transparent. On a well-formed processor, with a trace file set and room for
  one more location, each of the fifteen macros of \<^verbatim>\<open>trace_location.h\<close> returns, computes what the
  access computes without a trace, leaves the open locations and the switches of the trace as they
  were, and only appends to the trace file; where C leaves the order of access and pop open, in both orders. The
  register accesses take any byte as the number: they do so for a register that has a name, and for every number while the trace
  of registers is off; with it on, a number above 17 reads past the table of names.
\<close>

theorem tracing_is_transparent:
  assumes "core_wf p" and "tr_wf t" and "tr_enabled t \<longrightarrow> tr_top t < 127"
  shows "(register_named n (tr_enabled t) (tr_flags t) \<longrightarrow>
      transparent first file line (traced_read_register fmt n p) (Ret (arm_read_register p n)) t \<and>
      transparent first file line (traced_read_usr_register fmt n p) (Ret (arm_read_usr_register p n)) t \<and>
      transparent False file line (traced_write_register fmt n v p) (Ret (arm_write_register p n v)) t \<and>
      transparent False file line (traced_write_usr_register fmt n v p) (Ret (arm_write_usr_register p n v)) t) \<and>
    (\<not> register_named n (tr_enabled t) (tr_flags t) \<longrightarrow>
      located first file line (traced_read_register fmt n p) t = Undef \<and>
      located first file line (traced_read_usr_register fmt n p) t = Undef \<and>
      located False file line (traced_write_register fmt n v p) t = Undef \<and>
      located False file line (traced_write_usr_register fmt n v p) t = Undef) \<and>
    transparent first file line (traced_fetch fmt junk p) (arm_fetch p) t \<and>
    transparent first file line (traced_read_cpsr fmt p) (Ret (arm_read_cpsr p)) t \<and>
    transparent first file line (traced_read_spsr fmt p) (Ret (arm_read_spsr p)) t \<and>
    transparent False file line (traced_write_cpsr fmt v p) (Ret (arm_write_cpsr p v)) t \<and>
    transparent False file line (traced_write_spsr fmt v p) (Ret (arm_write_spsr p v)) t \<and>
    transparent first file line (traced_read_word fmt junk a p) (arm_read_word p a) t \<and>
    transparent first file line (traced_write_word fmt a v p) (arm_write_word p a v) t \<and>
    transparent first file line (traced_read_half fmt junk' a p) (arm_read_half p a) t \<and>
    transparent first file line (traced_write_half fmt a h p) (arm_write_half p a h) t \<and>
    transparent first file line (traced_read_byte fmt junk'' a p) (arm_read_byte p a) t \<and>
    transparent first file line (traced_write_byte fmt a b p) (arm_write_byte p a b) t"
proof -
  note always = assms TrueI
  note located_runs = fetch.located_run [OF always] read_cpsr.located_run [OF always] read_spsr.located_run [OF always]
    write_cpsr.located_run [OF always] write_spsr.located_run [OF always] read_word.located_run [OF always]
    write_word.located_run [OF always] read_half.located_run [OF always] write_half.located_run [OF always]
    read_byte.located_run [OF always] write_byte.located_run [OF always]
  show ?thesis
    by (intro conjI impI named_transparent [OF assms] unnamed_undefined [OF assms]
        located_runs [folded transparent_def])
qed

text \<open>The trace as the simulator starts it: a file without text and every switch on.\<close>

definition sample_trace :: trace_state where
  "sample_trace = trace_add (set_trace_file trace_initial []) 0xF"

lemma sample_trace_wf: "tr_wf sample_trace" "tr_enabled sample_trace" "tr_top sample_trace = - 1"
  by (simp_all add: sample_trace_def trace_add_def set_trace_file_def trace_initial_def tr_wf_def)

theorem tracing_is_transparent_witness:
  "transparent True ''arm_instruction.c'' 33 (traced_fetch False 0 sample_core) (arm_fetch sample_core) sample_trace \<and>
   transparent False ''arm_data_processing.c'' 240 (traced_write_register False 3 7 sample_core)
     (Ret (arm_write_register sample_core 3 7)) sample_trace \<and>
   located False ''arm_data_processing.c'' 240 (traced_write_register False 200 7 sample_core) sample_trace = Undef"
proof -
  have named: "register_named 3 (tr_enabled sample_trace) (tr_flags sample_trace)"
    "\<not> register_named 200 (tr_enabled sample_trace) (tr_flags sample_trace)"
    by (simp_all add: register_named_def sample_trace_def trace_add_def set_trace_file_def trace_initial_def REGISTERS_def)
  have t: "tr_enabled sample_trace \<longrightarrow> tr_top sample_trace < 127" using sample_trace_wf(3) by simp
  show ?thesis
    using tracing_is_transparent [OF sample_core_wf sample_trace_wf(1) t] named by blast
qed

section \<open>The stack of locations\<close>

primrec nested :: "nat \<Rightarrow> 'a traced \<Rightarrow> 'a traced" where
  "nested 0 access = access"
| "nested (Suc n) access = located False ''arm.c'' 1 (nested n access)"

lemma nested_run:
  assumes "core_wf p" and "tr_wf t" and "tr_enabled t"
  shows "if tr_top t + int n < 128 then \<exists>t'. nested n (traced_read_cpsr fmt p) t = Ret (arm_read_cpsr p, t')
    else nested n (traced_read_cpsr fmt p) t = Undef"
  using assms(2,3)
proof (induction n arbitrary: t)
  case 0
  then have "tr_top t < 128" by (simp add: tr_wf_def)
  with read_cpsr.run_logs [OF assms(1) 0(1) TrueI, of fmt] show ?case by fastforce
next
  case (Suc n)
  show ?case
  proof (cases "tr_top t = 127")
    case True
    with Suc.prems show ?thesis by (simp add: located_def trace_start_location_def Let_def)
  next
    case False
    with Suc.prems have top: "tr_top t < 127" by (simp add: tr_wf_def)
    obtain u where u: "trace_start_location t ''arm.c'' 1 = Ret u" "tr_wf u" "tr_top u = tr_top t + 1"
      "tr_enabled u"
      using start_location_view [OF Suc.prems(1) impI [OF top], of "''arm.c''" 1] Suc.prems(2) by metis
    have "tr_top u + int n = tr_top t + int (Suc n)" using u(3) by simp
    with Suc.IH [OF u(2,4)] u(1) show ?thesis by (auto simp: located_def split: if_splits)
  qed
qed

text \<open>
  Fact: the stack of locations holds 128 of them. An access inside \<open>n\<close> nested locations, from an
  empty stack, has a meaning exactly when \<open>n \<le> 128\<close>, and then it returns what the access returns; one
  more writes past the end of the arrays, since \<^verbatim>\<open>trace_start_location\<close> does not test the index.
\<close>

theorem location_stack_capacity:
  assumes "core_wf p" and "tr_wf t" and "tr_enabled t" and "tr_top t = - 1"
  shows "if n \<le> 128 then \<exists>t'. nested n (traced_read_cpsr fmt p) t = Ret (arm_read_cpsr p, t')
    else nested n (traced_read_cpsr fmt p) t = Undef"
  using nested_run [OF assms(1-3), of n fmt] assms(4) by (auto split: if_splits)

theorem location_stack_capacity_witness:
  "nested 129 (traced_read_cpsr False sample_core) sample_trace = Undef"
  using location_stack_capacity [OF sample_core_wf sample_trace_wf, of 129 False] by simp

section \<open>Lines\<close>

lemma fmt_int_digit: "0 \<le> i \<Longrightarrow> i < 10 \<Longrightarrow> length (fmt_int i) = 1"
  by (simp add: fmt_int_def digits.simps)

text \<open>
  Property C32: what a line of the ARM format says can be read back. For an access of 1, 2 or 4 bytes the
  second character tells whether it follows the last access, the third and fifth its type and
  cause, and two \<^verbatim>\<open>%x\<close> conversions from the ninth character on give the address and the value.
\<close>

theorem memory_line_roundtrip:
  assumes "tr_enabled t" and "tr_flags t AND MEMORY \<noteq> 0" and "tr_output t = Some f"
    and "type < 2" and "cause < 2" and "sz < 10"
  shows "\<exists>text. trace_memory True t cycle type sz cause address val =
      Ret (t\<lparr>tr_output := Some (f @ text), tr_last_address := address\<rparr>) \<and>
    text ! 0 = CHR ''M'' \<and> (text ! 1 = CHR ''S'' \<longleftrightarrow> address = tr_last_address t + 4) \<and>
    (text ! 2 = CHR ''W'' \<longleftrightarrow> type = WRITE) \<and> (text ! 4 = CHR ''O'' \<longleftrightarrow> cause = OPCODE_FETCH) \<and>
    (\<exists>more. scan_hex None (drop 8 text) = Some (address, more) \<and>
       scan_hex None more = Some (val, [CHR 0x0A]))"
proof -
  obtain d where d: "fmt_int (uint sz) = [d]"
    using fmt_int_digit [of "uint sz"] assms(6) by (auto simp: word_less_def length_Suc_conv)
  have type: "type = 0 \<or> type = 1" and cause: "cause = 0 \<or> cause = 1"
    using assms(4,5) by (auto simp: word_less_nat_alt word_unat_eq_iff)
  let ?hex = "\<lambda>v. fmt_hex True 8 (unat (v :: u32))"
  let ?seq = "if address = tr_last_address t + 4 then CHR ''S'' else CHR ''N''"
  let ?ty = "if type = 0 then CHR ''W'' else CHR ''R''"
  let ?ca = "if cause = 0 then CHR ''_'' else CHR ''O''"
  let ?line = "[CHR ''M'', ?seq, ?ty, d, ?ca] @ ''__ '' @ ?hex address @ '' '' @ ?hex val @ [CHR 0x0A]"
  have "trace_memory True t cycle type sz cause address val =
      Ret (t\<lparr>tr_output := Some (f @ ?line), tr_last_address := address\<rparr>)"
    using assms(1-3) type cause
    by (auto simp: trace_memory_def trace_table_defs table_entry_def trace_print_def d)
  moreover have small: "unat v < 2 ^ 64" for v :: u32
    using unsigned_less [of v, where 'a = nat] by simp
  have "scan_hex None (drop 8 ?line) = Some (address, '' '' @ ?hex val @ [CHR 0x0A])"
    using scan_fmt_hex [OF small [of address], of "'' '' @ ?hex val @ [CHR 0x0A]" True 8] by simp
  moreover have "scan_hex None ('' '' @ ?hex val @ [CHR 0x0A]) = scan_hex None (?hex val @ [CHR 0x0A])"
    by (simp add: scan_hex_def is_space_def)
  then have "scan_hex None ('' '' @ ?hex val @ [CHR 0x0A]) = Some (val, [CHR 0x0A])"
    using scan_fmt_hex [OF small [of val], of "[CHR 0x0A]" True 8] by simp
  ultimately show ?thesis
    using type cause by (intro exI [of _ ?line]) (auto simp: trace_kind_defs)
qed

theorem memory_line_roundtrip_witness:
  "\<exists>more. scan_hex None (drop 8 (the (tr_output (ret_value (trace_memory True sample_trace 1 READ 4 OPCODE_FETCH 8 0xE1A00000)))))
     = Some (8, more)"
proof -
  have "tr_enabled sample_trace" "tr_flags sample_trace AND MEMORY \<noteq> 0" "tr_output sample_trace = Some []"
    by (simp_all add: sample_trace_def trace_add_def set_trace_file_def trace_initial_def MEMORY_def)
  from memory_line_roundtrip [OF this, of READ OPCODE_FETCH 4 1 8 "0xE1A00000"] show ?thesis
    by (fastforce simp: trace_kind_defs)
qed


section \<open>The dump\<close>

text \<open>What the dump says: the sixteen registers in lines of five, under the name of every mode.\<close>

definition dump_column :: "arm_core \<Rightarrow> nat \<Rightarrow> string" where
  "dump_column p n =
     (if 0 < n \<and> n mod 5 = 0 then CHR 0x0A # ''    '' else []) @
     print_register (arm_register_names ! n) (arm_read_register p (of_nat n))"

definition registers_dump :: "arm_core \<Rightarrow> string" where
  "registers_dump p = concat (map (dump_column p) [0..<16])"

definition processor_dump :: "arm_core \<Rightarrow> string" where
  "processor_dump p =
     ''USR:'' @ registers_dump p @ ''  CPSR='' @ fmt_hex True 8 (unat (arm_read_cpsr p)) @ [CHR 0x0A] @
     ''FIQ:'' @ registers_dump p @ [CHR 0x0A] @
     ''IRQ:'' @ registers_dump p @ replicate 10 CHR '' '' @
     ''SVC:'' @ registers_dump p @ [CHR 0x0A] @
     ''ABT:'' @ registers_dump p @ replicate 10 CHR '' '' @
     ''UND:'' @ registers_dump p @ [CHR 0x0A] @ registers_dump p"

text \<open>A trace with a file whose accesses to registers print nothing.\<close>

definition quiet :: "trace_state \<Rightarrow> string \<Rightarrow> bool" where
  "quiet t f \<longleftrightarrow> tr_output t = Some f \<and> \<not> (tr_enabled t \<and> tr_flags t AND REGISTERS \<noteq> 0)"

lemma quiet_register: "quiet t f \<Longrightarrow> trace_register fmt t cycle type r mode val = Ret t"
  by (auto simp: quiet_def trace_register_def)

lemma quiet_reads:
  assumes "quiet t f"
  shows "traced_read_register fmt n p t = Ret (arm_read_register p n, t)"
    and "traced_read_usr_register fmt n p t = Ret (arm_read_usr_register p n, t)"
    and "traced_read_cpsr fmt p t = Ret (arm_read_cpsr p, t)"
  by (simp_all add: traced_register_defs quiet_register [OF assms])

lemma quiet_print: "quiet t f \<Longrightarrow> trace_print s t = Ret (t\<lparr>tr_output := Some (f @ s)\<rparr>)"
  by (simp add: quiet_def trace_print_def)

lemma quiet_output [simp]: "quiet t f \<Longrightarrow> quiet (t\<lparr>tr_output := Some g\<rparr>) g"
  by (simp add: quiet_def)

lemma output_same: "quiet t f \<Longrightarrow> t\<lparr>tr_output := Some f\<rparr> = t"
  by (simp add: quiet_def)

lemma small_register:
  assumes "n < 16"
  shows "arm_get_register_name (of_nat n) = Ret (arm_register_names ! n)"
proof -
  have "unat (of_nat n :: u8) = n" using assms by (simp add: unat_of_nat take_bit_eq_mod)
  then show ?thesis using assms by (simp add: arm_get_register_name_def table_entry_def arm_register_names_def)
qed

lemma dump_register_quiet:
  assumes "core_wf p" and "quiet t f" and "n < 16"
  shows "dump_register fmt p mode n (if mode = USR then 0 else n, t) =
    Ret (if mode = USR then 0 else Suc n, t\<lparr>tr_output := Some (f @ dump_column p n)\<rparr>)"
proof -
  let ?br = "if 0 < n \<and> n mod 5 = 0 then CHR 0x0A # ''    '' else []"
  let ?u = "t\<lparr>tr_output := Some (f @ ?br)\<rparr>"
  have br: "(if 0 < n \<and> n mod 5 = 0 then trace_print (CHR 0x0A # ''    '') t else Ret t) = Ret ?u"
    using assms(2) by (simp add: quiet_print output_same)
  have u: "quiet ?u (f @ ?br)" using quiet_output [OF assms(2)] .
  show ?thesis
  proof (cases "mode = USR")
    case True
    then show ?thesis
      unfolding dump_register_def prod.case by (simp only: br if_True cbind_simps small_register [OF assms(3)]
          quiet_reads [OF u] quiet_print [OF u] prod.case usr_register_core_wf [OF assms(1)] dump_column_def)
        simp
  next
    case False
    then show ?thesis
      unfolding dump_register_def prod.case by (simp only: br if_False cbind_simps small_register [OF assms(3)]
          quiet_reads [OF u] quiet_print [OF u] prod.case dump_column_def)
        simp
  qed
qed

lemma dump_registers_quiet:
  assumes "core_wf p" and "quiet t f" and "k \<le> 16"
  shows "for_each (dump_register fmt p mode) [k..<16] (if mode = USR then 0 else k, t) =
    Ret (if mode = USR then 0 else 16, t\<lparr>tr_output := Some (f @ concat (map (dump_column p) [k..<16]))\<rparr>)"
  using assms(3,2)
proof (induction k arbitrary: t f rule: inc_induct)
  case base
  then show ?case by (simp add: output_same)
next
  case (step n)
  have "[n..<16] = n # [Suc n..<16]" using step.hyps by (simp add: upt_rec)
  with step.IH [OF quiet_output [OF step.prems], of "f @ dump_column p n"]
  show ?case by (simp add: dump_register_quiet [OF assms(1) step.prems step.hyps(2)])
qed

definition dump_suffix :: "arm_core \<Rightarrow> u8 \<Rightarrow> string" where
  "dump_suffix p mode =
     (if mode = USR then ''  CPSR='' @ fmt_hex True 8 (unat (arm_read_cpsr p)) else []) @
     (if mode \<in> {USR, FIQ, SVC, UND} then [CHR 0x0A]
      else if mode \<in> {IRQ, ABT} then replicate 10 CHR '' '' else [])"

definition dump_prefix :: "u8 \<Rightarrow> string \<Rightarrow> string" where
  "dump_prefix mode name = (if mode \<noteq> SYS then name @ '':'' else [])"

lemma dump_mode_quiet:
  assumes "core_wf p" and "quiet t f"
    and "arm_get_mode_name (of_nat m) = Ret (Some name)"
  shows "dump_mode fmt p m t = Ret (t\<lparr>tr_output :=
    Some (f @ dump_prefix (of_nat m) name @ registers_dump p @ dump_suffix p (of_nat m))\<rparr>)"
proof -
  let ?m = "of_nat m :: u8"
  let ?t = "\<lambda>s. t\<lparr>tr_output := Some (f @ s)\<rparr>"
  have t0: "(if ?m \<noteq> SYS then trace_print (name @ '':'') t else Ret t) = Ret (?t (dump_prefix ?m name))"
    using assms(2) by (simp add: dump_prefix_def quiet_print output_same)
  have t1: "for_each (dump_register fmt p ?m) [0..<16] (0, ?t s) =
      Ret (if ?m = USR then 0 else 16, ?t (s @ registers_dump p))" for s
    using dump_registers_quiet [OF assms(1) quiet_output [OF assms(2)], of 0 fmt ?m "f @ s"]
    by (simp add: registers_dump_def)
  have out: "trace_print s' (?t s) = Ret (?t (s @ s'))" for s s'
    by (simp add: trace_print_def)
  have t2: "traced_read_cpsr fmt p (?t s) = Ret (arm_read_cpsr p, ?t s)" for s
    by (rule quiet_reads [OF quiet_output [OF assms(2)]])
  show ?thesis
    unfolding dump_mode_def Let_def assms(3) cbind_simps option.case t0 t1 prod.case
    by (simp add: t2 out dump_suffix_def)
qed

lemma dump_mode_None: "arm_get_mode_name (of_nat m) = Ret None \<Longrightarrow> dump_mode fmt p m t = Ret t"
  by (simp add: dump_mode_def Let_def)

lemma for_each_append: "for_each body (is @ js) s = cbind (for_each body is s) (for_each body js)"
proof (induction "is" arbitrary: s)
  case (Cons i "is")
  then have "for_each body (is @ js) = (\<lambda>s. cbind (for_each body is s) (for_each body js))" by blast
  then show ?case by (simp add: cbind_assoc)
qed simp

lemma mode_list:
  "[0..<32] = [0..<16] @ [16, 17, 18, 19, 20, 21, 22, 23, 24, 25, 26, 27, 28, 29, 30, 31]"
  "[0..<16] = [0, 1, 2, 3, 4, 5, 6, 7, 8, 9, 10, 11, 12, 13, 14, 15]"
  by code_simp+

lemma dump_names:
  "map (\<lambda>m. arm_get_mode_name (of_nat m)) [0..<32] = map Ret arm_mode_names"
  by code_simp

lemma dump_mode_names:
  "m < 16 \<Longrightarrow> arm_get_mode_name (of_nat m) = Ret None"
  "map (\<lambda>m. arm_get_mode_name (of_nat m)) [16, 17, 18, 19, 20, 21, 22, 23, 24, 25, 26, 27, 28, 29, 30, 31] =
     map Ret (drop 16 arm_mode_names)"
proof -
  have "map (\<lambda>m. arm_get_mode_name (of_nat m)) [0..<32] ! m = map Ret arm_mode_names ! m"
    by (simp only: dump_names)
  then show "m < 16 \<Longrightarrow> arm_get_mode_name (of_nat m) = Ret None"
    by (simp add: arm_mode_names_def nth_append)
qed code_simp

lemma dump_unnamed: "\<forall>m \<in> set ms. m < 16 \<Longrightarrow> for_each (dump_mode fmt p) ms t = Ret t"
  by (induction ms) (simp_all add: dump_mode_None dump_mode_names(1))

text \<open>
  Property C33: the dump of the processor. When the trace of registers is off, \<^verbatim>\<open>arm_print_state\<close> appends
  the sixteen registers, in lines of five, under the name of each mode, with CPSR in user
  mode; it never reads a register of another mode, so the seven blocks are the same, and the last
  one, of the system mode, has no name and ends no line.
\<close>

theorem dump_text:
  assumes "core_wf p" and "tr_output t = Some f" and "tr_flags t AND REGISTERS = 0"
  shows "arm_print_state fmt p t = Ret (t\<lparr>tr_output := Some (f @ processor_dump p)\<rparr>)"
proof -
  have q: "quiet t f" using assms(2,3) by (simp add: quiet_def)
  have out: "quiet (t\<lparr>tr_output := Some g\<rparr>) g" for g using quiet_output [OF q] .
  note names = dump_mode_names(2) [unfolded arm_mode_names_def, simplified]
  note mode = dump_mode_quiet [OF assms(1)]
  have "for_each (dump_mode fmt p) [0..<16] t = Ret t" by (rule dump_unnamed) simp
  moreover have "for_each (dump_mode fmt p) [16, 17, 18, 19, 20, 21, 22, 23, 24, 25, 26, 27, 28, 29, 30, 31] t =
      Ret (t\<lparr>tr_output := Some (f @ processor_dump p)\<rparr>)"
    using names
    by (simp add: mode [OF q] mode [OF out] dump_mode_None dump_prefix_def dump_suffix_def mode_defs
        processor_dump_def)
  ultimately show ?thesis by (simp only: arm_print_state_def mode_list(1) for_each_append cbind_simps)
qed

theorem dump_text_witness:
  "\<exists>t. arm_print_state True sample_core (set_trace_file trace_initial []) = Ret t"
  using dump_text [OF sample_core_wf, of "set_trace_file trace_initial []" "[]" True]
  by (simp add: set_trace_file_def trace_initial_def)

end
