(* ===== verification/Memory_Test.thy ===== *)
theory Memory_Test
  imports Memory
begin

text \<open>
  The test program \<^verbatim>\<open>memory_test.c\<close>: it writes bytes and reads words, writes words and reads bytes, in a
  memory of the host's byte order and in one of the other order, and prints whether the results are
  in the expected order. Objects are seen as the bytes of their representation; an index outside
  an object is \<open>Undef\<close>. The theorem shows that the eight tests succeed on a host of either order.
\<close>

definition print_test :: "int \<Rightarrow> string" where
  "print_test result = (if result \<noteq> 0 then ''Test succeded'' else ''TEST FAILED !!'') @ [CHR 0x0A]"

definition byte_in :: "u8 list \<Rightarrow> int \<Rightarrow> u8 cres" where
  "byte_in bs i = (if 0 \<le> i \<and> i < int (length bs) then Ret (bs ! nat i) else Undef)"

text \<open>The loops of the two comparisons: \<open>n\<close> iterations are left.\<close>

fun compare_loop :: "u8 list \<Rightarrow> u8 list \<Rightarrow> nat \<Rightarrow> int \<Rightarrow> int \<Rightarrow> int \<Rightarrow> int cres" where
  "compare_loop a b 0 i j j_step = Ret 1"
| "compare_loop a b (Suc n) i j j_step =
     cbind (byte_in a i) (\<lambda>x.
     cbind (byte_in b j) (\<lambda>y.
       if x \<noteq> y then Ret 0 else compare_loop a b n (i + 1) (j + j_step) j_step))"

definition compare :: "u8 list \<Rightarrow> u8 list \<Rightarrow> nat \<Rightarrow> bool \<Rightarrow> int cres" where
  "compare a b sz reverse =
     (if reverse then compare_loop a b sz 0 (int sz - 1) (- 1) else compare_loop a b sz 0 0 1)"

fun compare_with_sim_loop :: "u8 list \<Rightarrow> memory_data \<Rightarrow> nat \<Rightarrow> int \<Rightarrow> int \<Rightarrow> int \<Rightarrow> u8 \<Rightarrow> int cres" where
  "compare_with_sim_loop a m 0 i j j_step val = Ret 1"
| "compare_with_sim_loop a m (Suc n) i j j_step val =
     cbind (memory_read_byte m (of_int j)) (\<lambda>v.
       let val = (case v of Some v \<Rightarrow> v | None \<Rightarrow> val)
       in cbind (byte_in a i) (\<lambda>x.
            if x \<noteq> val then Ret 0 else compare_with_sim_loop a m n (i + 1) (j + j_step) j_step val))"

definition compare_with_sim :: "u8 list \<Rightarrow> memory_data \<Rightarrow> nat \<Rightarrow> bool \<Rightarrow> u8 \<Rightarrow> int cres" where
  "compare_with_sim a m sz reverse val =
     (if reverse then compare_with_sim_loop a m sz 0 (int sz - 1) (- 1) val
      else compare_with_sim_loop a m sz 0 0 1 val)"

text \<open>The loop that writes the same bytes to both memories.\<close>

fun write_both :: "u32 \<Rightarrow> u8 list \<Rightarrow> memory_data \<Rightarrow> memory_data \<Rightarrow> (memory_data \<times> memory_data) cres" where
  "write_both i [] m0 m1 = Ret (m0, m1)"
| "write_both i (b # bs) m0 m1 =
     cbind (memory_write_byte m0 i b) (\<lambda>(_, m0).
     cbind (memory_write_byte m1 i b) (\<lambda>(_, m1).
       write_both (i + 1) bs m0 m1))"

definition assigned :: "'a \<Rightarrow> 'a option \<Rightarrow> 'a" where
  "assigned old v = (case v of Some x \<Rightarrow> x | None \<Rightarrow> old)"

text \<open>
  \<^verbatim>\<open>main\<close>: the lines it prints. \<open>j0\<close> and \<open>j1\<close> are the contents of the blocks \<^verbatim>\<open>malloc\<close> returned, \<open>w\<close>, \<open>hw\<close>
  and \<open>b\<close> of the variables before they are set; the case of a failing \<^verbatim>\<open>malloc\<close> is left out.
\<close>

definition memory_test_main :: "host \<Rightarrow> (nat \<Rightarrow> u8) \<Rightarrow> (nat \<Rightarrow> u8) \<Rightarrow> u32 \<Rightarrow> u16 \<Rightarrow> u8 \<Rightarrow> string list cres" where
  "memory_test_main h j0 j1 w hw b =
     (let word_value = 0x11223344; half_value = 0x5566;
          position = bytes_of_u32 h word_value; half_position = bytes_of_u16 h half_value;
          same = (\<lambda>(m0, m1). if is_big_endian h = 1 then m1 else m0);
          other = (\<lambda>(m0, m1). if 1 - is_big_endian h = 1 then m1 else m0);
          set_same = (\<lambda>m (m0, m1). if is_big_endian h = 1 then (m0, m) else (m, m1));
          set_other = (\<lambda>m (m0, m1). if 1 - is_big_endian h = 1 then (m0, m) else (m, m1))
      in cbind (write_both 0 position (memory_create j0 4 0) (memory_create j1 4 1)) (\<lambda>m.
         cbind (memory_read_word h (same m) 0) (\<lambda>v. let w = assigned w v in
         cbind (compare position (bytes_of_u32 h w) 4 False) (\<lambda>r1.
         cbind (memory_read_half h (same m) 0) (\<lambda>v. let hw = assigned hw v in
         cbind (compare position (bytes_of_u16 h hw) 2 False) (\<lambda>r2.
         cbind (memory_read_word h (other m) 0) (\<lambda>v. let w = assigned w v in
         cbind (compare position (bytes_of_u32 h w) 4 True) (\<lambda>r3.
         cbind (memory_read_half h (other m) 0) (\<lambda>v. let hw = assigned hw v in
         cbind (compare position (bytes_of_u16 h hw) 2 True) (\<lambda>r4.
         cbind (memory_write_word h (same m) 0 word_value) (\<lambda>(_, x). let m = set_same x m in
         cbind (compare_with_sim position (same m) 4 False b) (\<lambda>r5.
         cbind (memory_write_half h (same m) 0 half_value) (\<lambda>(_, x). let m = set_same x m in
         cbind (compare_with_sim half_position (same m) 2 False b) (\<lambda>r6.
         cbind (memory_write_word h (other m) 0 word_value) (\<lambda>(_, x). let m = set_other x m in
         cbind (compare_with_sim position (other m) 4 True b) (\<lambda>r7.
         cbind (memory_write_half h (other m) 0 half_value) (\<lambda>(_, x). let m = set_other x m in
         cbind (compare_with_sim half_position (other m) 2 True b) (\<lambda>r8.
           Ret [''I'' @ [CHR 0x27] @ ''m a '' @ (if is_big_endian h = 1 then ''big'' else ''little'') @ '' endian host'' @ [CHR 0x0A],
                ''Writing 4 bytes at address 0, then reading the word and half, '' @
                ''the result should depend on simulated memory endianess :'' @ [CHR 0x0A],
                ''- word read with the same endianess as me, '' @ print_test r1,
                ''- half read with the same endianess as me, '' @ print_test r2,
                ''- word read with a different endianess than me, '' @ print_test r3,
                ''- half read with a different endianess than me, '' @ print_test r4,
                ''Writing word and half at address 0, then reading the bytes, '' @
                ''the result should depend on simulated memory endianess :'' @ [CHR 0x0A],
                ''- word write with the same endianess as me, '' @ print_test r5,
                ''- half write with the same endianess as me, '' @ print_test r6,
                ''- word write with a different endianess than me, '' @ print_test r7,
                ''- half write with a different endianess than me, '' @ print_test r8]))))))))))))))))))"

lemma memory_create_eq:
  "memory_create j 4 be = \<lparr>mem_size = 4, mem_is_big_endian = be, mem_data = [j 0, j 1, j 2, j 3]\<rparr>"
  by (simp add: memory_create_def upt_rec numeral_2_eq_2 numeral_3_eq_3)

lemma update_four: "[x, y, z, u][2 := v] = [x, y, v, u]" "[x, y, z, u][3 := v] = [x, y, z, v]"
  by (simp_all add: numeral_2_eq_2 numeral_3_eq_3)

text \<open>After the bytes of the word are written, nothing is left of what \<^verbatim>\<open>malloc\<close> returned.\<close>

lemma write_both_four:
  "write_both 0 [a, b, c, d] (memory_create j0 4 e0) (memory_create j1 4 e1) =
     Ret (\<lparr>mem_size = 4, mem_is_big_endian = e0, mem_data = [a, b, c, d]\<rparr>,
          \<lparr>mem_size = 4, mem_is_big_endian = e1, mem_data = [a, b, c, d]\<rparr>)"
  by (simp add: memory_create_eq memory_write_byte_def memory_get_size_def store_byte_def update_four)

lemma word_bytes:
  "bytes_of_u32 LittleEndianHost 0x11223344 = [0x44, 0x33, 0x22, 0x11]"
  "bytes_of_u32 BigEndianHost 0x11223344 = [0x11, 0x22, 0x33, 0x44]"
  by code_simp+

abbreviation four :: "int \<Rightarrow> u8 list \<Rightarrow> memory_data" where
  "four be bs \<equiv> \<lparr>mem_size = 4, mem_is_big_endian = be, mem_data = bs\<rparr>"

lemma little_endian_run:
  "is_big_endian LittleEndianHost = 0"
  "memory_read_word LittleEndianHost (four 0 [0x44, 0x33, 0x22, 0x11]) 0 = Ret (Some 0x11223344)"
  "memory_read_half LittleEndianHost (four 0 [0x44, 0x33, 0x22, 0x11]) 0 = Ret (Some 0x3344)"
  "memory_read_word LittleEndianHost (four 1 [0x44, 0x33, 0x22, 0x11]) 0 = Ret (Some 0x44332211)"
  "memory_read_half LittleEndianHost (four 1 [0x44, 0x33, 0x22, 0x11]) 0 = Ret (Some 0x4433)"
  "memory_write_word LittleEndianHost (four 0 [0x44, 0x33, 0x22, 0x11]) 0 0x11223344 =
     Ret (0, four 0 [0x44, 0x33, 0x22, 0x11])"
  "memory_write_half LittleEndianHost (four 0 [0x44, 0x33, 0x22, 0x11]) 0 0x5566 =
     Ret (0, four 0 [0x66, 0x55, 0x22, 0x11])"
  "memory_write_word LittleEndianHost (four 1 [0x44, 0x33, 0x22, 0x11]) 0 0x11223344 =
     Ret (0, four 1 [0x11, 0x22, 0x33, 0x44])"
  "memory_write_half LittleEndianHost (four 1 [0x11, 0x22, 0x33, 0x44]) 0 0x5566 =
     Ret (0, four 1 [0x55, 0x66, 0x33, 0x44])"
  "bytes_of_u32 LittleEndianHost 0x44332211 = [0x11, 0x22, 0x33, 0x44]"
  "bytes_of_u16 LittleEndianHost 0x3344 = [0x44, 0x33]"
  "bytes_of_u16 LittleEndianHost 0x4433 = [0x33, 0x44]"
  "bytes_of_u16 LittleEndianHost 0x5566 = [0x66, 0x55]"
  by (simp_all add: memory_read_word_def memory_read_half_def memory_write_word_def memory_write_half_def
      memory_get_size_def load_bytes_def store_byte_def u32_of_bytes_def u16_of_bytes_def bytes_of_u32_def
      bytes_of_u16_def is_big_endian_def reverse_4_def reverse_2_def Let_def)

lemma big_endian_run:
  "is_big_endian BigEndianHost = 1"
  "memory_read_word BigEndianHost (four 1 [0x11, 0x22, 0x33, 0x44]) 0 = Ret (Some 0x11223344)"
  "memory_read_half BigEndianHost (four 1 [0x11, 0x22, 0x33, 0x44]) 0 = Ret (Some 0x1122)"
  "memory_read_word BigEndianHost (four 0 [0x11, 0x22, 0x33, 0x44]) 0 = Ret (Some 0x44332211)"
  "memory_read_half BigEndianHost (four 0 [0x11, 0x22, 0x33, 0x44]) 0 = Ret (Some 0x2211)"
  "memory_write_word BigEndianHost (four 1 [0x11, 0x22, 0x33, 0x44]) 0 0x11223344 =
     Ret (0, four 1 [0x11, 0x22, 0x33, 0x44])"
  "memory_write_half BigEndianHost (four 1 [0x11, 0x22, 0x33, 0x44]) 0 0x5566 =
     Ret (0, four 1 [0x55, 0x66, 0x33, 0x44])"
  "memory_write_word BigEndianHost (four 0 [0x11, 0x22, 0x33, 0x44]) 0 0x11223344 =
     Ret (0, four 0 [0x44, 0x33, 0x22, 0x11])"
  "memory_write_half BigEndianHost (four 0 [0x44, 0x33, 0x22, 0x11]) 0 0x5566 =
     Ret (0, four 0 [0x66, 0x55, 0x22, 0x11])"
  "bytes_of_u32 BigEndianHost 0x44332211 = [0x44, 0x33, 0x22, 0x11]"
  "bytes_of_u16 BigEndianHost 0x1122 = [0x11, 0x22]"
  "bytes_of_u16 BigEndianHost 0x2211 = [0x22, 0x11]"
  "bytes_of_u16 BigEndianHost 0x5566 = [0x55, 0x66]"
  by (simp_all add: memory_read_word_def memory_read_half_def memory_write_word_def memory_write_half_def
      memory_get_size_def load_bytes_def store_byte_def u32_of_bytes_def u16_of_bytes_def bytes_of_u32_def
      bytes_of_u16_def is_big_endian_def reverse_4_def reverse_2_def Let_def)

lemma four_reads:
  "memory_read_byte (four e [x, y, z, u]) 0 = Ret (Some x)"
  "memory_read_byte (four e [x, y, z, u]) 1 = Ret (Some y)"
  "memory_read_byte (four e [x, y, z, u]) 2 = Ret (Some z)"
  "memory_read_byte (four e [x, y, z, u]) 3 = Ret (Some u)"
  by (simp_all add: memory_read_byte_def memory_get_size_def load_bytes_def)

lemma iterations:
  "compare_loop a b 4 i j s = compare_loop a b (Suc (Suc (Suc (Suc 0)))) i j s"
  "compare_loop a b 2 i j s = compare_loop a b (Suc (Suc 0)) i j s"
  "compare_with_sim_loop a m 4 i j s v = compare_with_sim_loop a m (Suc (Suc (Suc (Suc 0)))) i j s v"
  "compare_with_sim_loop a m 2 i j s v = compare_with_sim_loop a m (Suc (Suc 0)) i j s v"
  by (simp_all add: eval_nat_numeral del: compare_loop.simps compare_with_sim_loop.simps)

lemma comparisons:
  "compare [x, y, z, u] [x, y, z, u] 4 False = Ret 1"
  "compare [x, y, z, u] [x, y] 2 False = Ret 1"
  "compare [x, y, z, u] [u, z, y, x] 4 True = Ret 1"
  "compare [x, y, z, u] [y, x] 2 True = Ret 1"
  "compare_with_sim [x, y, z, u] (four e [x, y, z, u]) 4 False b = Ret 1"
  "compare_with_sim [x, y] (four e [x, y, z, u]) 2 False b = Ret 1"
  "compare_with_sim [x, y, z, u] (four e [u, z, y, x]) 4 True b = Ret 1"
  "compare_with_sim [x, y] (four e [y, x, z, u]) 2 True b = Ret 1"
  by (simp_all add: compare_def compare_with_sim_def iterations byte_in_def four_reads)

text \<open>
  Property C36: the test program passes on every host. Whatever the memory and the variables held before,
  on a little-endian and on a big-endian host, all of its eight tests report success and no comparison
  leaves its objects.
\<close>

theorem all_memory_tests_succeed:
  "\<exists>out. memory_test_main h j0 j1 w hw b = Ret out \<and> length out = 11 \<and>
     list_all (\<lambda>n. \<exists>test. out ! n = test @ print_test 1) [2, 3, 4, 5, 7, 8, 9, 10]"
proof (cases h)
  case LittleEndianHost
  then show ?thesis
    by (simp add: memory_test_main_def Let_def word_bytes write_both_four little_endian_run assigned_def
        comparisons nth_Cons' del: cbind_eq_Ret write_both.simps)
next
  case BigEndianHost
  then show ?thesis
    by (simp add: memory_test_main_def Let_def word_bytes write_both_four big_endian_run assigned_def
        comparisons nth_Cons' del: cbind_eq_Ret write_both.simps)
qed

end
