(* ===== verification/Simulator.thy ===== *)
theory Simulator
  imports Scanner_Refines Debug Trace
begin

text \<open>
  The process of \<^verbatim>\<open>arm_simulator.c\<close>: the options of the command line, the shared processor, and the two
  threads that use it, and \<^verbatim>\<open>send_irq.c\<close>, the program that sends interrupts. The gdb thread runs the scanner with its
  buffer (\<open>gdb_scanner_buffered\<close>), the interrupt thread raises the exception of every byte it receives; the lock makes a packet's command and an
  exception atomic, so a run is an interleaving of both, a relation on states. \<^verbatim>\<open>getopt_long\<close> and the
  sockets are the system's: the options come as a list, \<^verbatim>\<open>fopen\<close> is a parameter.
\<close>

section \<open>Options\<close>

record config =
  cf_gdb_port :: u16
  cf_irq_port :: u16
  cf_trace_file :: "string option"
  cf_trace :: trace_state
  cf_debug :: debug_state

text \<open>No trace file is the standard output.\<close>

definition config_initial :: config where
  "config_initial = \<lparr>cf_gdb_port = 0, cf_irq_port = 0, cf_trace_file = None, cf_trace = trace_initial,
     cf_debug = debug_initial\<rparr>"

definition option_step :: "(string \<Rightarrow> bool) \<Rightarrow> config \<Rightarrow> char \<times> string \<Rightarrow> config cres" where
  "option_step fopen cf oa =
     (case oa of (opt, optarg) \<Rightarrow>
        if opt = CHR ''g'' then Ret (cf\<lparr>cf_gdb_port := word_of_int (atoi optarg)\<rparr>)
        else if opt = CHR ''i'' then Ret (cf\<lparr>cf_irq_port := word_of_int (atoi optarg)\<rparr>)
        else if opt = CHR ''h'' then Exit
        else if opt = CHR ''t''
        then (if fopen optarg then Ret (cf\<lparr>cf_trace_file := Some optarg\<rparr>) else Exit)
        else if opt = CHR ''r'' then Ret (cf\<lparr>cf_trace := trace_add (cf_trace cf) REGISTERS\<rparr>)
        else if opt = CHR ''m'' then Ret (cf\<lparr>cf_trace := trace_add (cf_trace cf) MEMORY\<rparr>)
        else if opt = CHR ''s'' then Ret (cf\<lparr>cf_trace := trace_add (cf_trace cf) STATE\<rparr>)
        else if opt = CHR ''p'' then Ret (cf\<lparr>cf_trace := trace_add (cf_trace cf) POSITION\<rparr>)
        else if opt = CHR ''d''
        then cbind (add_debug_to (cf_debug cf) optarg) (\<lambda>d. Ret (cf\<lparr>cf_debug := d\<rparr>))
        else Exit)"

fun options :: "(string \<Rightarrow> bool) \<Rightarrow> config \<Rightarrow> (char \<times> string) list \<Rightarrow> config cres" where
  "options fopen cf [] = Ret cf"
| "options fopen cf (oa # oas) = cbind (option_step fopen cf oa) (\<lambda>cf. options fopen cf oas)"

section \<open>The threads\<close>

text \<open>The processor \<^verbatim>\<open>main\<close> creates: \<open>init\<close> is what \<^verbatim>\<open>malloc\<close> left in the memory, \<open>c\<close> in the counter.\<close>

definition main_arm :: "bool \<Rightarrow> (nat \<Rightarrow> u8) \<Rightarrow> u32 \<Rightarrow> arm_core" where
  "main_arm be init c = arm_create c (memory_create init 0x20000 (of_bool be))"

definition irq_listener_byte :: "arm_core \<Rightarrow> u8 \<Rightarrow> arm_core" where
  "irq_listener_byte p irq = arm_exception p irq"

text \<open>
  What \<^verbatim>\<open>main\<close> sets up before it starts the threads: the trace goes to the file of the option, which has just
  been opened and is empty, or to the standard output.
\<close>

definition simulator_main ::
    "(string \<Rightarrow> bool) \<Rightarrow> bool \<Rightarrow> (nat \<Rightarrow> u8) \<Rightarrow> u32 \<Rightarrow> (char \<times> string) list \<Rightarrow> (config \<times> arm_core) cres" where
  "simulator_main fopen be init c oas =
     cbind (options fopen config_initial oas) (\<lambda>cf.
       Ret (cf\<lparr>cf_trace := set_trace_file (cf_trace cf) []\<rparr>, main_arm be init c))"

text \<open>
  One connection of the interrupt thread, alone: the bytes the system delivers one by one until the peer
  closes the connection; a failing \<^verbatim>\<open>read\<close> ends the process. \<open>None\<close> waits for the next byte.
\<close>

fun irq_connection :: "arm_core \<Rightarrow> read_answer list \<Rightarrow> (arm_core \<times> read_answer list) cres option" where
  "irq_connection p [] = None"
| "irq_connection p (a # ans) =
     (case Read a of
        Ret (n, bs) \<Rightarrow>
          if 0 < n then irq_connection (irq_listener_byte p (hd bs)) ans else Some (Ret (p, ans))
      | Exit \<Rightarrow> Some Exit
      | Undef \<Rightarrow> Some Undef)"

section \<open>The servers\<close>

record sockaddr_in =
  sin_family :: int
  sin_port :: u16
  sin_addr :: u32

text \<open>The system's answers to the calls on a socket; \<open>os_getsockname\<close> is the address it reports.\<close>

record sockets =
  os_socket :: int
  os_setsockopt :: "int \<Rightarrow> int"
  os_bind :: "int \<Rightarrow> sockaddr_in \<Rightarrow> int"
  os_getsockname :: "int \<Rightarrow> sockaddr_in \<Rightarrow> sockaddr_in"
  os_listen :: "int \<Rightarrow> int \<Rightarrow> int"

record server_data =
  sv_socket :: int
  sv_port :: u16

definition PF_INET :: int where
  "PF_INET = 2"

definition htons :: "host \<Rightarrow> u16 \<Rightarrow> u16" where
  "htons h p = (if is_big_endian h = 1 then p else reverse_2 p)"

definition create_server :: "host \<Rightarrow> sockets \<Rightarrow> u16 \<Rightarrow> server_data cres" where
  "create_server h os port =
     cbind (Socket (os_socket os)) (\<lambda>s.
     cbind (Setsockopt (os_setsockopt os s)) (\<lambda>_.
     let addr = \<lparr>sin_family = PF_INET, sin_port = htons h port, sin_addr = 0\<rparr>
     in cbind (Bind (os_bind os s addr)) (\<lambda>_.
        let addr = os_getsockname os s addr; result = htons h (sin_port addr)
        in cbind (Listen (os_listen os s 1)) (\<lambda>_. Ret \<lparr>sv_socket = s, sv_port = result\<rparr>))))"

lemma htons_htons [simp]: "htons h (htons h p) = p"
proof -
  have masks: "(255 :: u16) = mask 8" "(65280 :: u16) = push_bit 8 (mask 8)"
    by (simp_all add: mask_eq_exp_minus_1)
  have "reverse_2 (reverse_2 p) = p"
    unfolding reverse_2_def masks by (rule bit_word_eqI) (auto simp: bit_simps)
  then show ?thesis by (simp add: htons_def)
qed

text \<open>When the system reports the port it was asked to bind, the server announces the port of the option.\<close>

lemma create_server_port:
  assumes "\<And>s a. sin_port (os_getsockname os s a) = sin_port a" and "create_server h os port = Ret sv"
  shows "sv_port sv = port \<and> sv_socket sv = os_socket os \<and> 0 \<le> os_socket os"
  using assms by (auto simp: create_server_def Let_def Socket_def unix_result_def unix_error_def split: if_splits)

text \<open>
  The gdb thread serves one connection: \<open>accepted\<close> is the result of \<^verbatim>\<open>accept\<close>, \<open>ans\<close> what \<^verbatim>\<open>read\<close> gives on the
  connection and \<open>f\<close> the stream \<^verbatim>\<open>fdopen\<close> makes of it; \<open>malloc\<close> and \<open>junk\<close> are old memory.
\<close>

definition gdb_listener :: "host \<Rightarrow> sockets \<Rightarrow> u16 \<Rightarrow> int \<Rightarrow> (nat \<Rightarrow> string option) \<Rightarrow> nat option \<Rightarrow>
    bool \<Rightarrow> u32 \<Rightarrow> arm_core \<Rightarrow> read_answer list \<Rightarrow> arm_core cres option" where
  "gdb_listener h os port accepted malloc f be junk p ans =
     (case cbind (create_server h os port) (\<lambda>_. Accept accepted) of
        Ret connection \<Rightarrow>
          map_option (\<lambda>r. cbind r (\<lambda>d. Ret (gdb_arm (pd_gdb d)))) (gdb_scanner_buffered malloc be junk f p ans)
      | Exit \<Rightarrow> Some Exit
      | Undef \<Rightarrow> Some Undef)"

text \<open>The interrupt thread serves one connection after the other, for ever: \<open>None\<close> when it waits.\<close>

fun irq_connections :: "arm_core \<Rightarrow> (int \<times> read_answer list) list \<Rightarrow> arm_core cres option" where
  "irq_connections p [] = None"
| "irq_connections p ((accepted, ans) # conns) =
     (case Accept accepted of
        Ret connection \<Rightarrow>
          (case irq_connection p ans of
             Some (Ret (p, _)) \<Rightarrow> irq_connections p conns
           | Some Exit \<Rightarrow> Some Exit | Some Undef \<Rightarrow> Some Undef | None \<Rightarrow> None)
      | Exit \<Rightarrow> Some Exit
      | Undef \<Rightarrow> Some Undef)"

definition irq_listener :: "host \<Rightarrow> sockets \<Rightarrow> u16 \<Rightarrow> arm_core \<Rightarrow> (int \<times> read_answer list) list \<Rightarrow>
    arm_core cres option" where
  "irq_listener h os port p conns =
     (case create_server h os port of
        Ret server \<Rightarrow> irq_connections p conns
      | Exit \<Rightarrow> Some Exit
      | Undef \<Rightarrow> Some Undef)"

section \<open>The interleaving of the threads\<close>

inductive sim_step :: "bool \<Rightarrow> parser_data \<Rightarrow> parser_data \<Rightarrow> bool" for be where
  gdb: "input \<noteq> [] \<Longrightarrow> yy_token input = (act, n) \<Longrightarrow>
    yy_action be junk rest d act (take n input) = Some (Ret d') \<Longrightarrow> sim_step be d d'"
| gdb_eof: "handle_error d = Ret d' \<Longrightarrow> sim_step be d d'"
| irq: "sim_step be d (d\<lparr>pd_gdb := (pd_gdb d)\<lparr>gdb_arm := irq_listener_byte (gdb_arm (pd_gdb d)) irq\<rparr>\<rparr>)"

inductive_cases sim_stepE: "sim_step be d d'"

definition sim_initial :: "bool \<Rightarrow> (nat \<Rightarrow> u8) \<Rightarrow> u32 \<Rightarrow> parser_data" where
  "sim_initial be init c = \<lparr>pd_gdb = gdb_init_data (main_arm be init c), pd_buffer = []\<rparr>"

definition reachable :: "bool \<Rightarrow> parser_data \<Rightarrow> bool" where
  "reachable be d \<longleftrightarrow> (\<exists>init c. (sim_step be)\<^sup>*\<^sup>* (sim_initial be init c) d)"

section \<open>The sender of interrupts\<close>

text \<open>The search of \<^verbatim>\<open>send_irq\<close> for the exception of a name; the table has 8 entries.\<close>

fun find_irq :: "nat \<Rightarrow> u8 \<Rightarrow> string \<Rightarrow> u8 option" where
  "find_irq 0 irq name = None"
| "find_irq (Suc fuel) irq name =
     (case arm_get_exception_name irq of
        Some irq_name \<Rightarrow> if strcmp irq_name name \<noteq> 0 then find_irq fuel (irq + 1) name else Some irq
      | None \<Rightarrow> None)"

text \<open>The byte sent for the arguments after the program's name, or the end of the process.\<close>

definition send_irq :: "string list \<Rightarrow> u8 cres" where
  "send_irq args =
     (if length args < 2 then Exit
      else if length args < 3 then Ret (of_int INTERRUPT)
      else case find_irq 8 (of_int RESET) (args ! 2) of None \<Rightarrow> Exit | Some irq \<Rightarrow> Ret irq)"

text \<open>
  The whole program: the interrupt it sends, with the address and port it sends it to, for the results of
  the system's calls.
\<close>

definition send_irq_main ::
    "host \<Rightarrow> string list \<Rightarrow> int \<Rightarrow> int \<Rightarrow> 'h option \<Rightarrow> int \<Rightarrow> write_answer \<Rightarrow> (u8 \<times> 'h \<times> u16) cres" where
  "send_irq_main h args sock sockopt hostent connected written =
     cbind (send_irq args) (\<lambda>irq.
     cbind (Socket sock) (\<lambda>_.
     cbind (Setsockopt sockopt) (\<lambda>_.
     cbind (Gethostbyname hostent) (\<lambda>host.
     cbind (Connect connected) (\<lambda>_.
     cbind (Write written) (\<lambda>_. Ret (irq, host, htons h (word_of_int (atoi (args ! 1))))))))))"

section \<open>What every reachable state keeps\<close>

text \<open>What the server may write: acknowledgements, requests for retransmission and frames.\<close>

inductive wf_out :: "string \<Rightarrow> bool" where
  empty: "wf_out []"
| ack: "wf_out s \<Longrightarrow> wf_out (s @ ''+'')"
| nak: "wf_out s \<Longrightarrow> wf_out (s @ ''-'')"
| frame: "wf_out s \<Longrightarrow> wf_out (s @ frame t)"

definition gdb_inv :: "bool \<Rightarrow> gdb_protocol_data \<Rightarrow> bool" where
  "gdb_inv be g \<longleftrightarrow> core_wf (gdb_arm g) \<and> mem_kind (core_mem (gdb_arm g)) = (0x20000, of_bool be) \<and>
     wf_out (gdb_out g) \<and> (gdb_packet g = [] \<or> (\<exists>s. gdb_packet g = frame s))"

definition sim_inv :: "bool \<Rightarrow> parser_data \<Rightarrow> bool" where
  "sim_inv be d \<longleftrightarrow> gdb_inv be (pd_gdb d) \<and> length (pd_buffer d) < MAX_ERROR_SIZE"

lemma gdb_inv_initial: "gdb_inv be (gdb_init_data (main_arm be init c))"
proof -
  have "mem_wf (memory_create init 0x20000 (of_bool be))" by (rule memory_create_wf) simp_all
  then show ?thesis
    by (simp add: gdb_inv_def gdb_init_data_def main_arm_def arm_create_wf arm_create_state wf_out.empty)
      (simp add: memory_create_def)
qed

lemma gdb_inv_nak: "gdb_inv be g \<Longrightarrow> gdb_inv be (g\<lparr>gdb_out := gdb_out g @ ''-''\<rparr>)"
  by (simp add: gdb_inv_def wf_out.nak)

lemma gdb_inv_analysis:
  assumes "gdb_inv be g" and "gdb_packet_analysis be junk g packet len = Some (Ret g')"
  shows "gdb_inv be g'"
proof -
  have ack: "gdb_inv be (acked g)"
    using assms(1) by (simp add: gdb_inv_def acked_def wf_out.ack)
  from packet_analysis_outcome [OF assms(2)] consider "g' = g\<lparr>gdb_out := gdb_out g @ ''-''\<rparr>"
    | "answers (acked g) g'" | "g' = (acked g)\<lparr>gdb_shut := True\<rparr>"
    unfolding outcome_def by blast
  then show ?thesis
  proof cases
    case 1
    with assms(1) show ?thesis by (simp add: gdb_inv_nak)
  next
    case 2
    with ack show ?thesis
      by (auto simp: answers_def gdb_inv_def intro: wf_out.frame)
  next
    case 3
    with ack show ?thesis by (simp add: gdb_inv_def)
  qed
qed

lemma sim_inv_error: "sim_inv be d \<Longrightarrow> handle_error d = Ret d' \<Longrightarrow> sim_inv be d'"
  by (auto simp: handle_error_def gdb_require_retransmission_def gdb_write_def sim_inv_def
      MAX_ERROR_SIZE_def gdb_inv_nak split: if_splits)

lemma sim_inv_add: "sim_inv be d \<Longrightarrow> add_character_to_error d c = Ret d' \<Longrightarrow> sim_inv be d'"
proof -
  assume d: "sim_inv be d" and "add_character_to_error d c = Ret d'"
  then obtain e where e: "(if MAX_ERROR_SIZE - 2 < length (pd_buffer d) then handle_error d else Ret d) = Ret e"
    "length (pd_buffer e) < MAX_ERROR_SIZE" "d' = e\<lparr>pd_buffer := pd_buffer e @ [c]\<rparr>"
    by (auto simp: add_character_to_error_def split: if_splits)
  then have "sim_inv be e" using d sim_inv_error by (auto split: if_splits)
  moreover have "length (pd_buffer e) < MAX_ERROR_SIZE - 1"
    using e(1) by (auto simp: handle_error_def MAX_ERROR_SIZE_def split: if_splits)
  ultimately show ?thesis using e(3) by (simp add: sim_inv_def MAX_ERROR_SIZE_def)
qed

lemma gdb_inv_transmit:
  "gdb_inv be g \<Longrightarrow> gdb_transmit_packet g = Ret g' \<Longrightarrow> gdb_inv be g'"
  by (auto simp: gdb_inv_def gdb_transmit_packet_def gdb_write_def wf_out.frame split: if_splits)

lemma sim_inv_action:
  assumes d: "sim_inv be d" and act: "yy_action be junk rest d act s = Some (Ret d')"
  shows "sim_inv be d'"
proof -
  consider "act = 1" | "act = 2" | "act = 3" | "act = 4" | "act = 5"
    using act by (auto simp: yy_action_def split: if_splits)
  then show ?thesis
  proof cases
    case 1
    with act d show ?thesis by (auto simp: yy_action_def intro: sim_inv_error)
  next
    case 2
    with act obtain e g where "handle_error d = Ret e" "gdb_transmit_packet (pd_gdb e) = Ret g"
      "d' = e\<lparr>pd_gdb := g\<rparr>" by (auto simp: yy_action_def)
    with sim_inv_error [OF d] gdb_inv_transmit show ?thesis by (fastforce simp: sim_inv_def)
  next
    case 3
    with act obtain e where e: "handle_error d = Ret e" by (auto simp: yy_action_def split: cres.splits)
    with act 3 obtain r where r: "gdb_packet_analysis be junk (pd_gdb e) (s @ NUL # rest) (length s) = Some r"
      "cbind r (\<lambda>g. Ret (e\<lparr>pd_gdb := g\<rparr>)) = Ret d'" by (auto simp: yy_action_def)
    then obtain g where "r = Ret g" "d' = e\<lparr>pd_gdb := g\<rparr>" by auto
    with r(1) sim_inv_error [OF d e] gdb_inv_analysis show ?thesis by (fastforce simp: sim_inv_def)
  next
    case 4
    with act d show ?thesis by (auto simp: yy_action_def intro: sim_inv_add)
  next
    case 5
    with act d show ?thesis by (simp add: yy_action_def)
  qed
qed

lemma sim_step_inv: "sim_step be d d' \<Longrightarrow> sim_inv be d \<Longrightarrow> sim_inv be d'"
proof (induction rule: sim_step.induct)
  case (irq d i)
  then show ?case by (simp add: sim_inv_def gdb_inv_def irq_listener_byte_def)
qed (auto intro: sim_inv_action sim_inv_error)

lemma sim_inv_initial: "sim_inv be (sim_initial be init c)"
  by (simp add: sim_inv_def sim_initial_def gdb_inv_initial MAX_ERROR_SIZE_def)

lemma reachable_inv: "reachable be d \<Longrightarrow> sim_inv be d"
proof -
  assume "reachable be d"
  then obtain init c where "(sim_step be)\<^sup>*\<^sup>* (sim_initial be init c) d"
    unfolding reachable_def by blast
  then show "sim_inv be d"
    by (induction rule: rtranclp_induct) (auto intro: sim_inv_initial sim_step_inv)
qed

text \<open>
  Property C2: in every state that packets, damaged packets, noise and interrupts can lead to, in any
  order, the processor is well formed, the memory has its 128 kilobytes and its byte order, the
  bytes sent to gdb are acknowledgements, requests for retransmission and frames with their
  checksum, the packet kept for retransmission is a frame or empty, and the error buffer has room.
\<close>

theorem reachable_states:
  assumes "reachable be d"
  shows "core_wf (gdb_arm (pd_gdb d)) \<and>
    mem_kind (core_mem (gdb_arm (pd_gdb d))) = (0x20000, of_bool be) \<and>
    wf_out (gdb_out (pd_gdb d)) \<and>
    (gdb_packet (pd_gdb d) = [] \<or> (\<exists>s. gdb_packet (pd_gdb d) = frame s)) \<and>
    length (pd_buffer d) < MAX_ERROR_SIZE"
proof -
  from assms have "sim_inv be d" by (rule reachable_inv)
  then show ?thesis by (simp add: sim_inv_def gdb_inv_def)
qed

theorem reachable_states_witness:
  "core_wf (gdb_arm (pd_gdb (sim_initial True (\<lambda>_. 0) 0)))"
proof -
  have "reachable True (sim_initial True (\<lambda>_. 0) 0)" unfolding reachable_def by blast
  from reachable_states [OF this] show ?thesis by simp
qed

section \<open>Interrupts\<close>

lemma find_irq_names:
  "map (find_irq 8 (of_int RESET))
      [''reset'', ''undefined instruction'', ''software interrupt'', ''prefetch abort'', ''data abort'',
       ''interrupt'', ''fast interrupt''] = map Some [1, 2, 3, 4, 5, 6, 7]"
  by code_simp

lemma reset_twice: "core_wf p \<Longrightarrow> arm_exception (arm_exception p 1) 1 = arm_exception p 1"
  by (simp add: arm_exception_reset arm_write_register_cpsr)
    (simp add: arm_write_register_def write_register_twice)

lemma irq_bytes_state:
  "core_wf p \<Longrightarrow> foldl irq_listener_byte p irqs = (if 1 \<in> set irqs then arm_exception p 1 else p)"
proof (induction irqs arbitrary: p)
  case (Cons i irqs)
  show ?case
  proof (cases "i = 1")
    case True
    then have "irq_listener_byte p i = arm_exception p 1" by (simp add: irq_listener_byte_def)
    with Cons True show ?thesis by (simp add: reset_twice)
  next
    case False
    then have "irq_listener_byte p i = p" by (simp add: irq_listener_byte_def arm_exception_other)
    with Cons False show ?thesis by simp
  qed
qed simp

lemma irq_connection_fold:
  "irq_connection p (map (\<lambda>b. Got [b]) irqs @ Got [] # ans) = Some (Ret (foldl irq_listener_byte p irqs, ans))"
  by (induction irqs arbitrary: p) (simp_all add: Read_def)

text \<open>
  Property C37: what a connection to the interrupt port does. Whatever bytes the peer sends before it closes
  the connection, the processor is left as it was when none of them is 1, and reset once when some
  are, however many and in whatever order.
\<close>

theorem irq_connection_resets:
  assumes "core_wf p"
  shows "irq_connection p (map (\<lambda>b. Got [b]) irqs @ Got [] # ans) =
    Some (Ret (if 1 \<in> set irqs then arm_exception p 1 else p, ans))"
  by (simp add: irq_connection_fold irq_bytes_state [OF assms])

theorem irq_connection_resets_witness:
  "irq_connection sample_core [Got [6], Got [1], Got [1], Got []] = Some (Ret (arm_exception sample_core 1, []))"
  using irq_connection_resets [OF sample_core_wf, of "[6, 1, 1]" "[]"] by simp

text \<open>
  Fact: an interrupt sent by name. \<^verbatim>\<open>send_irq\<close> finds the number of each of the seven names and sends
  it; of all bytes the listener can receive, only the one of \<^verbatim>\<open>reset\<close> has an effect on the processor, so
  the default \<^verbatim>\<open>interrupt\<close> does nothing.
\<close>

theorem only_reset_interrupts:
  "map (\<lambda>name. send_irq [host, port, name])
      [''reset'', ''undefined instruction'', ''software interrupt'', ''prefetch abort'', ''data abort'',
       ''interrupt'', ''fast interrupt''] = map Ret [1, 2, 3, 4, 5, 6, 7] \<and>
   send_irq [host, port] = Ret 6 \<and>
   irq_listener_byte p irq = (if irq = 1 then arm_exception p 1 else p)"
proof -
  have "irq_listener_byte p irq = (if irq = 1 then arm_exception p 1 else p)"
    by (simp add: irq_listener_byte_def arm_exception_other)
  moreover have "send_irq [host, port] = Ret 6"
    by (simp add: send_irq_def INTERRUPT_def)
  ultimately show ?thesis
    using find_irq_names by (simp add: send_irq_def)
qed

section \<open>Sessions\<close>

lemma yylex_steps:
  "yylex be junk rest d input = Some (Ret d') \<Longrightarrow> (sim_step be)\<^sup>*\<^sup>* d d'"
proof (induction input arbitrary: d rule: measure_induct_rule [where f = length])
  case (less input)
  show ?case
  proof (cases "input = []")
    case True
    with less.prems have "handle_error d = Ret d'" by (simp add: yylex.simps)
    then show ?thesis using sim_step.gdb_eof by blast
  next
    case False
    obtain act n where tok: "yy_token input = (act, n)" by force
    let ?act = "yy_action be junk (rest (length input)) d act (take n input)"
    have lex: "(case ?act of Some (Ret e) \<Rightarrow> yylex be junk rest e (drop n input) | r \<Rightarrow> r) = Some (Ret d')"
      using less.prems by (subst (asm) yylex.simps) (simp only: False if_False tok fst_conv snd_conv)
    then obtain e where e: "?act = Some (Ret e)" "yylex be junk rest e (drop n input) = Some (Ret d')"
      by (auto split: option.splits cres.splits)
    have short: "length (drop n input) < length input" using yy_token_progress [OF False] tok by simp
    from e less.IH [OF short] have "(sim_step be)\<^sup>*\<^sup>* e d'" by blast
    with sim_step.gdb [OF False tok e(1)] show ?thesis by (rule converse_rtranclp_into_rtranclp)
  qed
qed

lemma irq_steps:
  "(sim_step be)\<^sup>*\<^sup>* d (d\<lparr>pd_gdb := (pd_gdb d)\<lparr>gdb_arm := foldl irq_listener_byte (gdb_arm (pd_gdb d)) irqs\<rparr>\<rparr>)"
proof (induction irqs arbitrary: d)
  case (Cons i irqs)
  let ?e = "d\<lparr>pd_gdb := (pd_gdb d)\<lparr>gdb_arm := irq_listener_byte (gdb_arm (pd_gdb d)) i\<rparr>\<rparr>"
  have "sim_step be d ?e" by (rule sim_step.irq)
  with Cons [of ?e] show ?case by (simp add: converse_rtranclp_into_rtranclp)
qed simp

lemma scanner_steps:
  assumes "gdb_scanner opened be junk rest p input = Some (Ret d)"
  shows "(sim_step be)\<^sup>*\<^sup>* \<lparr>pd_gdb = gdb_init_data p, pd_buffer = []\<rparr> d"
  using assms yylex_steps by (auto simp: gdb_scanner_def Let_def split: if_splits)

lemma initial_irqs:
  "(sim_step be)\<^sup>*\<^sup>* (sim_initial be init c)
     \<lparr>pd_gdb = gdb_init_data (foldl irq_listener_byte (main_arm be init c) irqs), pd_buffer = []\<rparr>"
  using irq_steps [of be "sim_initial be init c" irqs] by (simp add: sim_initial_def gdb_init_data_def)

text \<open>
  Property C23: a whole session is a run of the transition system. When the program accepts its options,
  any interrupts arrive, and the gdb thread then serves a connection to its end, with the buffered scanner and
  whatever the stream and its portions, the processor it leaves is that of a reachable state: well
  formed, with the memory the program created.
\<close>

theorem session_is_reachable:
  assumes "simulator_main fopen be init c oas = Ret (cf, p)"
    and "malloc_total malloc" and "to_eof ans" and "length (received ans) + 1 < 2 ^ 30"
    and "gdb_listener h os port accepted malloc f be junk (foldl irq_listener_byte p irqs) ans = Some (Ret p')"
  shows "\<exists>d. reachable be d \<and> gdb_arm (pd_gdb d) = p' \<and> core_wf p' \<and>
    mem_kind (core_mem p') = (0x20000, of_bool be)"
proof -
  have p: "p = main_arm be init c" using assms(1) by (auto simp: simulator_main_def)
  from assms(5) obtain d where d: "gdb_scanner_buffered malloc be junk f (foldl irq_listener_byte p irqs) ans = Some (Ret d)"
    "gdb_arm (pd_gdb d) = p'"
    by (auto simp: gdb_listener_def split: cres.splits)
  then obtain rest where "gdb_scanner (f \<noteq> None) be junk rest (foldl irq_listener_byte p irqs) (received ans) = Some (Ret d)"
    using buffered_stream [OF assms(2-4)] by metis
  from rtranclp_trans [OF initial_irqs [of be init c irqs, folded p] scanner_steps [OF this]]
  have "reachable be d" unfolding reachable_def by blast
  with reachable_inv [OF this] d(2) show ?thesis by (auto simp: sim_inv_def gdb_inv_def)
qed

text \<open>A system on which every call succeeds.\<close>

definition sample_sockets :: sockets where
  "sample_sockets = \<lparr>os_socket = 3, os_setsockopt = (\<lambda>_. 0), os_bind = (\<lambda>_ _. 0),
     os_getsockname = (\<lambda>_ a. a), os_listen = (\<lambda>_ _. 0)\<rparr>"

theorem session_is_reachable_witness:
  "\<exists>d. reachable True d \<and> gdb_arm (pd_gdb d) = arm_exception (main_arm True (\<lambda>_. 0) 0) 1"
proof -
  let ?p = "main_arm True (\<lambda>_. 0) 0" and ?malloc = "\<lambda>n. Some (replicate n NUL)" and ?ans = "[Got [43], Got [43], Got []]"
  have m: "simulator_main (\<lambda>_. True) True (\<lambda>_. 0) 0 [(CHR ''r'', [])] =
      Ret (config_initial\<lparr>cf_trace := set_trace_file (trace_add trace_initial REGISTERS) []\<rparr>, ?p)"
    by (simp add: simulator_main_def option_step_def config_initial_def)
  have a: "malloc_total ?malloc" by (simp add: malloc_total_def)
  have r: "received ?ans = ''++''" by code_simp
  have e: "to_eof ?ans" by simp
  have l: "length (received ?ans) + 1 < 2 ^ 30" unfolding r by simp
  have q: "foldl irq_listener_byte ?p [1] = arm_exception ?p 1" by (simp add: irq_listener_byte_def)
  obtain rest where "gdb_scanner_buffered ?malloc True 0 (Some 4) (arm_exception ?p 1) ?ans =
      gdb_scanner True True 0 rest (arm_exception ?p 1) ''++''"
    using buffered_stream [OF a e l, of True 0 "Some 4" "arm_exception ?p 1"] r by auto
  then have "gdb_listener LittleEndianHost sample_sockets 0 4 ?malloc (Some 4) True 0 (foldl irq_listener_byte ?p [1]) ?ans =
      Some (Ret (arm_exception ?p 1))"
    unfolding q
    by (simp add: gdb_listener_def create_server_def sample_sockets_def Let_def Socket_def Setsockopt_def Bind_def
        Listen_def Accept_def unix_result_def gdb_scanner_def yylex.simps yy_token_rule yy_action_def
        handle_error_def gdb_init_data_def)
  from session_is_reachable [OF m a e l this] show ?thesis by blast
qed

end
