(* ===== verification/Csapp_Wrappers.thy ===== *)
theory Csapp_Wrappers
  imports Simulator
begin

text \<open>
  The other wrappers of \<^verbatim>\<open>csapp.c\<close>, around the calls for processes, signals, files, mappings, memory, streams,
  threads and semaphores, and the functions that open a connection. The result of the call is the
  argument of the wrapper; what the call does to the system is the system's. A wrapper returns the result, or ends
  the process when the call failed: the contract \<open>checked_call\<close>, of which every wrapper is an
  interpretation.
\<close>

section \<open>The contract\<close>

locale checked_call =
  fixes wrapper :: "'a \<Rightarrow> 'b cres" and failed :: "'a \<Rightarrow> bool" and result :: "'a \<Rightarrow> 'b"
  assumes on_failure: "failed a \<Longrightarrow> wrapper a = Exit"
    and on_success: "\<not> failed a \<Longrightarrow> wrapper a = Ret (result a)"
begin

lemma returns_iff: "wrapper a = Ret v \<longleftrightarrow> \<not> failed a \<and> v = result a"
  using on_failure on_success by (cases "failed a") auto

lemma exits_iff: "wrapper a = Exit \<longleftrightarrow> failed a"
  using on_failure on_success by (cases "failed a") auto

lemma bind_eq: "cbind (wrapper a) k = (if failed a then Exit else k (result a))"
  by (simp add: on_failure on_success)

end

section \<open>Errors\<close>

text \<open>All four print a message and end the process, with the status 0 of a success.\<close>

definition posix_error :: "'a cres" where "posix_error = Exit"
definition app_error :: "'a cres" where "app_error = Exit"

section \<open>Processes\<close>

definition Fork :: "int \<Rightarrow> int cres" where
  "Fork pid = (if pid < 0 then unix_error else Ret pid)"

definition Execve :: "int \<Rightarrow> unit cres" where
  "Execve rc = (if rc < 0 then unix_error else Ret ())"

definition Wait :: "int \<Rightarrow> int cres" where
  "Wait pid = (if pid < 0 then unix_error else Ret pid)"

definition Waitpid :: "int \<Rightarrow> int cres" where
  "Waitpid retpid = (if retpid < 0 then unix_error else Ret retpid)"

definition Kill :: "int \<Rightarrow> unit cres" where
  "Kill rc = (if rc < 0 then unix_error else Ret ())"

definition Pause :: "int \<Rightarrow> unit cres" where
  "Pause rc = Ret ()"

text \<open>The result is unsigned, so the test never holds.\<close>

definition Sleep :: "u32 \<Rightarrow> u32 cres" where
  "Sleep rc = (if uint rc < 0 then unix_error else Ret rc)"

definition Alarm :: "u32 \<Rightarrow> u32 cres" where
  "Alarm left_over = Ret left_over"

definition Setpgid :: "int \<Rightarrow> unit cres" where
  "Setpgid rc = (if rc < 0 then unix_error else Ret ())"

definition Getpgrp :: "int \<Rightarrow> int cres" where
  "Getpgrp pgrp = Ret pgrp"

section \<open>Signals\<close>

text \<open>The second component is what the call stores: the old handler.\<close>

definition Signal :: "int \<times> 'h \<Rightarrow> 'h cres" where
  "Signal r = (case r of (rc, old_handler) \<Rightarrow> if rc < 0 then unix_error else Ret old_handler)"

definition Sigprocmask :: "int \<Rightarrow> unit cres" where
  "Sigprocmask rc = (if rc < 0 then unix_error else Ret ())"

definition Sigemptyset :: "int \<Rightarrow> unit cres" where
  "Sigemptyset rc = (if rc < 0 then unix_error else Ret ())"

definition Sigfillset :: "int \<Rightarrow> unit cres" where
  "Sigfillset rc = (if rc < 0 then unix_error else Ret ())"

definition Sigaddset :: "int \<Rightarrow> unit cres" where
  "Sigaddset rc = (if rc < 0 then unix_error else Ret ())"

definition Sigdelset :: "int \<Rightarrow> unit cres" where
  "Sigdelset rc = (if rc < 0 then unix_error else Ret ())"

definition Sigismember :: "int \<Rightarrow> int cres" where
  "Sigismember rc = (if rc < 0 then unix_error else Ret rc)"

section \<open>Files\<close>

definition Open :: "int \<Rightarrow> int cres" where
  "Open rc = (if rc < 0 then unix_error else Ret rc)"

definition Lseek :: "int \<Rightarrow> int cres" where
  "Lseek rc = (if rc < 0 then unix_error else Ret rc)"

definition Close :: "int \<Rightarrow> unit cres" where
  "Close rc = (if rc < 0 then unix_error else Ret ())"

definition Select :: "int \<Rightarrow> int cres" where
  "Select rc = (if rc < 0 then unix_error else Ret rc)"

definition Dup2 :: "int \<Rightarrow> int cres" where
  "Dup2 rc = (if rc < 0 then unix_error else Ret rc)"

definition Stat :: "int \<Rightarrow> unit cres" where
  "Stat rc = (if rc < 0 then unix_error else Ret ())"

definition Fstat :: "int \<Rightarrow> unit cres" where
  "Fstat rc = (if rc < 0 then unix_error else Ret ())"

section \<open>Mappings and memory\<close>

text \<open>A pointer has 64 bits; \<^verbatim>\<open>(void *) -1\<close> is the failure of \<^verbatim>\<open>mmap\<close>, the null pointer that of the others.\<close>

definition Mmap :: "64 word \<Rightarrow> 64 word cres" where
  "Mmap ptr = (if ptr = - 1 then unix_error else Ret ptr)"

definition Munmap :: "int \<Rightarrow> unit cres" where
  "Munmap rc = (if rc < 0 then unix_error else Ret ())"

definition Malloc :: "64 word \<Rightarrow> 64 word cres" where
  "Malloc p = (if p = 0 then unix_error else Ret p)"

definition Realloc :: "64 word \<Rightarrow> 64 word cres" where
  "Realloc p = (if p = 0 then unix_error else Ret p)"

definition Calloc :: "64 word \<Rightarrow> 64 word cres" where
  "Calloc p = (if p = 0 then unix_error else Ret p)"

definition Free :: "64 word \<Rightarrow> unit cres" where
  "Free ptr = Ret ()"

section \<open>Streams\<close>

definition Fclose :: "int \<Rightarrow> unit cres" where
  "Fclose rc = (if rc \<noteq> 0 then unix_error else Ret ())"

definition Fdopen :: "64 word \<Rightarrow> 64 word cres" where
  "Fdopen fp = (if fp = 0 then unix_error else Ret fp)"

text \<open>The second component is \<^verbatim>\<open>ferror(stream)\<close>: the end of the file is not an error.\<close>

definition Fgets :: "64 word \<times> bool \<Rightarrow> 64 word cres" where
  "Fgets r = (case r of (rptr, ferror) \<Rightarrow> if rptr = 0 \<and> ferror then app_error else Ret rptr)"

definition Fopen :: "64 word \<Rightarrow> 64 word cres" where
  "Fopen fp = (if fp = 0 then unix_error else Ret fp)"

definition Fputs :: "int \<Rightarrow> unit cres" where
  "Fputs rc = (if rc = - 1 then unix_error else Ret ())"

definition Fread :: "nat \<Rightarrow> nat \<times> bool \<Rightarrow> nat cres" where
  "Fread nmemb r = (case r of (n, ferror) \<Rightarrow> if n < nmemb \<and> ferror then unix_error else Ret n)"

definition Fwrite :: "nat \<Rightarrow> nat \<Rightarrow> unit cres" where
  "Fwrite nmemb n = (if n < nmemb then unix_error else Ret ())"

section \<open>Hosts, threads and semaphores\<close>

definition Gethostbyaddr :: "'h option \<Rightarrow> 'h cres" where
  "Gethostbyaddr p = (case p of None \<Rightarrow> dns_error | Some h \<Rightarrow> Ret h)"

definition Pthread_create :: "int \<Rightarrow> unit cres" where
  "Pthread_create rc = (if rc \<noteq> 0 then posix_error else Ret ())"

definition Pthread_cancel :: "int \<Rightarrow> unit cres" where
  "Pthread_cancel rc = (if rc \<noteq> 0 then posix_error else Ret ())"

definition Pthread_join :: "int \<Rightarrow> unit cres" where
  "Pthread_join rc = (if rc \<noteq> 0 then posix_error else Ret ())"

definition Pthread_detach :: "int \<Rightarrow> unit cres" where
  "Pthread_detach rc = (if rc \<noteq> 0 then posix_error else Ret ())"

definition Pthread_self :: "64 word \<Rightarrow> 64 word cres" where
  "Pthread_self tid = Ret tid"

definition Sem_init :: "int \<Rightarrow> unit cres" where
  "Sem_init rc = (if rc < 0 then unix_error else Ret ())"

definition P :: "int \<Rightarrow> unit cres" where
  "P rc = (if rc < 0 then unix_error else Ret ())"

definition V :: "int \<Rightarrow> unit cres" where
  "V rc = (if rc < 0 then unix_error else Ret ())"

section \<open>The contract holds\<close>

lemmas error_defs = unix_error_def dns_error_def posix_error_def app_error_def

interpretation fork_call: checked_call Fork "\<lambda>rc. rc < 0" "\<lambda>rc. rc"
  by unfold_locales (simp_all add: Fork_def error_defs case_prod_beta split: option.splits)

interpretation wait_call: checked_call Wait "\<lambda>rc. rc < 0" "\<lambda>rc. rc"
  by unfold_locales (simp_all add: Wait_def error_defs case_prod_beta split: option.splits)

interpretation waitpid_call: checked_call Waitpid "\<lambda>rc. rc < 0" "\<lambda>rc. rc"
  by unfold_locales (simp_all add: Waitpid_def error_defs case_prod_beta split: option.splits)

interpretation sigismember_call: checked_call Sigismember "\<lambda>rc. rc < 0" "\<lambda>rc. rc"
  by unfold_locales (simp_all add: Sigismember_def error_defs case_prod_beta split: option.splits)

interpretation open_call: checked_call Open "\<lambda>rc. rc < 0" "\<lambda>rc. rc"
  by unfold_locales (simp_all add: Open_def error_defs case_prod_beta split: option.splits)

interpretation lseek_call: checked_call Lseek "\<lambda>rc. rc < 0" "\<lambda>rc. rc"
  by unfold_locales (simp_all add: Lseek_def error_defs case_prod_beta split: option.splits)

interpretation select_call: checked_call Select "\<lambda>rc. rc < 0" "\<lambda>rc. rc"
  by unfold_locales (simp_all add: Select_def error_defs case_prod_beta split: option.splits)

interpretation dup2_call: checked_call Dup2 "\<lambda>rc. rc < 0" "\<lambda>rc. rc"
  by unfold_locales (simp_all add: Dup2_def error_defs case_prod_beta split: option.splits)

interpretation execve_call: checked_call Execve "\<lambda>rc. rc < 0" "\<lambda>_. ()"
  by unfold_locales (simp_all add: Execve_def error_defs case_prod_beta split: option.splits)

interpretation kill_call: checked_call Kill "\<lambda>rc. rc < 0" "\<lambda>_. ()"
  by unfold_locales (simp_all add: Kill_def error_defs case_prod_beta split: option.splits)

interpretation setpgid_call: checked_call Setpgid "\<lambda>rc. rc < 0" "\<lambda>_. ()"
  by unfold_locales (simp_all add: Setpgid_def error_defs case_prod_beta split: option.splits)

interpretation sigprocmask_call: checked_call Sigprocmask "\<lambda>rc. rc < 0" "\<lambda>_. ()"
  by unfold_locales (simp_all add: Sigprocmask_def error_defs case_prod_beta split: option.splits)

interpretation sigemptyset_call: checked_call Sigemptyset "\<lambda>rc. rc < 0" "\<lambda>_. ()"
  by unfold_locales (simp_all add: Sigemptyset_def error_defs case_prod_beta split: option.splits)

interpretation sigfillset_call: checked_call Sigfillset "\<lambda>rc. rc < 0" "\<lambda>_. ()"
  by unfold_locales (simp_all add: Sigfillset_def error_defs case_prod_beta split: option.splits)

interpretation sigaddset_call: checked_call Sigaddset "\<lambda>rc. rc < 0" "\<lambda>_. ()"
  by unfold_locales (simp_all add: Sigaddset_def error_defs case_prod_beta split: option.splits)

interpretation sigdelset_call: checked_call Sigdelset "\<lambda>rc. rc < 0" "\<lambda>_. ()"
  by unfold_locales (simp_all add: Sigdelset_def error_defs case_prod_beta split: option.splits)

interpretation close_call: checked_call Close "\<lambda>rc. rc < 0" "\<lambda>_. ()"
  by unfold_locales (simp_all add: Close_def error_defs case_prod_beta split: option.splits)

interpretation stat_call: checked_call Stat "\<lambda>rc. rc < 0" "\<lambda>_. ()"
  by unfold_locales (simp_all add: Stat_def error_defs case_prod_beta split: option.splits)

interpretation fstat_call: checked_call Fstat "\<lambda>rc. rc < 0" "\<lambda>_. ()"
  by unfold_locales (simp_all add: Fstat_def error_defs case_prod_beta split: option.splits)

interpretation munmap_call: checked_call Munmap "\<lambda>rc. rc < 0" "\<lambda>_. ()"
  by unfold_locales (simp_all add: Munmap_def error_defs case_prod_beta split: option.splits)

interpretation sem_init_call: checked_call Sem_init "\<lambda>rc. rc < 0" "\<lambda>_. ()"
  by unfold_locales (simp_all add: Sem_init_def error_defs case_prod_beta split: option.splits)

interpretation p_call: checked_call P "\<lambda>rc. rc < 0" "\<lambda>_. ()"
  by unfold_locales (simp_all add: P_def error_defs case_prod_beta split: option.splits)

interpretation v_call: checked_call V "\<lambda>rc. rc < 0" "\<lambda>_. ()"
  by unfold_locales (simp_all add: V_def error_defs case_prod_beta split: option.splits)

interpretation setsockopt_call: checked_call Setsockopt "\<lambda>rc. rc < 0" "\<lambda>_. ()"
  by unfold_locales (simp_all add: Setsockopt_def error_defs case_prod_beta split: option.splits)

interpretation bind_call: checked_call Bind "\<lambda>rc. rc < 0" "\<lambda>_. ()"
  by unfold_locales (simp_all add: Bind_def error_defs case_prod_beta split: option.splits)

interpretation listen_call: checked_call Listen "\<lambda>rc. rc < 0" "\<lambda>_. ()"
  by unfold_locales (simp_all add: Listen_def error_defs case_prod_beta split: option.splits)

interpretation connect_call: checked_call Connect "\<lambda>rc. rc < 0" "\<lambda>_. ()"
  by unfold_locales (simp_all add: Connect_def error_defs case_prod_beta split: option.splits)

interpretation pause_call: checked_call Pause "\<lambda>_. False" "\<lambda>_. ()"
  by unfold_locales (simp_all add: Pause_def error_defs case_prod_beta split: option.splits)

interpretation sleep_call: checked_call Sleep "\<lambda>_. False" "\<lambda>rc. rc"
  by unfold_locales (simp_all add: Sleep_def error_defs case_prod_beta split: option.splits)

interpretation alarm_call: checked_call Alarm "\<lambda>_. False" "\<lambda>rc. rc"
  by unfold_locales (simp_all add: Alarm_def error_defs case_prod_beta split: option.splits)

interpretation getpgrp_call: checked_call Getpgrp "\<lambda>_. False" "\<lambda>rc. rc"
  by unfold_locales (simp_all add: Getpgrp_def error_defs case_prod_beta split: option.splits)

interpretation free_call: checked_call Free "\<lambda>_. False" "\<lambda>_. ()"
  by unfold_locales (simp_all add: Free_def error_defs case_prod_beta split: option.splits)

interpretation pthread_self_call: checked_call Pthread_self "\<lambda>_. False" "\<lambda>rc. rc"
  by unfold_locales (simp_all add: Pthread_self_def error_defs case_prod_beta split: option.splits)

interpretation signal_call: checked_call Signal "\<lambda>r. fst r < 0" "snd"
  by unfold_locales (simp_all add: Signal_def error_defs case_prod_beta split: option.splits)

interpretation mmap_call: checked_call Mmap "\<lambda>ptr. ptr = - 1" "\<lambda>ptr. ptr"
  by unfold_locales (simp_all add: Mmap_def error_defs case_prod_beta split: option.splits)

interpretation malloc_call: checked_call Malloc "\<lambda>p. p = 0" "\<lambda>p. p"
  by unfold_locales (simp_all add: Malloc_def error_defs case_prod_beta split: option.splits)

interpretation realloc_call: checked_call Realloc "\<lambda>p. p = 0" "\<lambda>p. p"
  by unfold_locales (simp_all add: Realloc_def error_defs case_prod_beta split: option.splits)

interpretation calloc_call: checked_call Calloc "\<lambda>p. p = 0" "\<lambda>p. p"
  by unfold_locales (simp_all add: Calloc_def error_defs case_prod_beta split: option.splits)

interpretation fdopen_call: checked_call Fdopen "\<lambda>p. p = 0" "\<lambda>p. p"
  by unfold_locales (simp_all add: Fdopen_def error_defs case_prod_beta split: option.splits)

interpretation fopen_call: checked_call Fopen "\<lambda>p. p = 0" "\<lambda>p. p"
  by unfold_locales (simp_all add: Fopen_def error_defs case_prod_beta split: option.splits)

interpretation fclose_call: checked_call Fclose "\<lambda>rc. rc \<noteq> 0" "\<lambda>_. ()"
  by unfold_locales (simp_all add: Fclose_def error_defs case_prod_beta split: option.splits)

interpretation fgets_call: checked_call Fgets "\<lambda>r. fst r = 0 \<and> snd r" "fst"
  by unfold_locales (simp_all add: Fgets_def error_defs case_prod_beta split: option.splits)

interpretation fputs_call: checked_call Fputs "\<lambda>rc. rc = - 1" "\<lambda>_. ()"
  by unfold_locales (simp_all add: Fputs_def error_defs case_prod_beta split: option.splits)

interpretation fread_call: checked_call "Fread nmemb" "\<lambda>r. fst r < nmemb \<and> snd r" fst for nmemb
  by unfold_locales (simp_all add: Fread_def error_defs case_prod_beta)

interpretation fwrite_call: checked_call "Fwrite nmemb" "\<lambda>n. n < nmemb" "\<lambda>_. ()" for nmemb
  by unfold_locales (simp_all add: Fwrite_def error_defs)

interpretation gethostbyname_call: checked_call Gethostbyname "\<lambda>p. p = None" "the"
  by unfold_locales (simp_all add: Gethostbyname_def error_defs case_prod_beta split: option.splits)

interpretation gethostbyaddr_call: checked_call Gethostbyaddr "\<lambda>p. p = None" "the"
  by unfold_locales (simp_all add: Gethostbyaddr_def error_defs case_prod_beta split: option.splits)

interpretation pthread_create_call: checked_call Pthread_create "\<lambda>rc. rc \<noteq> 0" "\<lambda>_. ()"
  by unfold_locales (simp_all add: Pthread_create_def error_defs case_prod_beta split: option.splits)

interpretation pthread_cancel_call: checked_call Pthread_cancel "\<lambda>rc. rc \<noteq> 0" "\<lambda>_. ()"
  by unfold_locales (simp_all add: Pthread_cancel_def error_defs case_prod_beta split: option.splits)

interpretation pthread_join_call: checked_call Pthread_join "\<lambda>rc. rc \<noteq> 0" "\<lambda>_. ()"
  by unfold_locales (simp_all add: Pthread_join_def error_defs case_prod_beta split: option.splits)

interpretation pthread_detach_call: checked_call Pthread_detach "\<lambda>rc. rc \<noteq> 0" "\<lambda>_. ()"
  by unfold_locales (simp_all add: Pthread_detach_def error_defs case_prod_beta split: option.splits)

interpretation socket_call: checked_call Socket "\<lambda>rc. rc < 0" "\<lambda>rc. rc"
  by unfold_locales (simp_all add: Socket_def unix_result_def error_defs)

interpretation accept_call: checked_call Accept "\<lambda>rc. rc < 0" "\<lambda>rc. rc"
  by unfold_locales (simp_all add: Accept_def unix_result_def error_defs)

interpretation read_call: checked_call Read "\<lambda>a. \<exists>e. a = Read_failed e" "\<lambda>a. case a of Got bs \<Rightarrow> (int (length bs), bs) | _ \<Rightarrow> (0, [])"
  by unfold_locales (auto simp: Read_def error_defs split: read_answer.splits)

interpretation write_call: checked_call Write "\<lambda>a. \<exists>e. a = Write_failed e" "\<lambda>a. case a of Wrote k \<Rightarrow> int k | _ \<Rightarrow> 0"
  by unfold_locales (auto simp: Write_def error_defs split: write_answer.splits)

section \<open>Connections\<close>

definition AF_INET :: int where
  "AF_INET = 2"

definition LISTENQ :: int where
  "LISTENQ = 1024"

text \<open>
  The connection of a client: the results of \<^verbatim>\<open>socket\<close>, \<^verbatim>\<open>gethostbyname\<close> (the first address of the host) and \<^verbatim>\<open>connect\<close>.
\<close>

definition open_clientfd :: "host \<Rightarrow> int \<Rightarrow> u32 option \<Rightarrow> (int \<Rightarrow> sockaddr_in \<Rightarrow> int) \<Rightarrow> int \<Rightarrow> int" where
  "open_clientfd h clientfd hp connect port =
     (if clientfd < 0 then - 1
      else case hp of
          None \<Rightarrow> - 2
        | Some addr \<Rightarrow>
            let serveraddr = \<lparr>sin_family = AF_INET, sin_port = htons h (word_of_int port), sin_addr = addr\<rparr>
            in if connect clientfd serveraddr < 0 then - 1 else clientfd)"

definition open_listenfd :: "host \<Rightarrow> sockets \<Rightarrow> int \<Rightarrow> int" where
  "open_listenfd h os port =
     (let listenfd = os_socket os
      in if listenfd < 0 then - 1
         else if os_setsockopt os listenfd < 0 then - 1
         else let serveraddr = \<lparr>sin_family = AF_INET, sin_port = htons h (word_of_int port), sin_addr = 0\<rparr>
              in if os_bind os listenfd serveraddr < 0 then - 1
                 else if os_listen os listenfd LISTENQ < 0 then - 1 else listenfd)"

definition Open_clientfd :: "host \<Rightarrow> int \<Rightarrow> u32 option \<Rightarrow> (int \<Rightarrow> sockaddr_in \<Rightarrow> int) \<Rightarrow> int \<Rightarrow> int cres" where
  "Open_clientfd h clientfd hp connect port =
     (let rc = open_clientfd h clientfd hp connect port
      in if rc < 0 then if rc = - 1 then unix_error else dns_error else Ret rc)"

definition Open_listenfd :: "host \<Rightarrow> sockets \<Rightarrow> int \<Rightarrow> int cres" where
  "Open_listenfd h os port =
     (let rc = open_listenfd h os port in if rc < 0 then unix_error else Ret rc)"

text \<open>
  Fact: the server's own function does what the library's does. When the system takes any length of the queue
  of connections, \<^verbatim>\<open>create_server\<close> returns exactly when \<^verbatim>\<open>Open_listenfd\<close> does, for the same port, with the
  same listening socket, and otherwise both end the process.
\<close>

theorem create_server_is_open_listenfd:
  assumes "\<And>s. os_listen os s 1 < 0 \<longleftrightarrow> os_listen os s LISTENQ < 0"
  shows "cbind (create_server h os (word_of_int port)) (\<lambda>sv. Ret (sv_socket sv)) = Open_listenfd h os port"
  using assms
  by (simp add: create_server_def Open_listenfd_def open_listenfd_def socket_call.bind_eq setsockopt_call.bind_eq
      bind_call.bind_eq listen_call.bind_eq Let_def AF_INET_def PF_INET_def error_defs del: cbind_eq_Ret)

theorem create_server_is_open_listenfd_witness:
  "cbind (create_server LittleEndianHost sample_sockets 4242) (\<lambda>sv. Ret (sv_socket sv)) = Open_listenfd LittleEndianHost sample_sockets 4242"
  using create_server_is_open_listenfd [of sample_sockets LittleEndianHost 4242] by (simp add: sample_sockets_def)

text \<open>
  A client is connected exactly when the three calls succeed; the library tells a failure of the name
  from the others.
\<close>

lemma open_clientfd_cases:
  "open_clientfd h fd hp connect port =
    (if fd < 0 then - 1 else if hp = None then - 2
     else if connect fd \<lparr>sin_family = AF_INET, sin_port = htons h (word_of_int port), sin_addr = the hp\<rparr> < 0 then - 1
     else fd)"
  by (simp add: open_clientfd_def Let_def split: option.split)

text \<open>
  Fact: a call of \<^verbatim>\<open>sleep\<close> is never reported as an error, whatever it returns: the test of the wrapper compares
  an unsigned number with 0.
\<close>

lemma sleep_never_fails: "Sleep rc = Ret rc"
  by (rule sleep_call.on_success) simp

end
