(* ===== verification/Debug_Macros.thy ===== *)
theory Debug_Macros
  imports Debug C_Format
begin

text \<open>
  The macros of \<^verbatim>\<open>debug.h\<close>: the test whether a file is debugged, without and with the cache of \<^verbatim>\<open>CACHE_DEBUG_FLAG\<close>, and
  the messages they print to the standard error output. The cache is one answer per source file.

  The lemmas show what the cache answers: always the first answer, whatever files are added later.
\<close>

section \<open>The test\<close>

record debug_cache =
  is_debugged_first :: int
  is_debugged_result :: int

definition debug_cache_initial :: debug_cache where
  "debug_cache_initial = \<lparr>is_debugged_first = 1, is_debugged_result = 0\<rparr>"

text \<open>The macro with the cache: \<open>first && (first = 0, result = __is_debugged(x)) || result\<close>, and the cache it leaves.\<close>

definition is_debugged_cached :: "debug_cache \<Rightarrow> debug_state \<Rightarrow> string \<Rightarrow> int \<times> debug_cache" where
  "is_debugged_cached c d x =
     (if is_debugged_first c \<noteq> 0
      then let c = c\<lparr>is_debugged_first := 0\<rparr>; c = c\<lparr>is_debugged_result := is_debugged d x\<rparr>
           in (of_bool (is_debugged_result c \<noteq> 0 \<or> is_debugged_result c \<noteq> 0), c)
      else (of_bool (is_debugged_result c \<noteq> 0), c))"

section \<open>The messages\<close>

text \<open>What a macro prints for the text that its arguments format to; \<open>line\<close> is \<^verbatim>\<open>__LINE__\<close>.\<close>

definition debug_raw :: "debug_state \<Rightarrow> string \<Rightarrow> string \<Rightarrow> string" where
  "debug_raw d file s = (if is_debugged d file \<noteq> 0 then s else [])"

definition debug_msg :: "debug_state \<Rightarrow> string \<Rightarrow> int \<Rightarrow> string \<Rightarrow> string" where
  "debug_msg d file line s =
     (if is_debugged d file \<noteq> 0 then ''[DEBUG] '' @ file @ '','' @ fmt_int line @ '': '' @ s else [])"

definition debug_binary :: "debug_state \<Rightarrow> string \<Rightarrow> string \<Rightarrow> nat \<Rightarrow> string" where
  "debug_binary d file data len = (if is_debugged d file \<noteq> 0 then debug_raw_binary data len else [])"

definition warning_msg :: "string \<Rightarrow> int \<Rightarrow> string \<Rightarrow> string" where
  "warning_msg file line s = ''[WARNING] '' @ file @ '', '' @ fmt_int line @ '': '' @ s"

section \<open>The cache\<close>

text \<open>The answers of the macro in one x while the list of debugged xs goes through the states \<open>ds\<close>.\<close>

fun cached_answers :: "debug_cache \<Rightarrow> string \<Rightarrow> debug_state list \<Rightarrow> int list" where
  "cached_answers c x [] = []"
| "cached_answers c x (d # ds) =
     (let (a, c) = is_debugged_cached c d x in a # cached_answers c x ds)"

lemma cached_later:
  "is_debugged_first c = 0 \<Longrightarrow>
     cached_answers c x ds = replicate (length ds) (of_bool (is_debugged_result c \<noteq> 0))"
  by (induction ds) (simp_all add: is_debugged_cached_def)

lemma is_debugged_01: "is_debugged d x = 0 \<or> is_debugged d x = 1"
  by (simp add: is_debugged_def split: option.split)

text \<open>
  Fact: with the cache a file keeps the first answer it got for ever. A file that asks before its name is added, while
  the options are parsed, is not debugged although the uncached test says that it is; otherwise the
  answers are those of the test without the cache.
\<close>

theorem cache_keeps_first_answer:
  "cached_answers debug_cache_initial x (d # ds) = replicate (Suc (length ds)) (is_debugged d x)"
  using is_debugged_01 [of d x]
  by (auto simp: is_debugged_cached_def debug_cache_initial_def cached_later Let_def)

lemma cache_correct:
  assumes "\<And>e. e \<in> set ds \<Longrightarrow> is_debugged e x = is_debugged (hd ds) x"
  shows "cached_answers debug_cache_initial x ds = map (\<lambda>d. is_debugged d x) ds"
proof (cases ds)
  case (Cons d es)
  have "map (\<lambda>e. is_debugged e x) es = map (\<lambda>e. is_debugged d x) es"
  proof (rule map_cong [OF refl])
    fix e
    assume "e \<in> set es"
    then show "is_debugged e x = is_debugged d x"
      using assms [of e] Cons by simp
  qed
  then have "map (\<lambda>d. is_debugged d x) es = replicate (length es) (is_debugged d x)"
    by (simp add: map_replicate_const)
  then show ?thesis unfolding Cons cache_keeps_first_answer by simp
qed simp

end
