(* ===== verification/Example_Programs.thy ===== *)
theory Example_Programs
  imports Gdb_Props
begin

text \<open>
  Two programs of \<^verbatim>\<open>Examples\<close>, which the simulator is meant to run. \<^verbatim>\<open>insertion_sort.c\<close> is modelled in C, its loops as
  they are written. \<^verbatim>\<open>example1.s\<close> is the words of its instructions, in the encodings of the ARM manual, and runs on the
  model of the simulator.

  The lemmas show that the sort does not return, and that a continue of the server runs the other program to
  its end, through every turn of its loop.
\<close>

section \<open>insertion_sort.c\<close>

definition SIZE :: nat where
  "SIZE = 10"

text \<open>
  The loop \<^verbatim>\<open>while (j > 0)\<close>; \<open>None\<close> when it does not end. The model is the loop as it is written; C lets a compiler
  assume that a loop like this one ends.
\<close>

partial_function (option) insertion_while :: "nat \<Rightarrow> int list \<Rightarrow> int list cres option" where
  "insertion_while j t =
     (if 0 < j
      then if length t \<le> j then Some Undef
           else insertion_while j
             (if t ! (j - 1) > t ! j
              then let tmp = t ! (j - 1);
                       t = t[j - 1 := t ! j];
                       t = t[j := tmp]
                   in t
              else t)
      else Some (Ret t))"

text \<open>The loop \<^verbatim>\<open>for (i = 0; i < size; i++)\<close>, from \<open>i\<close> on; \<open>n\<close> is \<^verbatim>\<open>size\<close>.\<close>

partial_function (option) insertion_for :: "nat \<Rightarrow> nat \<Rightarrow> int list \<Rightarrow> int list cres option" where
  "insertion_for n i t =
     (if i < n
      then let j = i
           in (case insertion_while j t of
                 Some (Ret t) \<Rightarrow> insertion_for n (i + 1) t
               | Some Exit \<Rightarrow> Some Exit
               | Some Undef \<Rightarrow> Some Undef
               | None \<Rightarrow> None)
      else Some (Ret t))"

definition insertion_sort_main :: "int cres option" where
  "insertion_sort_main =
     (let t = [3, 6, 2, 0, 4, 1, 9, 8, 5, 7];
          n = SIZE
      in map_option (\<lambda>r. cbind r (\<lambda>t. Ret 0)) (insertion_for n 0 t))"

lemmas insertion_while_induct = insertion_while.raw_induct [rotated, consumes 1, case_names 1]

text \<open>Nothing in the loop decreases \<open>j\<close>.\<close>

lemma insertion_while_returns:
  assumes "insertion_while j t = Some r"
  shows "j = 0 \<or> length t \<le> j"
  using assms
proof (induction j t r rule: insertion_while_induct)
  case (1 loop j t r)
  show ?case
  proof (rule ccontr)
    assume j: "\<not> (j = 0 \<or> length t \<le> j)"
    then have "loop j (if t ! (j - 1) > t ! j then t[j - 1 := t ! j, j := t ! (j - 1)] else t) = Some r"
      using 1(2) by (cases "t ! (j - 1) > t ! j") simp_all
    from 1(1) [OF this] j show False by (auto split: if_splits)
  qed
qed

lemma insertion_while_0 [simp]: "insertion_while 0 t = Some (Ret t)"
  by (subst insertion_while.simps) simp

lemma insertion_while_diverges [simp]: "0 < j \<Longrightarrow> j < length t \<Longrightarrow> insertion_while j t = None"
  using insertion_while_returns [of j t] by (cases "insertion_while j t") auto

text \<open>
  Property C40: the sort returns exactly when there is nothing to sort. With two elements or more the loop at the second
  one never ends, whatever the array holds; the program, which sorts ten, does not return.
\<close>

theorem insertion_sort_never_sorts:
  assumes "n \<le> length t"
  shows "insertion_for n 0 t = (if n < 2 then Some (Ret t) else None)"
proof -
  have "insertion_for n 0 t = (if n = 0 then Some (Ret t) else insertion_for n 1 t)"
    by (subst insertion_for.simps) simp
  moreover have "insertion_for n 1 t = (if n < 2 then Some (Ret t) else None)"
    using assms by (subst insertion_for.simps) simp
  ultimately show ?thesis by simp
qed

theorem insertion_sort_never_sorts_witness:
  "insertion_for 1 0 [4] = Some (Ret [4]) \<and> insertion_for 10 0 [3, 6, 2, 0, 4, 1, 9, 8, 5, 7] = None"
  using insertion_sort_never_sorts [of 1 "[4]"]
    insertion_sort_never_sorts [of 10 "[3, 6, 2, 0, 4, 1, 9, 8, 5, 7]"] by simp

section \<open>example1.s\<close>

text \<open>
  The text section: \<^verbatim>\<open>decr\<close>, which subtracts 1 from \<^verbatim>\<open>r0\<close> and returns, \<^verbatim>\<open>main\<close>, which sets it to 5, \<^verbatim>\<open>loop\<close>,
  which calls \<^verbatim>\<open>decr\<close> until it leaves 0, and \<^verbatim>\<open>end\<close>. The linker script puts it at 32.
\<close>

definition example1_text :: "u32 list" where
  "example1_text =
     [0xE2500001, \<comment> \<open>decr: subs r0, r0, #1\<close>
      0xE1A0F00E, \<comment> \<open>mov pc, lr\<close>
      0xE3A00005, \<comment> \<open>main: mov r0, #5\<close>
      0xEBFFFFFB, \<comment> \<open>loop: bl decr\<close>
      0x1AFFFFFD, \<comment> \<open>bne loop\<close>
      0xEF123456] \<comment> \<open>end: swi 0x123456\<close>"

definition holds_text :: "arm_core \<Rightarrow> u32 \<Rightarrow> u32 list \<Rightarrow> bool" where
  "holds_text p a ws \<longleftrightarrow> (\<forall>i < length ws. word_at p (a + 4 * of_nat i) = Some (ws ! i))"

text \<open>The processor is at the address \<open>a\<close> of the program \<open>ws\<close>.\<close>

definition program_at :: "u32 list \<Rightarrow> u32 \<Rightarrow> arm_core \<Rightarrow> bool" where
  "program_at ws a p \<longleftrightarrow> core_wf p \<and> holds_text p 0x20 ws \<and> fetch_address p = a"

lemma example1_words:
  assumes "holds_text p 0x20 example1_text"
  shows "word_at p 0x20 = Some 0xE2500001" "word_at p 0x24 = Some 0xE1A0F00E" "word_at p 0x28 = Some 0xE3A00005"
    "word_at p 0x2C = Some 0xEBFFFFFB" "word_at p 0x30 = Some 0x1AFFFFFD" "word_at p 0x34 = Some 0xEF123456"
proof -
  have "word_at p (0x20 + 4 * of_nat i) = Some (example1_text ! i)" if "i < 6" for i
    using assms that by (simp add: holds_text_def example1_text_def)
  from this [of 0] this [of 1] this [of 2] this [of 3] this [of 4] this [of 5]
  show "word_at p 0x20 = Some 0xE2500001" "word_at p 0x24 = Some 0xE1A0F00E" "word_at p 0x28 = Some 0xE3A00005"
    "word_at p 0x2C = Some 0xEBFFFFFB" "word_at p 0x30 = Some 0x1AFFFFFD" "word_at p 0x34 = Some 0xEF123456"
    by (simp_all add: example1_text_def)
qed

text \<open>One turn of a continue, from what the handler does on the fetched instruction.\<close>

lemma handler_turn:
  assumes "core_wf p" and "next_instruction p = Some i" and "\<not> breakpoint i"
    and "handler_of (class_of i) (fetched p) i = Ret (st, q)" and "P q"
  shows "\<exists>q. cont_turn (p, e, mem) (q, 0, Some i) \<and> P q"
proof -
  have "cont_turn (p, e, mem) (q, 0, Some i)"
    using assms(1-4) by (intro cont_turn.turn) (simp_all add: peek_next arm_step_eq)
  with assms(5) show ?thesis by blast
qed

lemma holds_text_writes [simp]:
  "holds_text (arm_write_register p n v) a ws = holds_text p a ws"
  "holds_text (arm_write_cpsr p w) a ws = holds_text p a ws"
  "holds_text (fetched p) a ws = holds_text p a ws"
  by (simp_all add: holds_text_def fetched_def)

text \<open>The instructions of the program.\<close>

lemma run_subs:
  "handler_of (class_of 0xE2500001) f 0xE2500001 = Ret (0, arm_write_register
     (arm_cmp f (arm_read_register f 0) 1 (carry_in f) (of_bool (bit (arm_read_cpsr f) 28))) 0
     (arm_read_register f 0 - 1))"
proof -
  have i: "class_of 0xE2500001 = Data" "condition_field 0xE2500001 = 14" "bit (0xE2500001 :: u32) 25"
    "rotation 0xE2500001 = 0" "take_bit 8 (0xE2500001 :: u32) = 1" "opcode_of 0xE2500001 = 2"
    "rd_of 0xE2500001 = 0" "rn_of 0xE2500001 = 0" "bit (0xE2500001 :: u32) 20"
    by code_simp+
  show ?thesis
    by (simp add: i arm_data_processing_shift_eq ConditionPassed_cases(1) decode_operand_eq apply_rotation_imm_eq
        dp_run_def dp_switch_simps arm_sub_def)
qed

lemma run_mov_pc_lr:
  "handler_of (class_of 0xE1A0F00E) f 0xE1A0F00E = Ret (0, arm_write_register f 15 (arm_read_register f 14))"
proof -
  have i: "class_of 0xE1A0F00E = Data" "condition_field 0xE1A0F00E = 14" "\<not> bit (0xE1A0F00E :: u32) 25"
    "\<not> bit (0xE1A0F00E :: u32) 4" "\<not> bit (0xE1A0F00E :: u32) 6" "opcode_of 0xE1A0F00E = 13"
    "shift_imm_of 0xE1A0F00E = 0" "rd_of 0xE1A0F00E = 15" "rm_of 0xE1A0F00E = 14" "\<not> bit (0xE1A0F00E :: u32) 20"
    by code_simp+
  show ?thesis
    by (simp add: i arm_data_processing_shift_eq ConditionPassed_cases(1) decode_operand_eq shift_operand_def
        c_shl_def dp_run_def dp_switch_simps arm_mov_eq)
qed

lemma run_bl:
  "handler_of (class_of 0xEBFFFFFB) f 0xEBFFFFFB = Ret (0, arm_write_register
     (arm_write_register f 14 (arm_read_register f 15 - 4)) 15 (arm_read_register f 15 - 20))"
proof -
  have i: "class_of 0xEBFFFFFB = Branch" "condition_field 0xEBFFFFFB = 14" "bit (0xEBFFFFFB :: u32) 24"
    "bit (0xEBFFFFFB :: u32) 23" "branch_offset 0xEBFFFFFB = - 20"
    by code_simp+
  show ?thesis by (simp add: i arm_branch_eq ConditionPassed_cases(1))
qed

lemma run_bne:
  "handler_of (class_of 0x1AFFFFFD) f 0x1AFFFFFD = Ret (0,
     if bit (arm_read_cpsr f) 30 then f else arm_write_register f 15 (arm_read_register f 15 - 12))"
proof -
  have i: "class_of 0x1AFFFFFD = Branch" "condition_field 0x1AFFFFFD = 1" "\<not> bit (0x1AFFFFFD :: u32) 24"
    "bit (0x1AFFFFFD :: u32) 23" "branch_offset 0x1AFFFFFD = - 12"
    by code_simp+
  have "ConditionPassed (arm_read_cpsr f) 0x1AFFFFFD \<longleftrightarrow> \<not> bit (arm_read_cpsr f) 30"
    using i(2) by (simp add: ConditionPassed_def arm_get_cond_eq condition_field_def)
  then show ?thesis by (simp add: i arm_branch_eq)
qed

lemma run_swi: "handler_of (class_of 0xEF123456) f 0xEF123456 = Exit"
proof -
  have "class_of 0xEF123456 = Swi" "get_bit 0xEF123456 24 \<noteq> 0" by code_simp+
  then show ?thesis by (simp add: arm_coprocessor_others_swi_def)
qed

text \<open>The program, instruction by instruction.\<close>

lemma fetched_mem: "core_mem (fetched p) = core_mem p"
  by (simp add: fetched_def)

lemmas program_simps = program_at_def next_instruction_def fetched_pc fetched_reads breakpoint_def

text \<open>An instruction that ends the run.\<close>

lemma last_turn:
  assumes "core_wf p" and "next_instruction p = Some i" and "\<not> breakpoint i"
  shows "handler_of (class_of i) (fetched p) i = Exit \<Longrightarrow> cont_loop p e mem = Some Exit"
    and "handler_of (class_of i) (fetched p) i = Undef \<Longrightarrow> cont_loop p e mem = Some Undef"
  using assms by (subst cont_loop.simps, simp add: peek_next arm_step_eq del: handler_of.simps)+

text \<open>An instruction that writes the register \<open>n\<close>, and goes on.\<close>

lemma data_turn:
  assumes "program_at ws a p" and "next_instruction p = Some i" and "\<not> breakpoint i" and "n < 15"
    and "handler_of (class_of i) (fetched p) i = Ret (st, arm_write_register (fetched p) n v)"
  shows "\<exists>q. cont_turn (p, e, mem) (q, 0, Some i) \<and> program_at ws ((a + 4) AND 0xFFFFFFFD) q \<and>
    arm_read_register q n = v \<and> (\<forall>k. k < 15 \<and> k \<noteq> n \<longrightarrow> arm_read_register q k = arm_read_register p k) \<and>
    core_mem q = core_mem p"
proof (rule handler_turn [OF _ assms(2,3,5)])
  show "core_wf p" using assms(1) by (simp add: program_at_def)
  have "n \<noteq> 15" "n < 16" using assms(4) by (auto intro: order.strict_trans)
  then show "program_at ws ((a + 4) AND 0xFFFFFFFD) (arm_write_register (fetched p) n v) \<and>
    arm_read_register (arm_write_register (fetched p) n v) n = v \<and>
    (\<forall>k. k < 15 \<and> k \<noteq> n \<longrightarrow> arm_read_register (arm_write_register (fetched p) n v) k = arm_read_register p k) \<and>
    core_mem (arm_write_register (fetched p) n v) = core_mem p"
    using assms(1) by (auto simp: program_simps fetched_mem)
qed

lemma mov_byte_turn:
  assumes "program_at ws a p" and "next_instruction p = Some i" and "moves_byte i n b" and "n < 15"
  shows "\<exists>q. cont_turn (p, e, mem) (q, 0, Some i) \<and> program_at ws ((a + 4) AND 0xFFFFFFFD) q \<and>
    arm_read_register q n = b \<and> (\<forall>k. k < 15 \<and> k \<noteq> n \<longrightarrow> arm_read_register q k = arm_read_register p k) \<and>
    core_mem q = core_mem p"
  by (rule data_turn [OF assms(1,2) _ assms(4) run_mov_byte [OF assms(3)]])
    (use assms(3) in \<open>simp add: moves_byte_def\<close>)

lemma at_main:
  assumes "program_at example1_text 0x28 p"
  shows "\<exists>q. cont_turn (p, e, mem) (q, 0, Some 0xE3A00005) \<and> program_at example1_text 0x2C q \<and>
    arm_read_register q 0 = 5 \<and> cycle_count q = cycle_count p + 1"
proof -
  have m: "moves_byte 0xE3A00005 0 5" by code_simp
  show ?thesis
    by (rule handler_turn [OF _ _ _ run_mov_byte [OF m]]) (use assms in \<open>simp_all add: program_simps example1_words\<close>)
qed

lemma at_loop:
  assumes "program_at example1_text 0x2C p"
  shows "\<exists>q. cont_turn (p, e, mem) (q, 0, Some 0xEBFFFFFB) \<and> program_at example1_text 0x20 q \<and>
    arm_read_register q 0 = arm_read_register p 0 \<and> arm_read_register q 14 = 0x30 \<and>
    cycle_count q = cycle_count p + 1"
  by (rule handler_turn [OF _ _ _ run_bl]) (use assms in \<open>simp_all add: program_simps example1_words\<close>)

lemma at_decr:
  assumes "program_at example1_text 0x20 p"
  shows "\<exists>q. cont_turn (p, e, mem) (q, 0, Some 0xE2500001) \<and> program_at example1_text 0x24 q \<and>
    arm_read_register q 0 = arm_read_register p 0 - 1 \<and> arm_read_register q 14 = arm_read_register p 14 \<and>
    bit (arm_read_cpsr q) 30 = (arm_read_register p 0 = 1) \<and> cycle_count q = cycle_count p + 1"
  by (rule handler_turn [OF _ _ _ run_subs]) (use assms in \<open>simp_all add: program_simps example1_words arm_cmp_eq bit_C_of\<close>)

lemma at_return:
  assumes "program_at example1_text 0x24 p" and "arm_read_register p 14 = 0x30"
  shows "\<exists>q. cont_turn (p, e, mem) (q, 0, Some 0xE1A0F00E) \<and> program_at example1_text 0x30 q \<and>
    arm_read_register q 0 = arm_read_register p 0 \<and> arm_read_register q 14 = 0x30 \<and>
    bit (arm_read_cpsr q) 30 = bit (arm_read_cpsr p) 30 \<and> cycle_count q = cycle_count p + 1"
  by (rule handler_turn [OF _ _ _ run_mov_pc_lr]) (use assms in \<open>simp_all add: program_simps example1_words\<close>)

lemma at_bne:
  assumes "program_at example1_text 0x30 p"
  shows "\<exists>q. cont_turn (p, e, mem) (q, 0, Some 0x1AFFFFFD) \<and>
    program_at example1_text (if bit (arm_read_cpsr p) 30 then 0x34 else 0x2C) q \<and>
    arm_read_register q 0 = arm_read_register p 0 \<and> arm_read_register q 14 = arm_read_register p 14 \<and>
    cycle_count q = cycle_count p + 1"
  by (rule handler_turn [OF _ _ _ run_bne]) (use assms in \<open>simp_all add: program_simps example1_words\<close>)

lemma at_end:
  assumes "program_at example1_text 0x34 p"
  shows "cont_loop p e mem = Some Exit"
  using assms by (intro last_turn(1) [OF _ _ _ run_swi]) (simp_all add: program_simps example1_words)

lemma example1_round:
  assumes "program_at example1_text 0x2C p"
  shows "\<exists>q. cont_turn\<^sup>*\<^sup>* (p, e, mem) (q, 0, Some 0x1AFFFFFD) \<and>
    program_at example1_text (if arm_read_register p 0 = 1 then 0x34 else 0x2C) q \<and>
    arm_read_register q 0 = arm_read_register p 0 - 1 \<and> arm_read_register q 14 = 0x30 \<and>
    cycle_count q = cycle_count p + 4"
proof -
  obtain q1 where 1: "cont_turn (p, e, mem) (q1, 0, Some 0xEBFFFFFB)" "program_at example1_text 0x20 q1"
    "arm_read_register q1 0 = arm_read_register p 0" "arm_read_register q1 14 = 0x30"
    "cycle_count q1 = cycle_count p + 1"
    using at_loop [OF assms] by blast
  obtain q2 where 2: "cont_turn (q1, 0, Some 0xEBFFFFFB) (q2, 0, Some 0xE2500001)" "program_at example1_text 0x24 q2"
    "arm_read_register q2 0 = arm_read_register q1 0 - 1" "arm_read_register q2 14 = arm_read_register q1 14"
    "bit (arm_read_cpsr q2) 30 = (arm_read_register q1 0 = 1)" "cycle_count q2 = cycle_count q1 + 1"
    using at_decr [OF 1(2)] by blast
  obtain q3 where 3: "cont_turn (q2, 0, Some 0xE2500001) (q3, 0, Some 0xE1A0F00E)" "program_at example1_text 0x30 q3"
    "arm_read_register q3 0 = arm_read_register q2 0" "arm_read_register q3 14 = 0x30"
    "bit (arm_read_cpsr q3) 30 = bit (arm_read_cpsr q2) 30" "cycle_count q3 = cycle_count q2 + 1"
    using at_return [OF 2(2)] 1(4) 2(4) by auto
  obtain q4 where 4: "cont_turn (q3, 0, Some 0xE1A0F00E) (q4, 0, Some 0x1AFFFFFD)"
    "program_at example1_text (if bit (arm_read_cpsr q3) 30 then 0x34 else 0x2C) q4"
    "arm_read_register q4 0 = arm_read_register q3 0" "arm_read_register q4 14 = arm_read_register q3 14"
    "cycle_count q4 = cycle_count q3 + 1"
    using at_bne [OF 3(2)] by blast
  have "cont_turn\<^sup>*\<^sup>* (p, e, mem) (q4, 0, Some 0x1AFFFFFD)"
    using 1(1) 2(1) 3(1) 4(1) by (meson converse_rtranclp_into_rtranclp rtranclp.rtrancl_refl)
  then show ?thesis using 1 2 3 4 by (intro exI [of _ q4]) simp
qed

lemma example1_loop:
  assumes "program_at example1_text 0x2C p" and "arm_read_register p 0 \<noteq> 0"
  shows "\<exists>q e' mem'. cont_turn\<^sup>*\<^sup>* (p, e, mem) (q, e', mem') \<and> program_at example1_text 0x34 q \<and>
    arm_read_register q 0 = 0 \<and> arm_read_register q 14 = 0x30 \<and>
    cycle_count q = cycle_count p + 4 * arm_read_register p 0"
  using assms
proof (induction "unat (arm_read_register p 0)" arbitrary: p e mem rule: less_induct)
  case less
  obtain q where q: "cont_turn\<^sup>*\<^sup>* (p, e, mem) (q, 0, Some 0x1AFFFFFD)"
    "program_at example1_text (if arm_read_register p 0 = 1 then 0x34 else 0x2C) q"
    "arm_read_register q 0 = arm_read_register p 0 - 1" "arm_read_register q 14 = 0x30"
    "cycle_count q = cycle_count p + 4"
    using example1_round [OF less.prems(1)] by blast
  show ?case
  proof (cases "arm_read_register p 0 = 1")
    case True
    with q show ?thesis by (intro exI [of _ q] exI) (auto simp del: rtranclp.simps)
  next
    case False
    have smaller: "unat (arm_read_register q 0) < unat (arm_read_register p 0)"
      unfolding q(3) using less.prems(2) unat_gt_0 [of "arm_read_register p 0"] by (simp add: unat_minus_one)
    have "arm_read_register q 0 \<noteq> 0" using False by (simp add: q(3))
    with less.hyps [OF smaller, of 0 "Some 0x1AFFFFFD"] q(2) False obtain r e' mem' where r:
      "cont_turn\<^sup>*\<^sup>* (q, 0, Some 0x1AFFFFFD) (r, e', mem')" "program_at example1_text 0x34 r" "arm_read_register r 0 = 0"
      "arm_read_register r 14 = 0x30" "cycle_count r = cycle_count q + 4 * arm_read_register q 0"
      by auto
    from rtranclp_trans [OF q(1) r(1)] r(2-) q(3,5) show ?thesis
      by (intro exI [of _ r] exI) (auto simp: algebra_simps)
  qed
qed

lemma example1_run:
  assumes "core_wf p" and "holds_text p 0x20 example1_text" and "fetch_address p = 0x28"
  shows "cont_loop p e mem = Some Exit \<and>
    (\<exists>q e' mem'. cont_turn\<^sup>*\<^sup>* (p, e, mem) (q, e', mem') \<and> next_instruction q = Some 0xEF123456 \<and>
      arm_read_register q 0 = 0 \<and> arm_read_register q 14 = 0x30 \<and> cycle_count q = cycle_count p + 21)"
proof -
  have "program_at example1_text 0x28 p" using assms by (simp add: program_at_def)
  then obtain q where q: "cont_turn (p, e, mem) (q, 0, Some 0xE3A00005)" "program_at example1_text 0x2C q"
    "arm_read_register q 0 = 5" "cycle_count q = cycle_count p + 1"
    using at_main by blast
  obtain r e' mem' where r: "cont_turn\<^sup>*\<^sup>* (q, 0, Some 0xE3A00005) (r, e', mem')" "program_at example1_text 0x34 r"
    "arm_read_register r 0 = 0" "arm_read_register r 14 = 0x30" "cycle_count r = cycle_count q + 20"
    using example1_loop [OF q(2), of 0 "Some 0xE3A00005"] q(3) by auto
  have run: "cont_turn\<^sup>*\<^sup>* (p, e, mem) (r, e', mem')"
    using q(1) r(1) by (rule converse_rtranclp_into_rtranclp)
  have "cont_loop p e mem = Some Exit"
    using cont_turns_loop [OF run] at_end [OF r(2)] by simp
  then show ?thesis
    using run r q by (intro conjI exI [of _ r] exI [of _ e'] exI [of _ mem'])
      (simp_all add: program_simps example1_words)
qed

text \<open>
  Property C15: the simulator runs its example. On a memory that holds the program, from \<^verbatim>\<open>main\<close> on, a continue
  of the server passes through the five rounds of the loop, 21 instructions, to the last one, with 0 in \<^verbatim>\<open>r0\<close> and
  the return address of the call in \<^verbatim>\<open>lr\<close>, and ends the process there; no answer is sent.
\<close>

theorem example1_runs_to_its_end:
  assumes "core_wf p" and "holds_text p 0x20 example1_text" and "fetch_address p = 0x28"
  shows "cont_loop p e mem = Some Exit \<and>
    (\<exists>q e' mem'. cont_turn\<^sup>*\<^sup>* (p, e, mem) (q, e', mem') \<and> next_instruction q = Some 0xEF123456 \<and>
      arm_read_register q 0 = 0 \<and> arm_read_register q 14 = 0x30 \<and> cycle_count q = cycle_count p + 21)"
  using assms by (rule example1_run)

text \<open>A processor of 64 bytes of memory that holds the program.\<close>

definition example1_core :: arm_core where
  "example1_core = arm_write_register (foldl (\<lambda>p (a, w). put_word p a w)
     (arm_create 0 (memory_create (\<lambda>_. 0) 64 1)) (zip [0x20, 0x24, 0x28, 0x2C, 0x30, 0x34] example1_text)) 15 0x28"

lemma example1_core_wf: "core_wf example1_core"
  by (simp add: example1_core_def example1_text_def arm_create_wf memory_create_wf put_wf)

theorem example1_runs_to_its_end_witness: "cont_loop example1_core 0 None = Some Exit"
proof -
  have "holds_text example1_core 0x20 example1_text"
    unfolding holds_text_def by code_simp
  moreover have "fetch_address example1_core = 0x28" by code_simp
  ultimately show ?thesis using example1_runs_to_its_end [OF example1_core_wf] by blast
qed

section \<open>example2.s\<close>

text \<open>
  The text section, which is \<^verbatim>\<open>main\<close>. The assembler encodes \<^verbatim>\<open>#0x2000\<close> as 2 rotated by 20, the rotation
  field 10.
\<close>

definition example2_text :: "u32 list" where
  "example2_text =
     [0xE3A00012, \<comment> \<open>main: mov r0, #0x12\<close>
      0xE3A01034, \<comment> \<open>mov r1, #0x34\<close>
      0xE0810400, \<comment> \<open>add r0, r1, r0, lsl #8\<close>
      0xE3A01056, \<comment> \<open>mov r1, #0x56\<close>
      0xE0810400, \<comment> \<open>add r0, r1, r0, lsl #8\<close>
      0xE3A01078, \<comment> \<open>mov r1, #0x78\<close>
      0xE0810400, \<comment> \<open>add r0, r1, r0, lsl #8\<close>
      0xE3A01A02, \<comment> \<open>mov r1, #0x2000\<close>
      0xE5810000, \<comment> \<open>str r0, [r1]\<close>
      0xE5D12000, \<comment> \<open>ldrb r2, [r1]\<close>
      0xE2811003, \<comment> \<open>add r1, r1, #3\<close>
      0xE5D13000, \<comment> \<open>ldrb r3, [r1]\<close>
      0xEF123456] \<comment> \<open>swi 0x123456\<close>"

lemma program_word:
  "program_at ws (0x20 + 4 * of_nat i) p \<Longrightarrow> i < length ws \<Longrightarrow> next_instruction p = Some (ws ! i)"
  by (simp add: program_at_def holds_text_def next_instruction_def)

lemma run_add_lsl_8:
  "handler_of (class_of 0xE0810400) f 0xE0810400 =
     Ret (0, arm_write_register f 0 (arm_read_register f 1 + push_bit 8 (arm_read_register f 0)))"
proof -
  have i: "class_of 0xE0810400 = Data" "condition_field 0xE0810400 = 14" "\<not> bit (0xE0810400 :: u32) 25"
    "\<not> bit (0xE0810400 :: u32) 4" "\<not> bit (0xE0810400 :: u32) 6" "opcode_of 0xE0810400 = 4"
    "shift_imm_of 0xE0810400 = 8" "rd_of 0xE0810400 = 0" "rm_of 0xE0810400 = 0" "rn_of 0xE0810400 = 1"
    "\<not> bit (0xE0810400 :: u32) 20"
    by code_simp+
  show ?thesis
    by (simp add: i arm_data_processing_shift_eq ConditionPassed_cases(1) decode_operand_eq shift_operand_def
        c_shl_def dp_run_def dp_switch_simps arm_add_def)
qed

text \<open>A data-processing instruction whose immediate is rotated by more than 8.\<close>

definition rotates_far :: "u32 \<Rightarrow> bool" where
  "rotates_far i \<longleftrightarrow> class_of i = Data \<and> condition_field i = 14 \<and> bit i 25 \<and> 4 < rotation i \<and> \<not> breakpoint i"

lemma run_rotates_far: "rotates_far i \<Longrightarrow> handler_of (class_of i) f i = Undef"
  by (simp add: rotates_far_def arm_data_processing_shift_eq ConditionPassed_cases(1) decode_operand_eq
      apply_rotation_imm_eq)

text \<open>A byte \<open>b\<close> moved to \<^verbatim>\<open>r1\<close>, and the addition that appends it to \<^verbatim>\<open>r0\<close>.\<close>

lemma mov_add_turns:
  assumes p: "program_at ws a p" and i: "next_instruction p = Some i"
    and add: "\<And>q. program_at ws (a + 4) q \<Longrightarrow> next_instruction q = Some 0xE0810400"
    and a: "(a + 4) AND 0xFFFFFFFD = a + 4" "(a + 4 + 4) AND 0xFFFFFFFD = a + 8"
    and mov: "moves_byte i 1 b"
  shows "\<exists>q. cont_turn\<^sup>*\<^sup>* (p, e, mem) (q, 0, Some 0xE0810400) \<and> program_at ws (a + 8) q \<and>
    arm_read_register q 0 = b + push_bit 8 (arm_read_register p 0)"
proof -
  obtain r where r: "cont_turn (p, e, mem) (r, 0, Some i)" "program_at ws (a + 4) r" "arm_read_register r 1 = b"
    "arm_read_register r 0 = arm_read_register p 0"
    using mov_byte_turn [OF p i mov, of e mem] a by auto
  obtain q where q: "cont_turn (r, 0, Some i) (q, 0, Some 0xE0810400)" "program_at ws (a + 8) q"
    "arm_read_register q 0 = b + push_bit 8 (arm_read_register r 0)"
    using data_turn [OF r(2) add [OF r(2)] _ _ run_add_lsl_8, of 0 "Some i"] r(3) a
    by (auto simp: fetched_reads breakpoint_def)
  show ?thesis
    using r(1) q r(4) by (intro exI [of _ q]) (auto intro: converse_rtranclp_into_rtranclp)
qed

lemma example2_next:
  "program_at example2_text 0x20 p \<Longrightarrow> next_instruction p = Some 0xE3A00012"
  "program_at example2_text 0x24 p \<Longrightarrow> next_instruction p = Some 0xE3A01034"
  "program_at example2_text 0x28 p \<Longrightarrow> next_instruction p = Some 0xE0810400"
  "program_at example2_text 0x2C p \<Longrightarrow> next_instruction p = Some 0xE3A01056"
  "program_at example2_text 0x30 p \<Longrightarrow> next_instruction p = Some 0xE0810400"
  "program_at example2_text 0x34 p \<Longrightarrow> next_instruction p = Some 0xE3A01078"
  "program_at example2_text 0x38 p \<Longrightarrow> next_instruction p = Some 0xE0810400"
  "program_at example2_text 0x3C p \<Longrightarrow> next_instruction p = Some 0xE3A01A02"
  using program_word [of example2_text 0 p] program_word [of example2_text 1 p] program_word [of example2_text 2 p]
    program_word [of example2_text 3 p] program_word [of example2_text 4 p] program_word [of example2_text 5 p]
    program_word [of example2_text 6 p] program_word [of example2_text 7 p]
  by (simp_all add: example2_text_def)

lemma example2_append:
  assumes "program_at example2_text a p" and "next_instruction p = Some i" and "moves_byte i 1 b"
    and "a \<in> {0x24, 0x2C, 0x34}"
  shows "\<exists>q. cont_turn\<^sup>*\<^sup>* (p, e, mem) (q, 0, Some 0xE0810400) \<and> program_at example2_text (a + 8) q \<and>
    arm_read_register q 0 = b + push_bit 8 (arm_read_register p 0)"
  by (rule mov_add_turns [OF assms(1,2) _ _ _ assms(3)]) (use assms(4) in \<open>auto simp: example2_next\<close>)

lemmas example2_append_at = example2_append [where a = "0x24"] example2_append [where a = "0x2C"]
  example2_append [where a = "0x34"]

lemma example2_run:
  assumes "core_wf p" and "holds_text p 0x20 example2_text" and "fetch_address p = 0x20"
  shows "cont_loop p e mem = Some Undef \<and>
    (\<exists>q e' mem'. cont_turn\<^sup>*\<^sup>* (p, e, mem) (q, e', mem') \<and> next_instruction q = Some 0xE3A01A02 \<and>
      arm_read_register q 0 = 0x12345678)"
proof -
  have p: "program_at example2_text 0x20 p" using assms by (simp add: program_at_def)
  have m: "moves_byte 0xE3A01034 1 0x34" "moves_byte 0xE3A01056 1 0x56" "moves_byte 0xE3A01078 1 0x78"
    "moves_byte 0xE3A00012 0 0x12"
    by code_simp+
  from mov_byte_turn [OF p example2_next(1) [OF p] m(4), of e mem] obtain q where
    q: "cont_turn (p, e, mem) (q, 0, Some 0xE3A00012)" "program_at example2_text 0x24 q" "arm_read_register q 0 = 0x12"
    by auto
  obtain r where r: "cont_turn\<^sup>*\<^sup>* (q, 0, Some 0xE3A00012) (r, 0, Some 0xE0810400)"
    "program_at example2_text 0x2C r" "arm_read_register r 0 = 0x1234"
    using example2_append_at(1) [OF q(2) example2_next(2) [OF q(2)] m(1), of 0 "Some 0xE3A00012"] by (auto simp: q(3))
  obtain s where s: "cont_turn\<^sup>*\<^sup>* (r, 0, Some 0xE0810400) (s, 0, Some 0xE0810400)"
    "program_at example2_text 0x34 s" "arm_read_register s 0 = 0x123456"
    using example2_append_at(2) [OF r(2) example2_next(4) [OF r(2)] m(2), of 0 "Some 0xE0810400"] by (auto simp: r(3))
  obtain t where t: "cont_turn\<^sup>*\<^sup>* (s, 0, Some 0xE0810400) (t, 0, Some 0xE0810400)"
    "program_at example2_text 0x3C t" "arm_read_register t 0 = 0x12345678"
    using example2_append_at(3) [OF s(2) example2_next(6) [OF s(2)] m(3), of 0 "Some 0xE0810400"] by (auto simp: s(3))
  have run: "cont_turn\<^sup>*\<^sup>* (p, e, mem) (t, 0, Some 0xE0810400)"
    using q(1) r(1) s(1) t(1) by (meson converse_rtranclp_into_rtranclp rtranclp_trans)
  have far: "rotates_far 0xE3A01A02" by code_simp
  have "cont_loop t 0 (Some 0xE0810400) = Some Undef"
    using t(2) far by (intro last_turn(2) [OF _ example2_next(8) [OF t(2)] _ run_rotates_far])
      (simp_all add: program_at_def rotates_far_def)
  with cont_turns_loop [OF run] have "cont_loop p e mem = Some Undef" by simp
  with run example2_next(8) [OF t(2)] t(3) show ?thesis by blast
qed

text \<open>
  Property C39: the second example does not run. It gathers 0x12345678 in \<^verbatim>\<open>r0\<close> as it should, and then moves 0x2000 to
  \<^verbatim>\<open>r1\<close>, an immediate whose rotation is greater than 4: the simulator shifts by a negative count, and nothing defines
  what follows.
\<close>

theorem example2_is_undefined:
  assumes "core_wf p" and "holds_text p 0x20 example2_text" and "fetch_address p = 0x20"
  shows "cont_loop p e mem = Some Undef \<and>
    (\<exists>q e' mem'. cont_turn\<^sup>*\<^sup>* (p, e, mem) (q, e', mem') \<and> next_instruction q = Some 0xE3A01A02 \<and>
      arm_read_register q 0 = 0x12345678)"
  using assms by (rule example2_run)

text \<open>A processor of 128 bytes of memory that holds the program.\<close>

definition example2_core :: arm_core where
  "example2_core = arm_write_register (foldl (\<lambda>p (i, w). put_word p (0x20 + 4 * of_nat i) w)
     (arm_create 0 (memory_create (\<lambda>_. 0) 128 1)) (enumerate 0 example2_text)) 15 0x20"

lemma example2_core_wf: "core_wf example2_core"
  by (simp add: example2_core_def example2_text_def arm_create_wf memory_create_wf put_wf)

theorem example2_is_undefined_witness: "cont_loop example2_core 0 None = Some Undef"
proof -
  have "holds_text example2_core 0x20 example2_text"
    unfolding holds_text_def by code_simp
  moreover have "fetch_address example2_core = 0x20" by code_simp
  ultimately show ?thesis using example2_is_undefined [OF example2_core_wf] by blast
qed

end
