(* ===== verification/More_Examples.thy ===== *)
theory More_Examples
  imports Example_Programs
begin

text \<open>
  Two further programs of \<^verbatim>\<open>Examples\<close>, which use their data section: \<^verbatim>\<open>example3.s\<close> reads the first and the last byte
  of a word, \<^verbatim>\<open>example4.s\<close> loads a table. The words are the encodings of the ARM manual, with the addresses that
  \<^verbatim>\<open>ldr r, =label\<close> needs behind the program; the linker script puts the data at 10K.

  The lemmas show that the first runs to its end, with the bytes in the order of the memory, and that the second stops
  at its first instruction.
\<close>

section \<open>Loads with an immediate offset\<close>

text \<open>The instruction loads the register \<open>n\<close> from the offset \<open>d\<close> of the register \<open>b\<close>: a byte or a word.\<close>

definition loads :: "u32 \<Rightarrow> bool \<Rightarrow> u8 \<Rightarrow> u8 \<Rightarrow> u32 \<Rightarrow> bool" where
  "loads i byte n b d \<longleftrightarrow> class_of i = Transfer \<and> condition_field i = 14 \<and> \<not> bit i 25 \<and> bit i 24 \<and> bit i 23 \<and>
     bit i 22 = byte \<and> \<not> bit i 21 \<and> bit i 20 \<and> rn_no i = b \<and> rd_no i = n \<and> get_bits i 11 0 = d \<and>
     n < 15 \<and> \<not> breakpoint i"

lemma run_loads:
  assumes "core_wf f" and "loads i byte n b d"
  shows "handler_of (class_of i) f i = Ret (0, arm_write_register f n (loaded f i (arm_read_register f b + d)))"
  using assms
  by (auto simp add: loads_def arm_load_store_eq ConditionPassed_cases(1) load_result_eq ls_base_written_def ls_address_def
      ls_moved_def ls_index_def)

text \<open>The bytes of a word that the memory holds.\<close>

lemma bytes_of_word_at:
  assumes wf: "core_wf p" and w: "word_at p a = Some w" and k: "k < 4"
  shows "byte_at p (a + of_nat k) = Some (in_order (core_mem p) (bytes_of_u32 LittleEndianHost w) ! k)"
proof -
  have m: "mem_wf (core_mem p)" using wf by (simp add: core_wf_def)
  have al: "aligned 4 (core_mem p) a" using w by (simp add: word_at_def split: if_splits)
  have "memory_read_word LittleEndianHost (core_mem p) a = Ret (Some w)"
    using w by (simp add: memory_read_word_wf [OF m] word_at_def split: if_splits)
  from word_is_its_bytes [OF m this k] show ?thesis
    by (simp add: memory_read_byte_wf [OF m] byte_at_def in_order_def bytes_of_u32_def Let_def split: if_splits)
qed

section \<open>example3.s\<close>

text \<open>The address of \<^verbatim>\<open>limite\<close> is behind the program.\<close>

definition example3_text :: "u32 list" where
  "example3_text =
     [0xE59F000C, \<comment> \<open>main: ldr r0, =limite\<close>
      0xE5D01000, \<comment> \<open>ldrb r1, [r0]\<close>
      0xE2800003, \<comment> \<open>add r0, r0, #3\<close>
      0xE5D02000, \<comment> \<open>ldrb r2, [r0]\<close>
      0xEF123456, \<comment> \<open>swi 0x123456\<close>
      0x00002800]"

lemma example3_next:
  "program_at example3_text 0x20 p \<Longrightarrow> next_instruction p = Some 0xE59F000C"
  "program_at example3_text 0x24 p \<Longrightarrow> next_instruction p = Some 0xE5D01000"
  "program_at example3_text 0x28 p \<Longrightarrow> next_instruction p = Some 0xE2800003"
  "program_at example3_text 0x2C p \<Longrightarrow> next_instruction p = Some 0xE5D02000"
  "program_at example3_text 0x30 p \<Longrightarrow> next_instruction p = Some 0xEF123456"
  "program_at example3_text 0x20 p \<Longrightarrow> word_at p 0x34 = Some 0x2800"
  using program_word [of example3_text 0 p] program_word [of example3_text 1 p] program_word [of example3_text 2 p]
    program_word [of example3_text 3 p] program_word [of example3_text 4 p]
  by (simp_all add: example3_text_def)
   (simp add: program_at_def holds_text_def, force)

text \<open>A load, as a turn of the continue.\<close>

lemma same_memory:
  assumes "core_mem q = core_mem p"
  shows "word_at q = word_at p" "byte_at q = byte_at p" "loaded q = loaded p"
  using assms by (simp_all add: fun_eq_iff word_at_def byte_at_def loaded_def)

lemma load_turn:
  assumes p: "program_at ws a p" and i: "next_instruction p = Some i" and l: "loads i byte n b d"
  shows "\<exists>q. cont_turn (p, e, mem) (q, 0, Some i) \<and> program_at ws ((a + 4) AND 0xFFFFFFFD) q \<and>
    arm_read_register q n = loaded p i (arm_read_register (fetched p) b + d) \<and>
    (\<forall>k. k < 15 \<and> k \<noteq> n \<longrightarrow> arm_read_register q k = arm_read_register p k) \<and> core_mem q = core_mem p"
proof (rule data_turn [OF p i])
  have "core_wf (fetched p)" using p by (simp add: program_at_def fetched_def core_wf_def)
  from run_loads [OF this l]
  show "handler_of (class_of i) (fetched p) i =
      Ret (0, arm_write_register (fetched p) n (loaded p i (arm_read_register (fetched p) b + d)))"
    by (simp add: same_memory(3) [OF fetched_mem] del: handler_of.simps)
qed (use l in \<open>simp_all add: loads_def\<close>)

lemma run_add_3:
  "handler_of (class_of 0xE2800003) f 0xE2800003 = Ret (0, arm_write_register f 0 (arm_read_register f 0 + 3))"
proof -
  have i: "class_of 0xE2800003 = Data" "condition_field 0xE2800003 = 14" "bit (0xE2800003 :: u32) 25"
    "rotation 0xE2800003 = 0" "take_bit 8 (0xE2800003 :: u32) = 3" "opcode_of 0xE2800003 = 4"
    "rd_of 0xE2800003 = 0" "rn_of 0xE2800003 = 0" "\<not> bit (0xE2800003 :: u32) 20"
    by code_simp+
  show ?thesis
    by (simp add: i arm_data_processing_shift_eq ConditionPassed_cases(1) decode_operand_eq apply_rotation_imm_eq
        dp_run_def dp_switch_simps arm_add_def)
qed

text \<open>The byte \<open>k\<close> of \<^verbatim>\<open>limite\<close>, as the memory orders them.\<close>

definition limite_byte :: "arm_core \<Rightarrow> nat \<Rightarrow> u8" where
  "limite_byte p k = in_order (core_mem p) [0x78, 0x56, 0x34, 0x12] ! k"

lemma limite_bytes:
  assumes "core_wf p" and "word_at p 0x2800 = Some 0x12345678"
  shows "byte_at p 0x2800 = Some (limite_byte p 0)" "byte_at p 0x2803 = Some (limite_byte p 3)"
proof -
  have "bytes_of_u32 LittleEndianHost 0x12345678 = [0x78, 0x56, 0x34, 0x12]" by code_simp
  then show "byte_at p 0x2800 = Some (limite_byte p 0)" "byte_at p 0x2803 = Some (limite_byte p 3)"
    using bytes_of_word_at [OF assms, of 0] bytes_of_word_at [OF assms, of 3] by (simp_all add: limite_byte_def)
qed

lemma example3_run:
  assumes "core_wf p" and "holds_text p 0x20 example3_text" and "fetch_address p = 0x20"
    and "word_at p 0x2800 = Some 0x12345678"
  shows "cont_loop p e mem = Some Exit \<and>
    (\<exists>q e' mem'. cont_turn\<^sup>*\<^sup>* (p, e, mem) (q, e', mem') \<and> next_instruction q = Some 0xEF123456 \<and>
      arm_read_register q 1 = ucast (limite_byte p 0) \<and> arm_read_register q 2 = ucast (limite_byte p 3))"
proof -
  have p: "program_at example3_text 0x20 p" using assms by (simp add: program_at_def)
  have l: "loads 0xE59F000C False 0 15 12" "loads 0xE5D01000 True 1 0 0" "loads 0xE5D02000 True 2 0 0"
    by code_simp+
  have b: "bit (0xE5D01000 :: u32) 22" "bit (0xE5D02000 :: u32) 22" "\<not> bit (0xE59F000C :: u32) 22" by code_simp+
  obtain q where q: "cont_turn (p, e, mem) (q, 0, Some 0xE59F000C)" "program_at example3_text 0x24 q"
    "arm_read_register q 0 = 0x2800" "core_mem q = core_mem p"
    using load_turn [OF p example3_next(1) [OF p] l(1), of e mem] p example3_next(6) [OF p] b
    by (auto simp: program_simps loaded_def)
  obtain r where r: "cont_turn (q, 0, Some 0xE59F000C) (r, 0, Some 0xE5D01000)" "program_at example3_text 0x28 r"
    "arm_read_register r 1 = ucast (limite_byte p 0)" "arm_read_register r 0 = 0x2800" "core_mem r = core_mem p"
    using load_turn [OF q(2) example3_next(2) [OF q(2)] l(2), of 0 "Some 0xE59F000C"] limite_bytes [OF assms(1,4)] b
    by (auto simp: fetched_reads loaded_def q(3,4) same_memory(2) [OF q(4)])
  obtain s where s: "cont_turn (r, 0, Some 0xE5D01000) (s, 0, Some 0xE2800003)" "program_at example3_text 0x2C s"
    "arm_read_register s 1 = ucast (limite_byte p 0)" "arm_read_register s 0 = 0x2803" "core_mem s = core_mem p"
    using data_turn [OF r(2) example3_next(3) [OF r(2)] _ _ run_add_3, of 0 "Some 0xE5D01000"]
    by (auto simp: fetched_reads breakpoint_def r(3-5))
  obtain t where t: "cont_turn (s, 0, Some 0xE2800003) (t, 0, Some 0xE5D02000)" "program_at example3_text 0x30 t"
    "arm_read_register t 2 = ucast (limite_byte p 3)" "arm_read_register t 1 = ucast (limite_byte p 0)"
    using load_turn [OF s(2) example3_next(4) [OF s(2)] l(3), of 0 "Some 0xE2800003"] limite_bytes [OF assms(1,4)] b
    by (auto simp: fetched_reads loaded_def s(3,4) same_memory(2) [OF s(5)])
  have run: "cont_turn\<^sup>*\<^sup>* (p, e, mem) (t, 0, Some 0xE5D02000)"
    using q(1) r(1) s(1) t(1) by (meson converse_rtranclp_into_rtranclp rtranclp.rtrancl_refl)
  have "cont_loop t 0 (Some 0xE5D02000) = Some Exit"
    using t(2) by (intro last_turn(1) [OF _ example3_next(5) [OF t(2)] _ run_swi])
      (simp_all add: program_at_def breakpoint_def)
  with cont_turns_loop [OF run] have "cont_loop p e mem = Some Exit" by simp
  with run example3_next(5) [OF t(2)] t(3,4) show ?thesis by blast
qed

text \<open>
  Fact: the third example runs. With its text and its data in the memory, a continue of the server passes to its last
  instruction, with the first byte of the word in \<^verbatim>\<open>r1\<close> and the last in \<^verbatim>\<open>r2\<close>, 0x12 and 0x78 in a big-endian memory and
  0x78 and 0x12 in a little-endian one, and ends the process there.
\<close>

theorem example3_runs_to_its_end:
  assumes "core_wf p" and "holds_text p 0x20 example3_text" and "fetch_address p = 0x20"
    and "word_at p 0x2800 = Some 0x12345678"
  shows "cont_loop p e mem = Some Exit \<and>
    (\<exists>q e' mem'. cont_turn\<^sup>*\<^sup>* (p, e, mem) (q, e', mem') \<and> next_instruction q = Some 0xEF123456 \<and>
      arm_read_register q 1 = (if mem_is_big_endian (core_mem p) = 1 then 0x12 else 0x78) \<and>
      arm_read_register q 2 = (if mem_is_big_endian (core_mem p) = 1 then 0x78 else 0x12))"
proof -
  have "ucast (limite_byte p 0) = (if mem_is_big_endian (core_mem p) = 1 then 0x12 else 0x78 :: u32)"
    "ucast (limite_byte p 3) = (if mem_is_big_endian (core_mem p) = 1 then 0x78 else 0x12 :: u32)"
    by (simp_all add: limite_byte_def in_order_def)
  with example3_run [OF assms, of e mem] show ?thesis by simp
qed

section \<open>example4.s\<close>

text \<open>The assembler encodes \<^verbatim>\<open>#0xFF000\<close> as 0xFF rotated by 20; the addresses of the data are behind the program.\<close>

definition example4_text :: "u32 list" where
  "example4_text =
     [0xE3A00AFF, \<comment> \<open>main: mov r0, #0xFF000\<close>
      0xE3A04001, \<comment> \<open>mov r4, #1\<close>
      0xE59F100C, \<comment> \<open>ldr r1, =donnee\<close>
      0xE59F200C, \<comment> \<open>ldr r2, =fin\<close>
      0xE7915104, \<comment> \<open>ldr r5, [r1, +r4, lsl #2]\<close>
      0xE8B100C0, \<comment> \<open>ldmia r1!, {r6, r7}\<close>
      0xEF123456, \<comment> \<open>swi 0x123456\<close>
      0x00002800, 0x00002808]"

text \<open>
  Fact: the fourth example does not run. Its first instruction moves 0xFF000, an immediate whose rotation is greater than
  4, and nothing defines what the simulator does.
\<close>

theorem example4_is_undefined:
  assumes "core_wf p" and "holds_text p 0x20 example4_text" and "fetch_address p = 0x20"
  shows "cont_loop p e mem = Some Undef"
proof -
  have far: "rotates_far 0xE3A00AFF" and "\<not> breakpoint 0xE3A00AFF" by code_simp+
  moreover have "next_instruction p = Some 0xE3A00AFF"
    using program_word [of example4_text 0 p] assms by (simp add: program_at_def example4_text_def)
  ultimately show ?thesis using last_turn(2) [OF assms(1) _ _ run_rotates_far] by blast
qed

text \<open>A simulator of 128 kilobytes that holds the third example.\<close>

definition example3_core :: arm_core where
  "example3_core = arm_write_register (put_word (foldl (\<lambda>p (i, w). put_word p (0x20 + 4 * of_nat i) w)
     (arm_create 0 (memory_create (\<lambda>_. 0) 0x20000 1)) (enumerate 0 example3_text)) 0x2800 0x12345678) 15 0x20"

lemma example3_core_wf: "core_wf example3_core"
  by (simp add: example3_core_def example3_text_def arm_create_wf memory_create_wf put_wf)

theorem example3_runs_to_its_end_witness: "cont_loop example3_core 0 None = Some Exit"
proof -
  let ?c = "arm_create 0 (memory_create (\<lambda>_. 0) 0x20000 1)"
  have al0: "aligned 4 (core_mem ?c) a" if "unat a < 0x20000" "unat a mod 4 = 0" for a
    using that by (simp add: arm_create_state memory_create_def aligned_def)
  have wf: "core_wf ?c" by (simp add: arm_create_wf memory_create_wf)
  have "word_at example3_core (0x20 + 4 * of_nat i) = Some (example3_text ! i)" if "i < 6" for i
  proof -
    have "i = 0 \<or> i = 1 \<or> i = 2 \<or> i = 3 \<or> i = 4 \<or> i = 5" using that by arith
    then show ?thesis
      by (elim disjE) (simp_all add: example3_core_def example3_text_def word_at_put_word al0 wf put_wf)
  qed
  then have "holds_text example3_core 0x20 example3_text" by (simp add: holds_text_def example3_text_def)
  moreover have "word_at example3_core 0x2800 = Some 0x12345678"
    by (simp add: example3_core_def example3_text_def word_at_put_word al0 wf put_wf)
  moreover have "fetch_address example3_core = 0x20" by (simp add: example3_core_def)
  ultimately show ?thesis using example3_runs_to_its_end [OF example3_core_wf] by blast
qed

end
