(* ===== verification/Sessions.thy ===== *)
theory Sessions
  imports Simulator Example_Programs
begin

text \<open>
  Whole sessions: a client connects, loads a program into the memory (\<^verbatim>\<open>X\<close>), sets the registers (\<^verbatim>\<open>G\<close>) and
  continues (\<^verbatim>\<open>c\<close>). The bytes of the connection pass the scanner and its buffer, the packets the analysis and the
  handlers of the server, the program the processor.

  The lemmas show that such a session is a run of the loaded program, whatever the portions in which
  its bytes arrive.
\<close>

section \<open>What the client sends\<close>

text \<open>The bytes of a program in the memory of a simulator, whose byte order is \<open>be\<close>.\<close>

definition word_bytes :: "bool \<Rightarrow> u32 \<Rightarrow> u8 list" where
  "word_bytes be w = (if be then rev else id) (bytes_of_u32 LittleEndianHost w)"

definition program_image :: "bool \<Rightarrow> u32 list \<Rightarrow> u8 list" where
  "program_image be ws = concat (map (word_bytes be) ws)"

definition load_text :: "bool \<Rightarrow> u32 \<Rightarrow> u32 list \<Rightarrow> string" where
  "load_text be a ws = CHR ''X'' # range_text a (length (program_image be ws)) @ CHR '':'' # escape (program_image be ws)"

definition run_session :: "bool \<Rightarrow> u32 \<Rightarrow> u32 list \<Rightarrow> arm_core \<Rightarrow> string" where
  "run_session be a ws p =
     frame (load_text be a ws) @ frame (CHR ''G'' # registers_text be p) @ frame ''c''"

section \<open>The packets pass the scanner\<close>

lemma packet_text_append: "packet_text (s @ t) \<longleftrightarrow> packet_text s \<and> packet_text t"
  by (simp add: packet_text_def)

lemma not_hex [simp]: "\<not> is_hex CHR ''$''" "\<not> is_hex CHR ''#''"
  by code_simp+

lemma packet_text_hex: "list_all is_hex s \<Longrightarrow> packet_text s"
  by (auto simp: packet_text_def list_all_iff)

lemma packet_text_escape: "packet_text (escape bs)"
proof (induction bs)
  case (Cons b bs)
  have delimiters: "char_of (36 :: nat) = CHR ''$''" "char_of (35 :: nat) = CHR ''#''" by code_simp+
  have c: "char_of (unat x) = CHR ''$'' \<longleftrightarrow> x = 0x24" "char_of (unat x) = CHR ''#'' \<longleftrightarrow> x = 0x23" for x :: u8
    using byte_of_char [of x] by (auto simp: byte_of_def delimiters)
  have "packet_text (escape [b])"
    by (auto simp: escape_def packet_text_def c)
  moreover have "escape (b # bs) = escape [b] @ escape bs" by (simp add: escape_def)
  ultimately show ?case using Cons by (simp only: packet_text_append)
qed (simp add: escape_def packet_text_def)

lemma packet_text_range: "packet_text (range_text a n)"
  using packet_text_hex [OF hex_number_shape(2)]
  by (auto simp: range_text_def packet_text_append) (simp add: packet_text_def)

lemma packet_text_words: "packet_text (write_uint32 be v)"
proof -
  have "list_all is_hex (write_uint32 be v)"
    using is_hex_hex_byte by (auto simp: write_uint32_bytes list_all_iff)
  then show ?thesis by (rule packet_text_hex)
qed

lemma packet_text_concat: "packet_text (concat ss) \<longleftrightarrow> list_all packet_text ss"
  by (induction ss) (simp_all add: packet_text_append, simp add: packet_text_def)

lemma packet_text_registers: "packet_text (registers_text be p)"
proof -
  have "packet_text (replicate n CHR ''x'')" for n by (simp add: packet_text_def list_all_iff)
  then show ?thesis
    by (simp add: registers_text_def packet_text_append packet_text_concat packet_text_words list_all_iff del: upt_Suc)
qed

lemma packet_text_load: "packet_text (load_text be a ws)"
proof -
  have "packet_text (CHR ''X'' # s) \<longleftrightarrow> packet_text s" "packet_text (CHR '':'' # s) \<longleftrightarrow> packet_text s" for s
    by (simp_all add: packet_text_def)
  then show ?thesis by (simp add: load_text_def packet_text_append packet_text_range packet_text_escape)
qed

section \<open>The program in the memory\<close>

lemma length_program_image [simp]: "length (program_image be ws) = 4 * length ws"
  by (induction ws) (simp_all add: program_image_def word_bytes_def bytes_of_u32_def Let_def)

lemma program_image_word:
  assumes "i < length ws"
  shows "take 4 (drop (4 * i) (program_image be ws)) = word_bytes be (ws ! i)"
  using assms
proof (induction ws arbitrary: i)
  case (Cons w ws)
  have l: "length (word_bytes be w) = 4" by (simp add: word_bytes_def bytes_of_u32_def Let_def)
  have c: "program_image be (w # ws) = word_bytes be w @ program_image be ws" by (simp add: program_image_def)
  show ?case
  proof (cases i)
    case 0
    then show ?thesis by (simp add: c l)
  next
    case (Suc k)
    then show ?thesis using Cons by (simp add: c l)
  qed
qed simp

lemma loaded_program:
  assumes wf: "mem_wf m" and be: "mem_is_big_endian m = of_bool be" and small: "mem_size m < 2 ^ 32"
    and a: "unat a mod 4 = 0" and room: "unat a + 4 * length ws \<le> mem_size m"
    and q: "core_mem q = put_bytes m (unat a) (program_image be ws)"
  shows "holds_text q a ws"
  unfolding holds_text_def
proof (intro allI impI)
  fix i assume i: "i < length ws"
  let ?x = "a + 4 * of_nat i :: u32"
  have x: "unat ?x = unat a + 4 * i"
    using i room small by (simp add: unat_word_ariths unat_of_nat take_bit_eq_mod unsigned_of_nat)
  have len: "length (mem_data m) = mem_size m" using wf by (simp add: mem_wf_def)
  have al: "aligned 4 (core_mem q) ?x"
    using i room a by (simp add: aligned_def q x)
  have "drop (unat a + 4 * i) (mem_data (put_bytes m (unat a) (program_image be ws))) =
      drop (4 * i) (program_image be ws @ drop (unat a + 4 * length ws) (mem_data m))"
    using len room by (simp add: put_bytes_def)
  also have "take 4 \<dots> = word_bytes be (ws ! i)"
    using program_image_word [OF i, of be] i by simp
  finally have "take 4 (drop (unat a + 4 * i) (mem_data (put_bytes m (unat a) (program_image be ws)))) = word_bytes be (ws ! i)" .
  then have "peek (core_mem q) (unat ?x) 4 = bytes_of_u32 LittleEndianHost (ws ! i)"
    by (simp add: peek_def q x in_order_def be word_bytes_def)
  then show "word_at q ?x = Some (ws ! i)"
    using al by (simp add: word_at_def u32_of_le_bytes_of)
qed

section \<open>The session\<close>

lemma session_load:
  assumes "core_wf (gdb_arm g)" and "mem_size (core_mem (gdb_arm g)) < 2 ^ 32" and "\<not> gdb_shut g"
    and "unat a < mem_size (core_mem (gdb_arm g))"
    and "unat a + 4 * length ws \<le> mem_size (core_mem (gdb_arm g))"
  shows "gdb_packet_analysis be junk g (frame (load_text be a ws) @ NUL # rest) (length (frame (load_text be a ws))) =
    Some (Ret (answered ((acked g)\<lparr>gdb_arm := (gdb_arm g)\<lparr>core_mem :=
      put_bytes (core_mem (gdb_arm g)) (unat a) (program_image be ws)\<rparr>\<rparr>) ''OK''))"
proof -
  have "gdb_init CHR ''X'' = Some WriteMemoryBinary" by code_simp
  then show ?thesis
    unfolding load_text_def framed_packet_is_dispatched [OF assms(3)]
    using write_memory_escape [of "acked g" a "program_image be ws"] assms
    by (simp add: acked_def)
qed

lemma session_registers:
  assumes "\<not> gdb_shut g"
  shows "gdb_packet_analysis be junk g (frame (CHR ''G'' # registers_text be p) @ NUL # rest)
      (length (frame (CHR ''G'' # registers_text be p))) =
    Some (Ret (answered ((acked g)\<lparr>gdb_arm := with_registers (gdb_arm g) p\<rparr>) ''OK''))"
proof -
  have "gdb_init CHR ''G'' = Some WriteGeneralRegisters" by code_simp
  then show ?thesis
    unfolding framed_packet_is_dispatched [OF assms]
    using write_general_registers_eq [of "acked g"] assms
    by (simp add: acked_def with_registers_def del: upt_Suc)
qed

lemma session_continue:
  assumes "\<not> gdb_shut g"
  shows "gdb_packet_analysis be junk g (frame ''c'' @ NUL # rest) (length (frame ''c'')) = cont (acked g)"
proof -
  have "gdb_init CHR ''c'' = Some Cont" by code_simp
  then show ?thesis unfolding framed_packet_is_dispatched [OF assms] by simp
qed

text \<open>The processor that the client has prepared.\<close>

definition prepared :: "bool \<Rightarrow> arm_core \<Rightarrow> u32 \<Rightarrow> u32 list \<Rightarrow> arm_core \<Rightarrow> arm_core" where
  "prepared be arm a ws p =
     with_registers (arm\<lparr>core_mem := put_bytes (core_mem arm) (unat a) (program_image be ws)\<rparr>) p"

lemma session_stream:
  assumes arm: "core_wf arm" "mem_size (core_mem arm) < 2 ^ 32"
    and a: "unat a < mem_size (core_mem arm)" "unat a + 4 * length ws \<le> mem_size (core_mem arm)"
  shows "\<exists>g. gdb_arm g = prepared be arm a ws p \<and> target_exception g = 0 \<and> \<not> gdb_shut g \<and>
    gdb_scanner True be junk rest arm (run_session be a ws p @ t) =
      (case cont g of
         Some (Ret g) \<Rightarrow> yylex be junk rest \<lparr>pd_gdb = g, pd_buffer = []\<rparr> t
       | Some Exit \<Rightarrow> Some Exit | Some Undef \<Rightarrow> Some Undef | None \<Rightarrow> None)"
proof -
  define g0 where "g0 = gdb_init_data arm"
  define g1 where "g1 = answered ((acked g0)\<lparr>gdb_arm := (gdb_arm g0)\<lparr>core_mem :=
      put_bytes (core_mem (gdb_arm g0)) (unat a) (program_image be ws)\<rparr>\<rparr>) ''OK''"
  define g2 where "g2 = answered ((acked g1)\<lparr>gdb_arm := with_registers (gdb_arm g1) p\<rparr>) ''OK''"
  have s: "\<not> gdb_shut g0" "\<not> gdb_shut g1" "\<not> gdb_shut g2"
    by (simp_all add: g0_def g1_def g2_def gdb_init_data_def answered_def acked_def)
  have arm0: "gdb_arm g0 = arm" by (simp add: g0_def gdb_init_data_def)
  let ?G = "frame (CHR ''G'' # registers_text be p)"
  have texts: "packet_text (load_text be a ws)" "packet_text (CHR ''G'' # registers_text be p)" "packet_text ''c''"
    using packet_text_load packet_text_registers by (simp_all add: packet_text_def)
  have 1: "yylex be junk rest \<lparr>pd_gdb = g0, pd_buffer = []\<rparr> (frame (load_text be a ws) @ x) =
      yylex be junk rest \<lparr>pd_gdb = g1, pd_buffer = []\<rparr> x" for x
    using session_load [of g0 a ws be junk] arm a s(1)
    by (simp only: framed_packet_in_stream [OF texts(1)] parser_data.simps arm0) (simp add: g1_def arm0)
  have 2: "yylex be junk rest \<lparr>pd_gdb = g1, pd_buffer = []\<rparr> (?G @ x) =
      yylex be junk rest \<lparr>pd_gdb = g2, pd_buffer = []\<rparr> x" for x
    by (simp only: framed_packet_in_stream [OF texts(2)] parser_data.simps session_registers [OF s(2)])
      (simp add: g2_def)
  have "gdb_scanner True be junk rest arm (run_session be a ws p @ t) =
      yylex be junk rest \<lparr>pd_gdb = g2, pd_buffer = []\<rparr> (frame ''c'' @ t)"
    by (simp add: gdb_scanner_def run_session_def 1 2 flip: g0_def)
  also have "\<dots> = (case cont (acked g2) of
         Some (Ret g) \<Rightarrow> yylex be junk rest \<lparr>pd_gdb = g, pd_buffer = []\<rparr> t
       | Some Exit \<Rightarrow> Some Exit | Some Undef \<Rightarrow> Some Undef | None \<Rightarrow> None)"
    by (simp only: framed_packet_in_stream [OF texts(3)] parser_data.simps session_continue [OF s(3)])
  finally show ?thesis
    using s(3) by (intro exI [of _ "acked g2"])
      (simp add: g2_def g1_def g0_def acked_def answered_def gdb_init_data_def prepared_def)
qed

lemma session_run:
  assumes "malloc_total malloc" and "to_eof ans" and "length (received ans) + 1 < 2 ^ 30"
    and "received ans = run_session be a ws p @ t"
    and "core_wf arm" and "mem_is_big_endian (core_mem arm) = of_bool be" and "mem_size (core_mem arm) < 2 ^ 32"
    and "unat a mod 4 = 0" and "unat a < mem_size (core_mem arm)"
    and "unat a + 4 * length ws \<le> mem_size (core_mem arm)"
  shows "\<exists>q. core_wf q \<and> holds_text q a ws \<and> (\<forall>n < 16. arm_read_register q n = arm_read_register p n) \<and>
    arm_read_cpsr q = arm_read_cpsr p \<and> cycle_count q = cycle_count arm \<and>
    (let result = gdb_scanner_buffered malloc be junk (Some f) arm ans
     in (cont_loop q 0 None = Some Exit \<longrightarrow> result = Some Exit) \<and>
        (cont_loop q 0 None = Some Undef \<longrightarrow> result = Some Undef) \<and>
        (cont_loop q 0 None = None \<longrightarrow> result = None))"
proof -
  let ?q = "prepared be arm a ws p"
  have wf: "mem_wf (core_mem arm)" using assms(5) by (simp add: core_wf_def)
  have "core_wf ?q" using put_bytes_wf [OF wf, of "unat a" "program_image be ws"] assms(5,10)
    unfolding prepared_def with_registers_sel by (simp add: core_wf_def)
  moreover have "holds_text ?q a ws"
    by (rule loaded_program [OF wf assms(6,7,8,10)]) (simp add: prepared_def with_registers_sel)
  moreover obtain rest where "gdb_scanner_buffered malloc be junk (Some f) arm ans =
      gdb_scanner True be junk rest arm (received ans)"
    using buffered_stream [OF assms(1-3), of be junk "Some f" arm] by auto
  moreover obtain g where "gdb_arm g = ?q" "target_exception g = 0"
    "gdb_scanner True be junk rest arm (received ans) = (case cont g of
         Some (Ret g) \<Rightarrow> yylex be junk rest \<lparr>pd_gdb = g, pd_buffer = []\<rparr> t
       | Some Exit \<Rightarrow> Some Exit | Some Undef \<Rightarrow> Some Undef | None \<Rightarrow> None)"
    using session_stream [OF assms(5,7,9,10), of be p junk rest t] unfolding assms(4) by blast
  ultimately show ?thesis
    by (intro exI [of _ ?q]) (simp add: prepared_def with_registers_sel cont_def)
qed

text \<open>
  Property C14: a session runs the program that it loads. On a connection to a simulator that has the memory, whose
  bytes are, in any portions, a load of the program, the registers to start with and a continue, the program runs on a
  processor that holds it, with these registers and with the cycle counter of before: where that run ends the
  process or has no meaning, so does the server's, and while it goes on the server does not return.
\<close>

theorem session_runs_program:
  assumes "malloc_total malloc" and "to_eof ans" and "length (received ans) + 1 < 2 ^ 30"
    and "received ans = run_session be a ws p @ t"
    and "core_wf arm" and "mem_is_big_endian (core_mem arm) = of_bool be" and "mem_size (core_mem arm) < 2 ^ 32"
    and "unat a mod 4 = 0" and "unat a < mem_size (core_mem arm)"
    and "unat a + 4 * length ws \<le> mem_size (core_mem arm)"
  shows "\<exists>q. core_wf q \<and> holds_text q a ws \<and> (\<forall>n < 16. arm_read_register q n = arm_read_register p n) \<and>
    arm_read_cpsr q = arm_read_cpsr p \<and> cycle_count q = cycle_count arm \<and>
    (let result = gdb_scanner_buffered malloc be junk (Some f) arm ans
     in (cont_loop q 0 None = Some Exit \<longrightarrow> result = Some Exit) \<and>
        (cont_loop q 0 None = Some Undef \<longrightarrow> result = Some Undef) \<and>
        (cont_loop q 0 None = None \<longrightarrow> result = None))"
  using assms by (rule session_run)

text \<open>What the simulator starts with, and how a program's first instruction is read from the registers.\<close>

lemma main_arm_sel [simp]:
  "core_wf (main_arm be init c)" "mem_size (core_mem (main_arm be init c)) = 0x20000"
  "mem_is_big_endian (core_mem (main_arm be init c)) = of_bool be" "cycle_count (main_arm be init c) = 0"
  by (simp_all add: main_arm_def arm_create_wf arm_create_state memory_create_wf) (simp_all add: memory_create_def)

lemma fetch_address_pc: "arm_read_register p 15 = a + 4 \<Longrightarrow> fetch_address p = a"
  by (simp add: arm_read_pc fetch_address_def)

lemma listener_serves:
  assumes "create_server h os port = Ret sv" and "0 \<le> accepted"
  shows "gdb_listener h os port accepted malloc f be junk p ans =
    map_option (\<lambda>r. cbind r (\<lambda>d. Ret (gdb_arm (pd_gdb d)))) (gdb_scanner_buffered malloc be junk f p ans)"
  using assms by (simp add: gdb_listener_def Accept_def unix_result_def)

text \<open>
  Property C3: the simulator runs its example for a client. The process, started with whatever memory, accepts a
  connection that loads the first example program at the address of its linker script, sets the program
  counter to \<^verbatim>\<open>main\<close> and continues; in either byte order, and however the bytes arrive, the program runs through
  its loop and its last instruction ends the process.
\<close>

theorem example1_session:
  assumes "create_server h os port = Ret sv" and "0 \<le> accepted" and "malloc_total malloc"
    and "to_eof ans" and "length (received ans) + 1 < 2 ^ 30"
    and "received ans = run_session be 0x20 example1_text p @ t" and "arm_read_register p 15 = 0x2C"
  shows "gdb_listener h os port accepted malloc (Some f) be junk (main_arm be init c) ans = Some Exit"
proof -
  have "length example1_text = 6" by (simp add: example1_text_def)
  then obtain q where q: "core_wf q" "holds_text q 0x20 example1_text"
    "arm_read_register q 15 = arm_read_register p 15"
    "cont_loop q 0 None = Some Exit \<longrightarrow> gdb_scanner_buffered malloc be junk (Some f) (main_arm be init c) ans = Some Exit"
    using session_run [OF assms(3-6), of "main_arm be init c" junk f] by (auto simp: Let_def)
  then have "fetch_address q = 0x28" using assms(7) by (intro fetch_address_pc) simp
  then have "cont_loop q 0 None = Some Exit" using example1_run [OF q(1,2)] by blast
  with q(4) show ?thesis by (simp add: listener_serves [OF assms(1,2)])
qed

text \<open>
  Fact: the second example, loaded and started in the same way, meets what has no meaning in C.
\<close>

theorem example2_session:
  assumes "create_server h os port = Ret sv" and "0 \<le> accepted" and "malloc_total malloc"
    and "to_eof ans" and "length (received ans) + 1 < 2 ^ 30"
    and "received ans = run_session be 0x20 example2_text p @ t" and "arm_read_register p 15 = 0x24"
  shows "gdb_listener h os port accepted malloc (Some f) be junk (main_arm be init c) ans = Some Undef"
proof -
  have "length example2_text = 13" by (simp add: example2_text_def)
  then obtain q where q: "core_wf q" "holds_text q 0x20 example2_text"
    "arm_read_register q 15 = arm_read_register p 15"
    "cont_loop q 0 None = Some Undef \<longrightarrow> gdb_scanner_buffered malloc be junk (Some f) (main_arm be init c) ans = Some Undef"
    using session_run [OF assms(3-6), of "main_arm be init c" junk f] by (auto simp: Let_def)
  then have "fetch_address q = 0x20" using assms(7) by (intro fetch_address_pc) simp
  then have "cont_loop q 0 None = Some Undef" using example2_run [OF q(1,2)] by blast
  with q(4) show ?thesis by (simp add: listener_serves [OF assms(1,2)])
qed

text \<open>The session in one portion, then the end of the connection.\<close>

definition in_one_portion :: "string \<Rightarrow> read_answer list" where
  "in_one_portion s = [Got (map byte_of s), Got []]"

lemma received_in_one_portion: "s \<noteq> [] \<Longrightarrow> received (in_one_portion s) = s"
proof -
  have "char_of (unat (byte_of c)) = c" for c
  proof -
    have "byte_of c = of_nat (of_char c)" by (simp only: byte_of_def of_nat_of_char)
    then show ?thesis by (simp add: unsigned_of_nat take_bit_eq_mod)
  qed
  then show "s \<noteq> [] \<Longrightarrow> received (in_one_portion s) = s"
    by (simp add: in_one_portion_def chars_of_def comp_def)
qed

lemma length_escape: "length (escape bs) \<le> 2 * length bs"
  by (induction bs) (auto simp: escape_def)

lemma length_load_text: "length (load_text be a ws) \<le> 8 * length ws + length (range_text a (4 * length ws)) + 2"
  using length_escape [of "program_image be ws"] by (simp add: load_text_def)

lemma length_registers_text: "length (registers_text be p) = 336"
  by (simp add: registers_text_def length_words del: upt_Suc)

text \<open>A session that loads and starts the first example.\<close>

definition sample_session :: string where
  "sample_session = run_session True 0x20 example1_text example1_core @ []"

lemma sample_session_sends:
  "received (in_one_portion sample_session) = run_session True 0x20 example1_text example1_core @ []"
  "to_eof (in_one_portion sample_session)"
  "length (received (in_one_portion sample_session)) + 1 < 2 ^ 30"
  "malloc_total (\<lambda>n. Some (replicate n NUL))"
  "arm_read_register example1_core 15 = 0x2C"
  "length example1_text = 6"
proof -
  show r: "received (in_one_portion sample_session) = run_session True 0x20 example1_text example1_core @ []"
    unfolding sample_session_def by (rule received_in_one_portion) (simp add: run_session_def frame_def)
  have "length (range_text 0x20 (4 * length example1_text)) = 5" "length example1_text = 6" by code_simp+
  then show "length (received (in_one_portion sample_session)) + 1 < 2 ^ 30"
    using length_load_text [of True "0x20" example1_text]
    unfolding r by (simp add: run_session_def frame_def length_registers_text)
qed (simp_all add: in_one_portion_def malloc_total_def example1_text_def, code_simp)

theorem session_runs_program_witness:
  "\<exists>q. holds_text q 0x20 example1_text \<and> arm_read_register q 15 = 0x2C \<and>
     (cont_loop q 0 None = Some Exit \<longrightarrow> gdb_scanner_buffered (\<lambda>n. Some (replicate n NUL)) True 0 (Some 4)
        (main_arm True (\<lambda>_. 0) 0) (in_one_portion sample_session) = Some Exit)"
  using session_runs_program [OF sample_session_sends(4,2,3,1), of "main_arm True (\<lambda>_. 0) 0" 0 4]
    sample_session_sends(5,6) by (auto simp: Let_def)

theorem example1_session_witness:
  "gdb_listener LittleEndianHost sample_sockets 0 4 (\<lambda>n. Some (replicate n NUL)) (Some 4) True 0
     (main_arm True (\<lambda>_. 0) 0) (in_one_portion sample_session) = Some Exit"
proof -
  have "\<exists>sv. create_server LittleEndianHost sample_sockets 0 = Ret sv"
    by (simp add: create_server_def sample_sockets_def Let_def Socket_def Setsockopt_def Bind_def
        Listen_def unix_result_def)
  then obtain sv where "create_server LittleEndianHost sample_sockets 0 = Ret sv" by blast
  from example1_session [OF this _ sample_session_sends(4,2,3,1,5), of 4 4 0 "\<lambda>_. 0" 0]
  show ?thesis by simp
qed

end
