(* ===== verification/Lifetime.thy ===== *)
theory Lifetime
  imports Simulator
begin

text \<open>
  When the structures of the process live: what \<^verbatim>\<open>memory.c\<close>, \<^verbatim>\<open>registers.c\<close>, \<^verbatim>\<open>arm_core.c\<close> and \<^verbatim>\<open>gdb_protocol.c\<close>
  allocate and free, and the order in which \<^verbatim>\<open>main\<close> and its two threads create, use and destroy it. The other theories
  are about the contents of the structures; here a structure is a block of a heap that holds the pointers in it.

  \<^verbatim>\<open>malloc\<close> may refuse: \<open>grant a\<close> tells whether it gives the address \<open>a\<close>, and a null pointer is 0. The use of a
  null or freed block and a second free of one are \<open>Undef\<close>.

  The theorem says which runs of the process have a meaning, and what they leave allocated.
\<close>

section \<open>The heap\<close>

text \<open>
  A fresh block, \<^verbatim>\<open>struct memory_data\<close> with its \<^verbatim>\<open>data\<close>, the bytes of a memory, \<^verbatim>\<open>struct registers_data\<close>,
  \<^verbatim>\<open>struct arm_core_data\<close> with its memory and registers, \<^verbatim>\<open>struct gdb_protocol_data\<close> with its processor and memory.
\<close>

datatype block = Fresh | Memory_data nat | Registers_data | Core_data nat nat | Protocol_data nat nat

record heap =
  h_next :: nat
  h_blocks :: "nat \<Rightarrow> block option"




definition h_get :: "nat \<Rightarrow> heap \<Rightarrow> block cres" where
  "h_get a h = (case h_blocks h a of None \<Rightarrow> Undef | Some b \<Rightarrow> Ret b)"

definition h_set :: "nat \<Rightarrow> block \<Rightarrow> heap \<Rightarrow> heap cres" where
  "h_set a b h = cbind (h_get a h) (\<lambda>_. Ret (h\<lparr>h_blocks := (h_blocks h)(a \<mapsto> b)\<rparr>))"

section \<open>Creation and destruction\<close>









section \<open>The process\<close>








section \<open>Which runs have a meaning\<close>

lemma h_get_simps [simp]: "h_get a h = (case h_blocks h a of None \<Rightarrow> Undef | Some b \<Rightarrow> Ret b)"
  by (simp add: h_get_def)

lemma h_set_simps [simp]:
  "h_set a b h = (case h_blocks h a of None \<Rightarrow> Undef | Some _ \<Rightarrow> Ret (h\<lparr>h_blocks := (h_blocks h)(a \<mapsto> b)\<rparr>))"
  by (simp add: h_set_def split: option.split)



section \<open>Verdicts\<close>




















end
