(* ===== verification/Spec2Isabelle.thy ===== *)
theory Spec2Isabelle
  imports C_Prelude Util Memory Registers Arm_Constants Arm_Core Arm_Exception Handler Data_Processing
    Data_Processing_Props Load_Store Branch_Other Instruction Debug C_Format Gdb_Protocol Gdb_Props
    Scanner Flex_Buffer Scanner_Buffer Scanner_Refines Trace Csapp Memory_Test Simulator Csapp_Wrappers
    Command_Line Debug_Macros Example_Programs More_Examples Sessions Lifetime
begin

text \<open>
  A model of an ARMv5 instruction set simulator that is driven by gdb, and the theorems about it.

  \<^bold>\<open>The program.\<close> \<^verbatim>\<open>arm_simulator.c\<close> creates a memory of 128 kilobytes and a processor and starts two threads.
  The gdb thread accepts one connection; its scanner (\<^verbatim>\<open>scanner.c\<close>, generated from \<^verbatim>\<open>scanner.l\<close>) cuts the bytes of
  the connection into acknowledgements, packets and noise, and \<^verbatim>\<open>gdb_protocol.c\<close> checks each packet,
  executes its command on the processor and answers. The commands that run the program call
  \<^verbatim>\<open>arm_step\<close> (\<^verbatim>\<open>arm_instruction.c\<close>), which fetches an instruction and dispatches it to the handlers of
  \<^verbatim>\<open>arm_data_processing.c\<close>, \<^verbatim>\<open>arm_load_store.c\<close> and \<^verbatim>\<open>arm_branch_other.c\<close>; these read and write the
  processor through \<^verbatim>\<open>arm_core.c\<close>, which holds the registers (\<^verbatim>\<open>registers.c\<close>) and the memory
  (\<^verbatim>\<open>memory.c\<close>) and traces every access (\<^verbatim>\<open>trace.c\<close>). The interrupt thread raises the exception of every byte
  it receives (\<^verbatim>\<open>arm_exception.c\<close>); \<^verbatim>\<open>send_irq.c\<close> is the program that sends one. A lock makes a packet's
  command and an exception atomic.

  \<^bold>\<open>Conventions.\<close> Machine integers are words of their width. A C function that may meet undefined behaviour
  or end the process returns a \<open>cres\<close> (\<open>Ret\<close>, \<open>Exit\<close>, \<open>Undef\<close>); one that may not return is an \<open>option\<close> around
  it, \<open>None\<close> being the run that does not end or that waits for input. State is passed and returned. What C
  leaves open is a parameter: the contents of fresh or uninitialised memory (\<open>junk\<close>, \<open>init\<close>), the kind of
  host, the build variants (\<open>be\<close> for \<^verbatim>\<open>BIG_ENDIAN_SIMULATOR\<close>, \<open>fmt\<close> for \<^verbatim>\<open>ARM_TRACE_FORMAT\<close>), and the
  results of the system's calls.

  \<^bold>\<open>Theories and the code they model.\<close>
  \<^item> \<open>C_Prelude\<close>: outcomes, shifts of C, words; the rule collections \<open>frame_simps\<close>, \<open>flag_simps\<close>, \<open>wf_intros\<close>.
  \<^item> \<open>Util\<close>: \<^verbatim>\<open>util.h\<close>, \<^verbatim>\<open>util.c\<close>: bit macros, shifts, byte order of the host, condition field.
  \<^item> \<open>Memory\<close>: \<^verbatim>\<open>memory.c\<close>; the record \<open>memory_data\<close> is \<^verbatim>\<open>struct memory_data\<close>. Interface \<open>mem_port\<close>, with
    \<open>held_port\<close> for a state that holds a memory.
  \<^item> \<open>Registers\<close>: \<^verbatim>\<open>registers.c\<close>; interface \<open>register_file\<close>.
  \<^item> \<open>Arm_Constants\<close>: \<^verbatim>\<open>arm_constants.h\<close>, \<^verbatim>\<open>arm_constants.c\<close>.
  \<^item> \<open>Arm_Core\<close>, \<open>Arm_Exception\<close>: \<^verbatim>\<open>arm_core.c\<close>, \<^verbatim>\<open>arm_exception.c\<close>; the record \<open>arm_core\<close> is
    \<^verbatim>\<open>struct arm_core_data\<close>. The interfaces of memory and registers are interpreted on the processor.
  \<^item> \<open>Handler\<close>: what the instruction handlers share; interfaces \<open>handler\<close> and \<open>total_handler\<close>.
  \<^item> \<open>Data_Processing\<close>, \<open>Data_Processing_Props\<close>: \<^verbatim>\<open>arm_data_processing.c\<close>.
  \<^item> \<open>Load_Store\<close>: \<^verbatim>\<open>arm_load_store.c\<close>. \<open>Branch_Other\<close>: \<^verbatim>\<open>arm_branch_other.c\<close>.
  \<^item> \<open>Instruction\<close>: \<^verbatim>\<open>arm_instruction.c\<close>: fetch, dispatch, step.
  \<^item> \<open>Debug\<close>: \<^verbatim>\<open>debug.c\<close>: the sorted array of debugged files and the search in it.
    \<open>Debug_Macros\<close>: \<^verbatim>\<open>debug.h\<close>: the test with its cache, and the messages.
  \<^item> \<open>C_Format\<close>: what the code uses of \<^verbatim>\<open>printf\<close>, \<^verbatim>\<open>sscanf\<close> and \<^verbatim>\<open>atoi\<close>.
  \<^item> \<open>Gdb_Protocol\<close>, \<open>Gdb_Props\<close>: \<^verbatim>\<open>gdb_protocol.c\<close>; the record \<open>gdb_protocol_data\<close> is
    \<^verbatim>\<open>struct gdb_protocol_data\<close> with the bytes written to the connection.
  \<^item> \<open>Scanner\<close>: \<^verbatim>\<open>scanner.c\<close>: tables, automaton, actions, and the loop over the stream as if all of it were in
    the buffer, the abstract scanner.
  \<^item> \<open>Flex_Buffer\<close>: \<^verbatim>\<open>scanner.c\<close>: the record \<open>yyguts\<close> is \<^verbatim>\<open>struct yyguts_t\<close>; buffers and their stack, accessors,
    creation and destruction. \<open>Scanner_Buffer\<close>: \<^verbatim>\<open>yylex\<close> on the buffer, label by label, and
    \<^verbatim>\<open>yy_get_next_buffer\<close>. \<open>Scanner_Refines\<close>: it refines the abstract scanner.
  \<^item> \<open>Trace\<close>: \<^verbatim>\<open>trace.c\<close>, \<^verbatim>\<open>trace_location.h\<close>, the traced accesses and the dump of \<^verbatim>\<open>arm_core.c\<close>; interface
    \<open>traced_access\<close>, interpreted on each of the fifteen accesses.
  \<^item> \<open>Csapp\<close>: \<^verbatim>\<open>csapp.c\<close>: the robust input and output functions and the wrappers the program calls.
    \<open>Csapp_Wrappers\<close>: the others, interface \<open>checked_call\<close> interpreted on each, and the client and server helpers.
  \<^item> \<open>Memory_Test\<close>: \<^verbatim>\<open>memory_test.c\<close>.
  \<^item> \<open>Simulator\<close>: \<^verbatim>\<open>arm_simulator.c\<close> and \<^verbatim>\<open>send_irq.c\<close>: options, servers, the two threads, their interleaving
    as the relation \<open>sim_step\<close> and its reachable states. \<open>Command_Line\<close>: the tables of options and the usage texts.
  \<^item> \<open>Example_Programs\<close>: \<^verbatim>\<open>Examples\<close>: the insertion sort in C, and two of the assembly programs, run on the model.
    \<open>More_Examples\<close>: two others, which use their data section.
  \<^item> \<open>Sessions\<close>: the composition of all of it: what a client sends to load a program, set the registers and run
    it, through \<^verbatim>\<open>gdb_listener\<close>, scanner, packet analysis, handlers and processor.
  \<^item> \<open>Lifetime\<close>: what \<^verbatim>\<open>memory.c\<close>, \<^verbatim>\<open>registers.c\<close>, \<^verbatim>\<open>arm_core.c\<close> and \<^verbatim>\<open>gdb_protocol.c\<close> allocate and free,
    on a heap of blocks whose \<^verbatim>\<open>malloc\<close> may refuse, in the order of \<^verbatim>\<open>main\<close> and its two threads.

  \<^bold>\<open>What the theorems show.\<close> Memory: accesses on every branch, independence from the host,
  layout of words. Instructions: each handler keeps the processor well formed and changes only what it should;
  the results and flags of the data-processing instructions; load after store, pop after push; where branches
  go; exactly which instructions have no meaning in C; what a step does when the fetch is refused. Server:
  framing and checksums, one answer per packet, the round trips of registers and memory, when a continue
  returns, with which answer, and when it does not; the generated automaton is the rules of the scanner; the
  scanner with its buffer does what the scanner on the whole stream does, whatever the sizes of the reads, and
  answers a packet before it reads again; the end of every run on a stream without a continue command, and the
  return of the server where no command can exit or be undefined; what the destruction of the scanner frees.
  Whole process: an invariant of all states that packets, noise and interrupts in any order can lead to; a
  session that loads a program runs it, whatever the portions its bytes arrive in; which runs of the process,
  those that exit included, use only what is allocated, and what they leave allocated. Examples: one runs to
  its end on the simulator, by itself and through a whole session, another one too, two meet undefined
  behaviour, the sort in C does not return. Trace, robust input and output, debug list, memory test: see their
  theories. Several theorems state what the code does where the ARM manual or gdb expects something else;
  their text says so.

  \<^bold>\<open>Bounds and fuel.\<close> \<open>cont_loop\<close> is a partial function: a continue may run for ever. \<open>yy_settle\<close> has
  fuel 4, more than the longest chain of default states (\<open>yy_settle_total\<close>). The theorems on the buffer take a
  stream of less than \<open>2 ^ 30\<close> bytes, below which no size of the buffer overflows an \<^verbatim>\<open>int\<close>, and a
  \<^verbatim>\<open>malloc\<close> that grants every request; the definitions treat the refusals too. \<open>yylex\<close> ends because every
  token has at least one byte. \<open>find_irq\<close> has fuel 8, the length of the name table. \<open>readnb_loop\<close> has
  fuel \<open>n\<close>: every iteration but the last copies a byte. The loops over the system's answers end with
  the list of answers.

  \<^bold>\<open>Not modelled.\<close> Of \<^verbatim>\<open>scanner.c\<close>:
  \<^verbatim>\<open>input\<close>, \<^verbatim>\<open>yy_flex_strncpy\<close> and
  \<^verbatim>\<open>yy_flex_strlen\<close>, which its definitions exclude from the compilation, and the
  macros that nothing uses (\<^verbatim>\<open>yyless\<close>, \<^verbatim>\<open>unput\<close>,
  \<^verbatim>\<open>yy_set_bol\<close>, \<^verbatim>\<open>yy_set_interactive\<close>).
  \<^verbatim>\<open>Pthread_exit\<close> and \<^verbatim>\<open>Pthread_once\<close>, which test nothing. The
  two \<^verbatim>\<open>printf\<close> of \<^verbatim>\<open>arm_execute_instruction\<close> and the places
  where the program prints debug messages. The calls of the trace inside the handlers (the traced accesses are
  modelled and shown to compute what the plain ones compute, the handlers use the plain ones). In the theories
  on the contents of the structures every creation succeeds; a refused \<^verbatim>\<open>malloc\<close> and
  the release of the structures are in \<open>Lifetime\<close>. A write that fails while the connection is
  open. One value of \<open>junk\<close> stands for all uninitialised variables of a packet's command. The
  system's calls, sockets and threads are parameters. The other assembly programs of
  \<^verbatim>\<open>Examples\<close>, inputs of the simulator; \<^verbatim>\<open>no_trace_location.h\<close>
  only undoes the macros of \<^verbatim>\<open>trace_location.h\<close>.
\<close>

end
